(* ===== verification/Prelude.thy ===== *)
theory Prelude
  imports Complex_Main "HOL-Library.Word" "HOL-Library.Monad_Syntax" "HOL-Library.Signed_Division"
begin

text \<open>
  Shared vocabulary of the development: the machine integers of the Rust code as words, the
  conventions for panics and errors, little-endian byte strings, and the modular arithmetic that
  every statement about the mining puzzle rests on.

  A Rust value of type \<open>T\<close> whose computation may panic is an \<open>T option\<close>: \<open>None\<close> is the panic,
  and panics propagate through the \<open>do\<close> blocks of the option monad. A Rust \<open>Result\<close> is a sum,
  with \<open>Inl\<close> for the error.
\<close>

named_theorems rho_simps "unfolding rules of the puzzle's operations under the library laws"
named_theorems pallet_defs "definitions of storage items and dispatchables of the pallets"

type_synonym u8 = "8 word"
type_synonym u32 = "32 word"
type_synonym u64 = "64 word"
type_synonym u128 = "128 word"
type_synonym u256 = "256 word"
type_synonym h256 = "u8 list"
type_synonym bytes = "u8 list"

section \<open>Little-endian byte strings\<close>

fun le_val :: "bytes \<Rightarrow> int" where
  "le_val [] = 0"
| "le_val (d # ds) = uint d + 256 * le_val ds"

fun le_digits :: "nat \<Rightarrow> int \<Rightarrow> bytes" where
  "le_digits 0 x = []"
| "le_digits (Suc k) x = word_of_int x # le_digits k (x div 256)"

lemma le_val_nonneg [simp]: "0 \<le> le_val ds"
  by (induction ds) auto

lemma uint_u8_lt [simp]: "uint (d :: u8) < 256"
  using uint_lt2p [of d] by simp

lemma le_val_less: "le_val ds < 256 ^ length ds"
proof (induction ds)
  case Nil
  then show ?case by simp
next
  case (Cons d ds)
  have "uint d + 256 * le_val ds < 256 + 256 * (le_val ds)"
    by simp
  also have "\<dots> \<le> 256 * 256 ^ length ds"
    using Cons.IH by simp
  finally show ?case by simp
qed

lemma le_val_append: "le_val (xs @ ys) = le_val xs + 256 ^ length xs * le_val ys"
  by (induction xs) (auto simp: algebra_simps)

lemma le_val_zeros [simp]: "le_val (replicate k 0) = 0"
  by (induction k) auto

lemma length_le_digits [simp]: "length (le_digits k x) = k"
  by (induction k arbitrary: x) auto

lemma le_val_le_digits: "le_val (le_digits k x) = x mod 256 ^ k"
proof (induction k arbitrary: x)
  case 0
  then show ?case by simp
next
  case (Suc k)
  have "x mod 256 + 256 * (x div 256 mod 256 ^ k) = x mod (256 * 256 ^ k)"
    by (simp add: zmod_zmult2_eq)
  then show ?case
    using Suc.IH by (simp add: uint_word_of_int)
qed

lemma le_digits_le_val: "le_digits (length ds) (le_val ds) = ds"
proof (induction ds)
  case Nil
  then show ?case by simp
next
  case (Cons d ds)
  have "(uint d + 256 * le_val ds) div 256 = le_val ds"
    by simp
  moreover have "uint (word_of_int (uint d + 256 * le_val ds) :: u8) = uint d"
    by (subst uint_word_of_int) (simp add: mod_pos_pos_trivial)
  then have "word_of_int (uint d + 256 * le_val ds) = d"
    by (rule word_uint_eqI)
  ultimately show ?case
    using Cons.IH by simp
qed

section \<open>Small numbers as words\<close>

lemma uint_of_nat_small: "k < 2 ^ LENGTH('a :: len) \<Longrightarrow> uint (of_nat k :: 'a word) = int k"
  by (simp only: unsigned_of_nat take_bit_nat_eq_self)

lemma unat_of_nat_small: "k < 2 ^ LENGTH('a :: len) \<Longrightarrow> unat (of_nat k :: 'a word) = k"
  by (simp only: unsigned_of_nat take_bit_nat_eq_self of_nat_id)

section \<open>Saturating arithmetic\<close>

definition sat_add :: "'a :: len word \<Rightarrow> 'a word \<Rightarrow> 'a word" where
  "sat_add x y = (if 2 ^ LENGTH('a) \<le> uint x + uint y then - 1 else x + y)"

definition sat_sub :: "'a :: len word \<Rightarrow> 'a word \<Rightarrow> 'a word" where
  "sat_sub x y = (if x < y then 0 else x - y)"

lemma uint_sat_add: "uint (sat_add x y) = min (uint x + uint y) (2 ^ LENGTH('a) - 1)"
  for x y :: "'a :: len word"
  using uint_lt2p [of x] uint_lt2p [of y]
  by (auto simp: sat_add_def unsigned_minus_1_eq_mask mask_eq_exp_minus_1 uint_plus_if' min_def)

lemma uint_sat_sub: "uint (sat_sub x y) = max 0 (uint x - uint y)"
  by (auto simp: sat_sub_def word_less_def uint_sub_if' max_def)

section \<open>Powers modulo a number\<close>

text \<open>
  \<open>x\<close> has an order dividing \<open>m\<close> modulo \<open>p\<close>: exponents may be reduced modulo \<open>m\<close>.
\<close>

lemma power_mod_exponent:
  fixes x p :: int
  assumes "x ^ m mod p = 1 mod p"
  shows "x ^ (k mod m) mod p = x ^ k mod p"
proof -
  have "x ^ k = x ^ (k mod m) * (x ^ m) ^ (k div m)"
    by (simp flip: power_mult power_add)
  also have "\<dots> mod p = x ^ (k mod m) * ((x ^ m mod p) ^ (k div m) mod p) mod p"
    by (simp add: power_mod mod_mult_right_eq)
  also have "\<dots> = x ^ (k mod m) mod p"
    by (simp add: assms power_mod mod_mult_right_eq)
  finally show ?thesis ..
qed

lemma power_mod_exponent_int:
  fixes x p m k :: int
  assumes "x ^ nat m mod p = 1 mod p" and "0 < m" and "0 \<le> k"
  shows "x ^ nat (k mod m) mod p = x ^ nat k mod p"
  using power_mod_exponent [OF assms(1), of "nat k"] assms(2,3) by (simp add: nat_mod_distrib)

lemma mult_mod_cong:
  fixes x y u v p :: int
  assumes "x mod p = u mod p" and "y mod p = v mod p"
  shows "x * y mod p = u * v mod p"
  using assms by (rule mod_mult_cong)

end
