(* ===== verification/Externals.thy ===== *)
theory Externals
  imports Prelude
begin

text \<open>
  The third-party crates the puzzle calls. Their code is not part of the repository, so each
  function is a field of a record that the model's definitions take as an argument, and what the
  code relies on is stated as the laws of a locale:
  \<^item> the big integers of \<open>rug\<close> (record \<open>rug\<close>, locale \<open>rug_spec\<close>); the type \<open>Integer\<close> itself is
    \<open>int\<close>, its operators \<open>+\<close>, \<open>-\<close>, \<open>*\<close> and comparisons are those of \<open>int\<close>, and its operator
    \<open>/\<close>, which truncates towards zero, is \<open>sdiv\<close>;
  \<^item> the random generator \<open>rug::rand::RandState\<close> (\<open>rand_spec\<close>);
  \<^item> the hash \<open>blake3::hash\<close> (\<open>blake_spec\<close>), of which only the length of the digest is used.
  Each locale is interpreted on the executable reference instance \<open>ref_libs\<close>, which the witnesses
  of the development compute with.
\<close>

section \<open>Big integers\<close>

record rug =
  rem_euc :: "int \<Rightarrow> int \<Rightarrow> int option"           \<comment> \<open>\<open>div_rem_euc(..).1\<close>; \<open>None\<close>: division by zero\<close>
  mod_u :: "int \<Rightarrow> u32 \<Rightarrow> u32"
  pow_mod :: "int \<Rightarrow> int \<Rightarrow> int \<Rightarrow> int option"    \<comment> \<open>\<open>pow_mod_ref\<close>: base, exponent, modulus\<close>
  invert :: "int \<Rightarrow> int \<Rightarrow> int option"
  int_gcd :: "int \<Rightarrow> int \<Rightarrow> int"
  sqrt_int :: "int \<Rightarrow> int"
  to_digits :: "int \<Rightarrow> bytes"                        \<comment> \<open>\<open>Order::Lsf\<close>, of the absolute value\<close>
  from_digits :: "bytes \<Rightarrow> int"                      \<comment> \<open>\<open>Order::Lsf\<close>\<close>
  to_u128 :: "int \<Rightarrow> u128 option"

locale rug_spec =
  fixes R :: "'z rug_scheme"
  assumes rem_euc_pos: "0 < m \<Longrightarrow> rem_euc R x m = Some (x mod m)"
    and mod_u_pos: "0 < uint k \<Longrightarrow> uint (mod_u R x k) = x mod uint k"
    and pow_mod_pos: "0 \<le> e \<Longrightarrow> 0 < m \<Longrightarrow> pow_mod R x e m = Some (x ^ nat e mod m)"
    and invert_coprime: "1 < m \<Longrightarrow> coprime x m \<Longrightarrow>
          \<exists>y. invert R x m = Some y \<and> 0 \<le> y \<and> y < m \<and> x * y mod m = 1"
    and invert_not_coprime: "1 < m \<Longrightarrow> \<not> coprime x m \<Longrightarrow> invert R x m = None"
    and int_gcd_eq: "int_gcd R x y = gcd x y"
    and sqrt_lower: "0 \<le> x \<Longrightarrow> 0 \<le> sqrt_int R x \<and> sqrt_int R x * sqrt_int R x \<le> x"
    and sqrt_upper: "0 \<le> x \<Longrightarrow> x < (sqrt_int R x + 1) * (sqrt_int R x + 1)"
    and to_digits_val: "le_val (to_digits R x) = \<bar>x\<bar>"
    and to_digits_len: "length (to_digits R x) \<le> len \<longleftrightarrow> \<bar>x\<bar> < 256 ^ len"
    and from_digits_val: "from_digits R ds = le_val ds"
    and to_u128_fits: "0 \<le> x \<Longrightarrow> x < 2 ^ 128 \<Longrightarrow> to_u128 R x = Some (word_of_int x)"
    and to_u128_large: "x < 0 \<or> 2 ^ 128 \<le> x \<Longrightarrow> to_u128 R x = None"
begin

lemma mod_u_3: "mod_u R x 3 = word_of_int (x mod 3)"
  by (rule word_uint_eqI) (simp add: mod_u_pos uint_word_of_int)

lemma mod_u_3_cases: "mod_u R x 3 = 0 \<or> mod_u R x 3 = 1 \<or> mod_u R x 3 = 2"
proof -
  have "x mod 3 = 0 \<or> x mod 3 = 1 \<or> x mod 3 = 2"
    by presburger
  then show ?thesis
    by (auto simp: mod_u_3)
qed

lemma invert_SomeD:
  assumes "1 < m" and "invert R x m = Some y"
  shows "coprime x m \<and> 0 \<le> y \<and> y < m \<and> x * y mod m = 1"
  using assms invert_coprime [of m x] invert_not_coprime [of m x] by (cases "coprime x m") auto

end

section \<open>Random numbers and the hash function\<close>

record 'r rug_rand = rug +
  rand_new :: "'r"                                    \<comment> \<open>\<open>RandState::new_mersenne_twister()\<close>\<close>
  rand_seed :: "int \<Rightarrow> 'r \<Rightarrow> 'r"
  random_below :: "int \<Rightarrow> 'r \<Rightarrow> (int \<times> 'r) option"     \<comment> \<open>\<open>None\<close>: bound not positive\<close>

record 'r libs = "'r rug_rand" +
  blake3 :: "bytes \<Rightarrow> bytes"

locale rand_spec = rug_spec R for R :: "('r, 'z) rug_rand_scheme" +
  assumes random_below_pos: "0 < m \<Longrightarrow> \<exists>x r'. random_below R m r = Some (x, r') \<and> 0 \<le> x \<and> x < m"
    and random_below_nonpos: "m \<le> 0 \<Longrightarrow> random_below R m r = None"

locale blake_spec = rand_spec R for R :: "('r, 'z) libs_scheme" +
  assumes blake3_length: "length (blake3 R ds) = 32"

section \<open>The reference instance\<close>

fun sqrt_upto :: "nat \<Rightarrow> int \<Rightarrow> int" where
  "sqrt_upto 0 x = 0"
| "sqrt_upto (Suc k) x = (if int (Suc k) * int (Suc k) \<le> x then int (Suc k) else sqrt_upto k x)"

function min_digits :: "int \<Rightarrow> bytes" where
  "min_digits x = (if x \<le> 0 then [] else word_of_int x # min_digits (x div 256))"
  by pat_completeness auto
termination
  by (relation "measure nat") auto

declare min_digits.simps [simp del]

definition ref_libs :: "int libs" where
  "ref_libs = \<lparr>
     rem_euc = (\<lambda>x m. if m = 0 then None else Some (x mod \<bar>m\<bar>)),
     mod_u = (\<lambda>x k. word_of_int (x mod uint k)),
     pow_mod = (\<lambda>x e m. if m = 0 \<or> e < 0 then None else Some (x ^ nat e mod \<bar>m\<bar>)),
     invert = (\<lambda>x m. List.find (\<lambda>y. x * y mod m = 1) [0..m - 1]),
     int_gcd = gcd,
     sqrt_int = (\<lambda>x. sqrt_upto (nat x) x),
     to_digits = (\<lambda>x. min_digits \<bar>x\<bar>),
     from_digits = le_val,
     to_u128 = (\<lambda>x. if 0 \<le> x \<and> x < 2 ^ 128 then Some (word_of_int x) else None),
     rand_new = 0,
     rand_seed = (\<lambda>x r. x + x div 10),
     random_below = (\<lambda>m r. if m \<le> 0 then None else Some (r mod m, r + 1)),
     blake3 = (\<lambda>ds. le_digits 32 (7 * le_val ds + 3)) \<rparr>"

lemma sqrt_upto_lower: "0 \<le> x \<Longrightarrow> 0 \<le> sqrt_upto k x \<and> sqrt_upto k x * sqrt_upto k x \<le> x"
  by (induction k) auto

lemma sqrt_upto_upper:
  "x < (int k + 1) * (int k + 1) \<Longrightarrow> x < (sqrt_upto k x + 1) * (sqrt_upto k x + 1)"
  by (induction k) (auto simp: algebra_simps)

lemma min_digits_val: "0 \<le> x \<Longrightarrow> le_val (min_digits x) = x"
proof (induction x rule: min_digits.induct)
  case (1 x)
  show ?case
  proof (cases "x = 0")
    case True
    then show ?thesis by (simp add: min_digits.simps)
  next
    case False
    with "1.prems" "1.IH" have "le_val (min_digits (x div 256)) = x div 256"
      by simp
    with False "1.prems" show ?thesis
      by (simp add: min_digits.simps [of x] uint_word_of_int)
  qed
qed

lemma div_256_less: "x div 256 < y \<longleftrightarrow> x < 256 * (y :: int)"
proof -
  have "x = 256 * (x div 256) + x mod 256" "0 \<le> x mod 256" "x mod 256 < 256"
    by simp_all
  then show ?thesis by linarith
qed

lemma mod_uint_u32: "0 < uint (k :: u32) \<Longrightarrow> x mod uint k mod 2 ^ 32 = x mod uint k"
  using uint_lt2p [of k] by (intro mod_pos_pos_trivial) (auto intro: order_less_trans pos_mod_bound)

lemma min_digits_len: "0 \<le> x \<Longrightarrow> length (min_digits x) \<le> k \<longleftrightarrow> x < 256 ^ k"
proof (induction k arbitrary: x)
  case 0
  show ?case by (subst min_digits.simps) (simp add: "0")
next
  case (Suc k)
  show ?case
  proof (cases "x = 0")
    case True
    then show ?thesis by (simp add: min_digits.simps)
  next
    case False
    then have "min_digits x = word_of_int x # min_digits (x div 256)"
      using Suc.prems by (subst min_digits.simps) simp
    then have "length (min_digits x) \<le> Suc k \<longleftrightarrow> length (min_digits (x div 256)) \<le> k"
      by simp
    also have "\<dots> \<longleftrightarrow> x div 256 < 256 ^ k"
      using Suc.prems by (intro Suc.IH) simp
    finally show ?thesis
      by (simp only: div_256_less power_Suc)
  qed
qed

lemma mod_inverse_exists:
  assumes "1 < (m :: int)" and "coprime x m"
  shows "\<exists>y. 0 \<le> y \<and> y < m \<and> x * y mod m = 1"
proof -
  obtain u v where "u * x + v * m = gcd x m"
    using bezout_int by blast
  then have "x * u = 1 - v * m"
    using \<open>coprime x m\<close> by (simp add: algebra_simps)
  then have "x * (u mod m) mod m = (1 - v * m) mod m"
    by (simp add: mod_mult_right_eq)
  also have "\<dots> = 1"
    using \<open>1 < m\<close> by (simp add: mod_diff_eq [symmetric])
  finally show ?thesis
    using \<open>1 < m\<close> by (intro exI [of _ "u mod m"]) auto
qed

lemma mod_inverse_coprime:
  assumes "1 < (m :: int)" and "x * y mod m = 1"
  shows "coprime x m"
proof (rule coprimeI)
  fix c
  assume "c dvd x" and "c dvd m"
  then have "c dvd x * y mod m"
    by (simp add: dvd_mod)
  with assms show "is_unit c" by simp
qed

lemma find_inverse_coprime:
  assumes "1 < (m :: int)" and "coprime x m"
  shows "\<exists>y. List.find (\<lambda>y. x * y mod m = 1) [0..m - 1] = Some y \<and> 0 \<le> y \<and> y < m \<and> x * y mod m = 1"
proof -
  obtain y where y: "0 \<le> y" "y < m" "x * y mod m = 1"
    using mod_inverse_exists [OF assms] by blast
  then obtain z where z: "List.find (\<lambda>y. x * y mod m = 1) [0..m - 1] = Some z"
    by (cases "List.find (\<lambda>y. x * y mod m = 1) [0..m - 1]") (auto simp: find_None_iff)
  then have "z \<in> set [0..m - 1] \<and> x * z mod m = 1"
    by (auto simp: find_Some_iff in_set_conv_nth)
  with z show ?thesis by auto
qed

lemma find_inverse_not_coprime:
  assumes "1 < (m :: int)" and "\<not> coprime x m"
  shows "List.find (\<lambda>y. x * y mod m = 1) [0..m - 1] = None"
  using assms mod_inverse_coprime [of m x] by (auto simp: find_None_iff)

lemma square_bound: "0 \<le> (x :: int) \<Longrightarrow> x < (x + 1) * (x + 1)"
  by (simp add: algebra_simps add_strict_increasing)

interpretation ref_rug: blake_spec ref_libs
proof (unfold_locales, goal_cases)
  case (1 m x) then show ?case by (simp add: ref_libs_def)
next
  case (2 k x) then show ?case
    using mod_uint_u32 by (simp add: ref_libs_def uint_word_of_int)
next
  case (3 e m x) then show ?case by (simp add: ref_libs_def)
next
  case (4 m x) then show ?case by (simp add: ref_libs_def find_inverse_coprime)
next
  case (5 m x) then show ?case by (simp add: ref_libs_def find_inverse_not_coprime)
next
  case (6 x y) then show ?case by (simp add: ref_libs_def)
next
  case (7 x) then show ?case by (simp add: ref_libs_def sqrt_upto_lower)
next
  case (8 x) then show ?case by (simp add: ref_libs_def sqrt_upto_upper square_bound)
next
  case (9 x) then show ?case by (simp add: ref_libs_def min_digits_val)
next
  case (10 x len) then show ?case by (simp add: ref_libs_def min_digits_len)
next
  case (11 ds) then show ?case by (simp add: ref_libs_def)
next
  case (12 x) then show ?case by (simp add: ref_libs_def)
next
  case (13 x) then show ?case by (auto simp add: ref_libs_def)
next
  case (14 m r) then show ?case by (simp add: ref_libs_def)
next
  case (15 m r) then show ?case by (simp add: ref_libs_def)
next
  case (16 ds) then show ?case by (simp add: ref_libs_def)
qed

end
