(* ===== verification/Generic.thy ===== *)
theory Generic
  imports Externals
begin

text \<open>
  The data of \<open>consensus/trex-pow/src/generic.rs\<close>: candidate solutions of the puzzle, states of the
  pseudo-random walk, and the traits \<open>Hash\<close> (a block header whose nonce can be set) and \<open>Mapping\<close>.
  The key types \<open>PublicKey\<close>, \<open>RawPublicKey\<close> and \<open>PrivateKey\<close> belong to the crate \<open>elgamal_trex\<close>;
  only their fields, as the repository builds and reads them, are modelled.

  A trait is a record of its methods (its dictionary); the laws its callers use are the locale
  \<open>header_hash\<close>, interpreted on the header type of the node in theory \<open>Header\<close>.
\<close>

record public_key =
  key_p :: int
  key_g :: int
  key_h :: int
  key_bits :: u32

record raw_public_key =
  raw_p :: u256
  raw_g :: u256
  raw_h :: u256
  raw_bits :: u32

record private_key =
  prv_p :: int
  prv_g :: int
  prv_x :: int
  prv_bits :: u32

datatype mapping_error = MappingError

type_synonym 'a map_result = "mapping_error + 'a"

record 'i solution =
  sol_a :: 'i
  sol_b :: 'i
  sol_n :: 'i

type_synonym 'i solutions = "'i solution \<times> 'i solution"

record rho_state =
  st_solution :: "int solution"
  st_nonce :: int
  st_work :: int
  st_pubkey :: public_key

text \<open>\<open>.unwrap()\<close> on a \<open>MapResult\<close>.\<close>

definition unwrap_map :: "'a map_result \<Rightarrow> 'a option" where
  "unwrap_map r = (case r of Inl e \<Rightarrow> None | Inr x \<Rightarrow> Some x)"

lemma unwrap_map_simps [simp]: "unwrap_map (Inl e) = None" "unwrap_map (Inr x) = Some x"
  by (simp_all add: unwrap_map_def)

section \<open>The trait \<open>Hash\<close>\<close>

record 'c hash_trait =
  tr_set_nonce :: "int \<Rightarrow> 'c \<Rightarrow> 'c option"
  tr_get_nonce :: "'c \<Rightarrow> u256"
  tr_hash_integer :: "'c \<Rightarrow> int"

locale header_hash =
  fixes H :: "'c hash_trait"
  assumes set_nonce_ok: "0 \<le> x \<Longrightarrow> x < 2 ^ 256 \<Longrightarrow> \<exists>c'. tr_set_nonce H x c = Some c'"
    and get_set_nonce: "0 \<le> x \<Longrightarrow> x < 2 ^ 256 \<Longrightarrow> tr_set_nonce H x c = Some c' \<Longrightarrow>
          uint (tr_get_nonce H c') = x"
    and set_set_nonce: "tr_set_nonce H x c = Some c' \<Longrightarrow> tr_set_nonce H y c' = tr_set_nonce H y c"
    and hash_integer_nonneg: "0 \<le> tr_hash_integer H c"

text \<open>
  Two headers that differ in their nonce only: setting any nonce makes them equal. The clones a
  solver makes of its header are related this way.
\<close>

definition same_header :: "'c hash_trait \<Rightarrow> 'c \<Rightarrow> 'c \<Rightarrow> bool" where
  "same_header H c d \<longleftrightarrow> (\<forall>x. tr_set_nonce H x c = tr_set_nonce H x d)"

lemma same_header_refl [simp]: "same_header H c c"
  by (simp add: same_header_def)

lemma same_header_sym: "same_header H c d \<Longrightarrow> same_header H d c"
  by (simp add: same_header_def)

lemma same_header_trans: "same_header H c d \<Longrightarrow> same_header H d e \<Longrightarrow> same_header H c e"
  by (simp add: same_header_def)

context header_hash
begin

lemma same_header_set: "tr_set_nonce H x c = Some c' \<Longrightarrow> same_header H c' c"
  by (simp add: same_header_def set_set_nonce)

end

end
