(* ===== verification/Utils.thy ===== *)
theory Utils
  imports Generic
begin

text \<open>
  The conversions between big integers and fixed-width integers of
  \<open>consensus/trex-pow/src/utils.rs\<close>, the random integer of a range, and \<open>eqs_solvers\<close>, the solver of
  the linear congruence that turns a collision into the private key. The functions of \<open>U256\<close> and
  \<open>H256\<close> they call are written out on words and byte lists: \<open>U256::from_little_endian\<close> panics on more
  than 32 bytes, \<open>H256::from_slice\<close> on any length but 32.
\<close>

section \<open>The local seed\<close>

text \<open>\<open>gen_range\<close> draws from the thread's generator, between both bounds.\<close>

definition get_local_seed :: "(int \<Rightarrow> int \<Rightarrow> int) \<Rightarrow> int" where
  "get_local_seed gen_range = gen_range 1 1000"

section \<open>Fixed-width integers and bytes\<close>

definition u256_from_le :: "bytes \<Rightarrow> u256 option" where
  "u256_from_le ds = (if length ds \<le> 32 then Some (word_of_int (le_val ds)) else None)"

definition u256_to_le :: "u256 \<Rightarrow> bytes" where
  "u256_to_le w = le_digits 32 (uint w)"

definition h256_from_slice :: "bytes \<Rightarrow> h256 option" where
  "h256_from_slice ds = (if length ds = 32 then Some ds else None)"

definition overflowing_mul :: "u256 \<Rightarrow> u256 \<Rightarrow> u256 \<times> bool" where
  "overflowing_mul x y = (x * y, 2 ^ 256 \<le> uint x * uint y)"

section \<open>\<open>utils.rs\<close>\<close>

definition gen_bigint_range ::
  "('r, 'z) rug_rand_scheme \<Rightarrow> 'r \<Rightarrow> int \<Rightarrow> int \<Rightarrow> (int \<times> 'r) option" where
  "gen_bigint_range R rand start stop = do {
     let range = stop - start;
     (below, rand') \<leftarrow> random_below R range rand;
     Some (start + below, rand') }"

definition bigint_h256 :: "'z rug_scheme \<Rightarrow> int \<Rightarrow> h256 option" where
  "bigint_h256 R x =
     (let slice = to_digits R x
      in h256_from_slice (slice @ replicate (32 - length slice) 0))"

definition bigint_u256 :: "'z rug_scheme \<Rightarrow> int \<Rightarrow> u256 option" where
  "bigint_u256 R x = u256_from_le (to_digits R x)"

definition u256_bigint :: "'z rug_scheme \<Rightarrow> u256 \<Rightarrow> int" where
  "u256_bigint R w = from_digits R (u256_to_le w)"

definition bigint_u128 :: "'z rug_scheme \<Rightarrow> int \<Rightarrow> u128" where
  "bigint_u128 R x = (case to_u128 R x of Some w \<Rightarrow> w | None \<Rightarrow> 0)"

definition u128_bigint :: "u128 \<Rightarrow> int" where
  "u128_bigint w = uint w"

text \<open>
  The divisions by \<open>div\<close> in the last branch are \<open>rug\<close>'s operator \<open>/\<close>; \<open>a2 - a2\<close> is what the source
  says.
\<close>

definition eqs_solvers ::
  "'z rug_scheme \<Rightarrow> int \<Rightarrow> int \<Rightarrow> int \<Rightarrow> int \<Rightarrow> int \<Rightarrow> int option option" where
  "eqs_solvers R a1 b1 a2 b2 n = do {
     r \<leftarrow> rem_euc R (b1 - b2) n;
     if r = 0 then Some None
     else (case invert R r n of
       Some res_inv \<Rightarrow> do {
         let dif = a2 - a1;
         k \<leftarrow> rem_euc R (res_inv * dif) n;
         Some (Some k) }
     | None \<Rightarrow> do {
         let d = int_gcd R r n;
         let res_l = (b1 - b2) sdiv d;
         let res_r = (a2 - a2) sdiv d;
         let p1 = n sdiv d;
         (case invert R res_l p1 of
           Some res_inv \<Rightarrow> do {
             k \<leftarrow> rem_euc R (res_inv * res_r) p1;
             Some (Some k) }
         | None \<Rightarrow> Some None) }) }"

section \<open>Round trips\<close>

lemma le_val_less_256: "length ds \<le> 32 \<Longrightarrow> le_val ds < 2 ^ 256"
proof -
  assume "length ds \<le> 32"
  then have "(256 :: int) ^ length ds \<le> 256 ^ 32"
    by (intro power_increasing) auto
  with le_val_less [of ds] show "le_val ds < 2 ^ 256"
    by simp
qed

lemma uint_u256_from_le: "u256_from_le ds = Some w \<Longrightarrow> uint w = le_val ds"
  using le_val_less_256 [of ds]
  by (auto simp: u256_from_le_def uint_word_of_int split: if_splits)

lemma u256_from_to_le: "u256_from_le (u256_to_le w) = Some w"
  using uint_lt2p [of w] by (simp add: u256_from_le_def u256_to_le_def le_val_le_digits)

lemma u256_from_le_32: "length ds = 32 \<Longrightarrow> u256_from_le ds = Some (word_of_int (le_val ds))"
  by (simp add: u256_from_le_def)

context rug_spec
begin

lemma u256_bigint_uint: "u256_bigint R w = uint w"
  using uint_lt2p [of w]
  by (simp add: u256_bigint_def u256_to_le_def from_digits_val le_val_le_digits)

lemma bigint_u256_fits: "\<bar>x\<bar> < 2 ^ 256 \<Longrightarrow> bigint_u256 R x = Some (word_of_int \<bar>x\<bar>)"
  by (simp add: bigint_u256_def u256_from_le_def to_digits_len to_digits_val)

lemma bigint_u256_panics: "2 ^ 256 \<le> \<bar>x\<bar> \<Longrightarrow> bigint_u256 R x = None"
  by (simp add: bigint_u256_def u256_from_le_def to_digits_len)

lemma bigint_u256_roundtrip:
  assumes "0 \<le> x" and "x < 2 ^ 256"
  shows "map_option (u256_bigint R) (bigint_u256 R x) = Some x"
  using assms by (simp add: bigint_u256_fits u256_bigint_uint uint_word_of_int)

lemma u256_bigint_roundtrip: "bigint_u256 R (u256_bigint R w) = Some w"
  using uint_lt2p [of w] by (simp add: u256_bigint_uint bigint_u256_fits)

lemma bigint_u128_eq: "bigint_u128 R x = (if 0 \<le> x \<and> x < 2 ^ 128 then word_of_int x else 0)"
  using to_u128_fits [of x] to_u128_large [of x] by (auto simp: bigint_u128_def)

lemma bigint_h256_fits:
  assumes "\<bar>x\<bar> < 2 ^ 256"
  shows "bigint_h256 R x = Some (le_digits 32 \<bar>x\<bar>)"
proof -
  let ?ds = "to_digits R x @ replicate (32 - length (to_digits R x)) 0"
  have len: "length (to_digits R x) \<le> 32"
    using assms by (simp add: to_digits_len)
  then have "length ?ds = 32"
    by simp
  moreover have "?ds = le_digits 32 \<bar>x\<bar>"
    using le_digits_le_val [of ?ds] \<open>length ?ds = 32\<close>
    by (simp add: le_val_append to_digits_val)
  ultimately show ?thesis
    by (simp only: bigint_h256_def h256_from_slice_def Let_def if_True simp_thms)
qed

end

end
