(* ===== verification/Header.thy ===== *)
theory Header
  imports Utils
begin

text \<open>
  \<open>consensus/trex-pow/src/hash.rs\<close>: the header \<open>Blake3Compute\<close> that a miner hashes, and the hash that
  marks the distinguished points of the walk. The SCALE encoding derived for the header is
  generated code, hence a further field \<open>encode_compute\<close> of the external functions.
\<close>

record compute =
  cmp_difficulty :: u128
  cmp_pre_hash :: h256
  cmp_nonce :: u256

record 'r pow_libs = "'r libs" +
  encode_compute :: "compute \<Rightarrow> bytes"

definition set_nonce :: "'z rug_scheme \<Rightarrow> int \<Rightarrow> compute \<Rightarrow> compute option" where
  "set_nonce R x c = do { w \<leftarrow> bigint_u256 R x; Some (c\<lparr>cmp_nonce := w\<rparr>) }"

definition get_nonce :: "compute \<Rightarrow> u256" where
  "get_nonce c = cmp_nonce c"

definition get_difficulty :: "compute \<Rightarrow> u128" where
  "get_difficulty c = cmp_difficulty c"

definition hash_integer :: "('r, 'z) pow_libs_scheme \<Rightarrow> compute \<Rightarrow> int" where
  "hash_integer L c = from_digits L (blake3 L (encode_compute L c))"

definition blake3_compute :: "('r, 'z) pow_libs_scheme \<Rightarrow> compute hash_trait" where
  "blake3_compute L =
     \<lparr>tr_set_nonce = set_nonce L, tr_get_nonce = get_nonce, tr_hash_integer = hash_integer L\<rparr>"

text \<open>The distinguishing hash of a state; \<open>/5\<close> truncates.\<close>

definition hash_encode :: "('r, 'z) libs_scheme \<Rightarrow> rho_state \<Rightarrow> u256 option" where
  "hash_encode L s =
     (let pk = st_pubkey s;
          total = st_nonce s sdiv 5 + st_work s sdiv 5 + key_p pk sdiv 5 + key_g pk sdiv 5
                  + key_h pk sdiv 5
      in u256_from_le (blake3 L (to_digits L total)))"

context blake_spec
begin

lemma hash_encode_total: "\<exists>w. hash_encode R s = Some w"
  by (simp add: hash_encode_def Let_def u256_from_le_32 blake3_length)

lemma hash_encode_cong:
  "st_nonce s = st_nonce t \<Longrightarrow> st_work s = st_work t \<Longrightarrow> st_pubkey s = st_pubkey t \<Longrightarrow>
   hash_encode R s = hash_encode R t"
  by (simp add: hash_encode_def)

end

text \<open>The header type satisfies the laws of the trait \<open>Hash\<close>.\<close>

lemma blake3_compute_header_hash:
  assumes "blake_spec (L :: ('r, 'z) pow_libs_scheme)"
  shows "header_hash (blake3_compute L)"
proof -
  from assms have R: "rug_spec L"
    by (simp add: blake_spec_def rand_spec_def)
  show ?thesis
  proof (unfold_locales, goal_cases)
    case (1 x c)
    then show ?case
      by (simp add: blake3_compute_def set_nonce_def rug_spec.bigint_u256_fits [OF R])
  next
    case (2 x c c')
    then show ?case
      by (auto simp: blake3_compute_def set_nonce_def get_nonce_def uint_word_of_int
          rug_spec.bigint_u256_fits [OF R])
  next
    case (3 x c c' y)
    then show ?case
      by (auto simp: blake3_compute_def set_nonce_def bind_eq_Some_conv)
  next
    case (4 c)
    then show ?case
      by (simp add: blake3_compute_def hash_integer_def rug_spec.from_digits_val [OF R])
  qed
qed

definition ref_pow_libs :: "int pow_libs" where
  "ref_pow_libs = libs.extend ref_libs
     \<lparr>encode_compute = (\<lambda>c. u256_to_le (cmp_nonce c) @ cmp_pre_hash c)\<rparr>"

lemma ref_pow_libs_fields [simp]:
  "rem_euc ref_pow_libs = rem_euc ref_libs" "mod_u ref_pow_libs = mod_u ref_libs"
  "pow_mod ref_pow_libs = pow_mod ref_libs" "invert ref_pow_libs = invert ref_libs"
  "int_gcd ref_pow_libs = int_gcd ref_libs" "sqrt_int ref_pow_libs = sqrt_int ref_libs"
  "to_digits ref_pow_libs = to_digits ref_libs" "from_digits ref_pow_libs = from_digits ref_libs"
  "to_u128 ref_pow_libs = to_u128 ref_libs" "rand_new ref_pow_libs = rand_new ref_libs"
  "rand_seed ref_pow_libs = rand_seed ref_libs"
  "random_below ref_pow_libs = random_below ref_libs" "blake3 ref_pow_libs = blake3 ref_libs"
  by (simp_all add: ref_pow_libs_def ref_libs_def libs.defs)

interpretation ref_pow: blake_spec ref_pow_libs
proof (unfold_locales, goal_cases)
  case (1 m x) then show ?case by (simp add: ref_rug.rem_euc_pos)
next
  case (2 k x) then show ?case by (simp add: ref_rug.mod_u_pos)
next
  case (3 e m x) then show ?case by (simp add: ref_rug.pow_mod_pos)
next
  case (4 m x) then show ?case by (simp add: ref_rug.invert_coprime)
next
  case (5 m x) then show ?case by (simp add: ref_rug.invert_not_coprime)
next
  case (6 x y) then show ?case by (simp add: ref_rug.int_gcd_eq)
next
  case (7 x) then show ?case by (simp add: ref_rug.sqrt_lower)
next
  case (8 x) then show ?case by (simp add: ref_rug.sqrt_upper)
next
  case (9 x) then show ?case by (simp add: ref_rug.to_digits_val)
next
  case (10 x len) then show ?case by (simp add: ref_rug.to_digits_len)
next
  case (11 ds) then show ?case by (simp add: ref_rug.from_digits_val)
next
  case (12 x) then show ?case by (simp add: ref_rug.to_u128_fits)
next
  case (13 x) then show ?case by (simp add: ref_rug.to_u128_large)
next
  case (14 m r) then show ?case using ref_rug.random_below_pos [of m r] by simp
next
  case (15 m r) then show ?case by (simp add: ref_rug.random_below_nonpos)
next
  case (16 ds) then show ?case by (simp add: ref_rug.blake3_length)
qed

interpretation blake3_header: header_hash "blake3_compute ref_pow_libs"
  by (rule blake3_compute_header_hash) (rule ref_pow.blake_spec_axioms)

end
