(* ===== verification/Constants.thy ===== *)
theory Constants
  imports Prelude
begin

text \<open>
  The constants of \<open>primitives/constants/src/lib.rs\<close>. A \<open>usize\<close> constant is a \<open>nat\<close>; the others
  keep their width.
\<close>

definition BLOCK_TIME_SEC :: nat where "BLOCK_TIME_SEC = 60"
definition BLOCK_TIME_MILLISEC :: nat where "BLOCK_TIME_MILLISEC = BLOCK_TIME_SEC * 1000"
definition SLOT_DURATION :: u64 where "SLOT_DURATION = of_nat BLOCK_TIME_MILLISEC"

definition HOUR_HEIGHT :: nat where "HOUR_HEIGHT = 3600 div BLOCK_TIME_SEC"
definition DAY_HEIGHT :: nat where "DAY_HEIGHT = 24 * HOUR_HEIGHT"
definition WEEK_HEIGHT :: nat where "WEEK_HEIGHT = 7 * DAY_HEIGHT"
definition YEAR_HEIGHT :: nat where "YEAR_HEIGHT = 52 * WEEK_HEIGHT"

definition DIFFICULTY_ADJUST_WINDOW :: nat where "DIFFICULTY_ADJUST_WINDOW = HOUR_HEIGHT"
definition CLAMP_FACTOR :: u128 where "CLAMP_FACTOR = 1"
definition DIFFICULTY_DAMP_FACTOR :: u128 where "DIFFICULTY_DAMP_FACTOR = 3"
definition MIN_DIFFICULTY :: u128 where "MIN_DIFFICULTY = 48"
definition INIT_DIFFICULTY :: u128 where "INIT_DIFFICULTY = 56"
definition MAX_DIFFICULTY :: u128 where "MAX_DIFFICULTY = 224"

definition DOLLARS :: u128 where "DOLLARS = 1000000000000"
definition REWARD_VALUE :: u128 where "REWARD_VALUE = 60"
definition CENTS :: u128 where "CENTS = DOLLARS div 100"
definition MILLICENTS :: u128 where "MILLICENTS = CENTS div 1000"
definition MICROCENTS :: u128 where "MICROCENTS = MILLICENTS div 1000"

definition deposit :: "u32 \<Rightarrow> u32 \<Rightarrow> u128" where
  "deposit items len = ucast items * 2 * DOLLARS + ucast len * 10 * MILLICENTS"

definition HOURS :: u32 where "HOURS = 60"
definition DAYS :: u32 where "DAYS = 24 * HOURS"
definition UPDATE_KEY_CHAIN_RANGE :: u32 where "UPDATE_KEY_CHAIN_RANGE = 3"
definition MINING_WORKER_TIMEOUT :: u64 where "MINING_WORKER_TIMEOUT = 10"
definition MINING_WORKER_BUILD_TIME :: u64 where "MINING_WORKER_BUILD_TIME = 10"

lemmas difficulty_consts = CLAMP_FACTOR_def MIN_DIFFICULTY_def INIT_DIFFICULTY_def MAX_DIFFICULTY_def

lemmas window_consts = DIFFICULTY_ADJUST_WINDOW_def HOUR_HEIGHT_def BLOCK_TIME_SEC_def

lemmas currency_consts = DOLLARS_def CENTS_def MILLICENTS_def MICROCENTS_def REWARD_VALUE_def

lemma window_60 [simp]: "DIFFICULTY_ADJUST_WINDOW = 60"
  by (simp add: window_consts)

lemma unat_difficulty_consts [simp]:
  "unat CLAMP_FACTOR = 1" "unat MIN_DIFFICULTY = 48" "unat INIT_DIFFICULTY = 56"
  "unat MAX_DIFFICULTY = 224"
  by (simp_all add: difficulty_consts)

end
