(* ===== verification/Walk.thy ===== *)
theory Walk
  imports Header Constants
begin

text \<open>
  The pseudo-random walk of \<open>consensus/trex-pow/src/algorithm.rs\<close>: the three mappings \<open>func_f\<close>,
  \<open>func_g\<close>, \<open>func_h\<close>, the step \<open>transit\<close>, the start state \<open>State::from_pub_key\<close> and
  \<open>Solution::new_random\<close> of \<open>lib.rs\<close>, and the distinguished-point factor \<open>hash_diff\<close>.

  The mappings return \<open>None\<close> on a panic (a division by zero, or \<open>pow_mod_ref\<close> without a result),
  and otherwise a \<open>MapResult\<close>.
\<close>

section \<open>The mappings\<close>

definition func_f :: "'z rug_scheme \<Rightarrow> rho_state \<Rightarrow> int \<Rightarrow> int \<Rightarrow> int map_result option" where
  "func_f R s x_i y_i = do {
     let base = key_g (st_pubkey s);
     let h = key_h (st_pubkey s);
     let p = key_p (st_pubkey s);
     let m = mod_u R x_i 3;
     (if m = 0 then do { v \<leftarrow> pow_mod R y_i x_i p; Some (Inr v) }
      else if m = 1 then do {
        base_hash_p \<leftarrow> pow_mod R base x_i p;
        v \<leftarrow> rem_euc R (base_hash_p * y_i) p;
        Some (Inr v) }
      else if m = 2 then do {
        h_hash_p \<leftarrow> pow_mod R h x_i p;
        v \<leftarrow> rem_euc R (h_hash_p * y_i) p;
        Some (Inr v) }
      else Some (Inl MappingError)) }"

definition func_g :: "'z rug_scheme \<Rightarrow> rho_state \<Rightarrow> int \<Rightarrow> int \<Rightarrow> int map_result option" where
  "func_g R s a_i x_i = do {
     let p_1 = key_p (st_pubkey s) - 1;
     let a_m_x = a_i * x_i;
     let a_p_x = a_i + x_i;
     let m = mod_u R x_i 3;
     (if m = 0 then do { v \<leftarrow> rem_euc R a_m_x p_1; Some (Inr v) }
      else if m = 1 then do { v \<leftarrow> rem_euc R a_p_x p_1; Some (Inr v) }
      else if m = 2 then Some (Inr a_i)
      else Some (Inl MappingError)) }"

definition func_h :: "'z rug_scheme \<Rightarrow> rho_state \<Rightarrow> int \<Rightarrow> int \<Rightarrow> int map_result option" where
  "func_h R s b_i x_i = do {
     let p_1 = key_p (st_pubkey s) - 1;
     let b_m_x = b_i * x_i;
     let b_p_x = b_i + x_i;
     let m = mod_u R x_i 3;
     (if m = 0 then do { v \<leftarrow> rem_euc R b_m_x p_1; Some (Inr v) }
      else if m = 1 then Some (Inr b_i)
      else if m = 2 then do { v \<leftarrow> rem_euc R b_p_x p_1; Some (Inr v) }
      else Some (Inl MappingError)) }"

text \<open>
  \<open>transit\<close> returns the header too, which it mutates before anything can fail; \<open>?\<close> returns the
  error early.
\<close>

definition transit ::
  "'z rug_scheme \<Rightarrow> 'c hash_trait \<Rightarrow> rho_state \<Rightarrow> 'c \<Rightarrow> (rho_state map_result \<times> 'c) option" where
  "transit R H s hashable = do {
     hashable' \<leftarrow> tr_set_nonce H (st_work s) hashable;
     let raw_int = tr_hash_integer H hashable';
     hash_i \<leftarrow> rem_euc R raw_int (key_p (st_pubkey s));
     rw \<leftarrow> func_f R s hash_i (st_work s);
     (case rw of Inl e \<Rightarrow> Some (Inl e, hashable') | Inr work \<Rightarrow> do {
     ra \<leftarrow> func_g R s (sol_a (st_solution s)) hash_i;
     (case ra of Inl e \<Rightarrow> Some (Inl e, hashable') | Inr a \<Rightarrow> do {
     rb \<leftarrow> func_h R s (sol_b (st_solution s)) hash_i;
     (case rb of Inl e \<Rightarrow> Some (Inl e, hashable') | Inr b \<Rightarrow>
       Some (Inr \<lparr>st_solution = \<lparr>sol_a = a, sol_b = b, sol_n = sol_n (st_solution s)\<rparr>,
                  st_nonce = st_work s, st_work = work, st_pubkey = st_pubkey s\<rparr>,
             hashable')) }) }) }"

text \<open>\<open>state.transit(compute).unwrap()\<close>\<close>

definition step :: "'z rug_scheme \<Rightarrow> 'c hash_trait \<Rightarrow> rho_state \<Rightarrow> 'c \<Rightarrow> (rho_state \<times> 'c) option" where
  "step R H s c = do { (r, c') \<leftarrow> transit R H s c; s' \<leftarrow> unwrap_map r; Some (s', c') }"

section \<open>The start of a walk\<close>

definition new_random :: "('r, 'z) rug_rand_scheme \<Rightarrow> int \<Rightarrow> int \<Rightarrow> int solution option" where
  "new_random R n seed = do {
     let rand = rand_seed R seed (rand_new R);
     (a, rand) \<leftarrow> gen_bigint_range R rand 0 n;
     (b, rand) \<leftarrow> gen_bigint_range R rand 0 n;
     Some \<lparr>sol_a = a, sol_b = b, sol_n = n\<rparr> }"

definition from_pub_key :: "('r, 'z) rug_rand_scheme \<Rightarrow> public_key \<Rightarrow> int \<Rightarrow> rho_state option" where
  "from_pub_key R key seed = do {
     let p_1 = key_p key - 1;
     let n = p_1 sdiv 2;
     solution \<leftarrow> new_random R n seed;
     g_a_p \<leftarrow> pow_mod R (key_g key) (sol_a solution) (key_p key);
     h_b_p \<leftarrow> pow_mod R (key_h key) (sol_b solution) (key_p key);
     y \<leftarrow> rem_euc R (g_a_p * h_b_p) (key_p key);
     Some \<lparr>st_solution = solution, st_nonce = 1, st_work = y, st_pubkey = key\<rparr> }"

section \<open>Distinguished points\<close>

definition POINT_DST_FACTOR :: u32 where "POINT_DST_FACTOR = 8"
definition SEARCH_LEN_FACTOR :: u32 where "SEARCH_LEN_FACTOR = 8"

text \<open>
  \<open>u32\<close> subtraction wraps, as in the release build the project's documentation runs; a shift by 256
  bits or more gives 0.
\<close>

definition hash_diff :: "public_key \<Rightarrow> u256" where
  "hash_diff key =
     (let shift = key_bits key div 2 - POINT_DST_FACTOR
      in if key_bits key mod 2 \<noteq> 0
         then push_bit (unat shift) 1 + push_bit (unat (shift - 1)) 1
         else push_bit (unat shift) 1)"

text \<open>\<open>let (_, overflowed) = state.hash_encode().overflowing_mul(hash_diff)\<close>\<close>

definition overflowed :: "('r, 'z) libs_scheme \<Rightarrow> rho_state \<Rightarrow> u256 \<Rightarrow> bool option" where
  "overflowed L s factor = do { e \<leftarrow> hash_encode L s; Some (snd (overflowing_mul e factor)) }"

section \<open>What a well-formed key and walk state are\<close>

text \<open>
  The group of the puzzle: exponents of \<open>g\<close> and \<open>h\<close> count modulo \<open>p - 1\<close>. This holds for every
  prime \<open>p\<close> that divides neither \<open>g\<close> nor \<open>h\<close> (Fermat).
\<close>

definition key_ok :: "public_key \<Rightarrow> bool" where
  "key_ok k \<longleftrightarrow> 2 < key_p k \<and> key_p k < 2 ^ 256 \<and> 0 \<le> key_g k \<and> 0 \<le> key_h k
     \<and> key_g k ^ nat (key_p k - 1) mod key_p k = 1
     \<and> key_h k ^ nat (key_p k - 1) mod key_p k = 1"

text \<open>The group element that a pair of exponents stands for.\<close>

definition element :: "public_key \<Rightarrow> int solution \<Rightarrow> int" where
  "element k s = key_g k ^ nat (sol_a s) * key_h k ^ nat (sol_b s) mod key_p k"

definition exponents_ok :: "public_key \<Rightarrow> int solution \<Rightarrow> bool" where
  "exponents_ok k s \<longleftrightarrow>
     0 \<le> sol_a s \<and> sol_a s < key_p k - 1 \<and> 0 \<le> sol_b s \<and> sol_b s < key_p k - 1"

definition walk_ok :: "public_key \<Rightarrow> rho_state \<Rightarrow> bool" where
  "walk_ok k s \<longleftrightarrow> st_pubkey s = k \<and> exponents_ok k (st_solution s)
     \<and> sol_n (st_solution s) = (key_p k - 1) div 2
     \<and> st_work s = element k (st_solution s)"

text \<open>
  The link between a state and the header the miner hashed to reach it, which the verifier
  re-checks: the header's nonce is the state's nonce, and the state's work is the mapping of both.
\<close>

definition linked ::
  "('r, 'z) libs_scheme \<Rightarrow> 'c hash_trait \<Rightarrow> 'c \<Rightarrow> rho_state \<Rightarrow> bool" where
  "linked L H c s \<longleftrightarrow> uint (tr_get_nonce H c) = st_nonce s
     \<and> func_f L s (tr_hash_integer H c mod key_p (st_pubkey s)) (st_nonce s) = Some (Inr (st_work s))"

section \<open>One step of the walk\<close>

text \<open>The mathematical content of the mappings, over a well-formed key.\<close>

definition next_work :: "public_key \<Rightarrow> int \<Rightarrow> int \<Rightarrow> int" where
  "next_work k x y =
     (if x mod 3 = 0 then y ^ nat x mod key_p k
      else if x mod 3 = 1 then key_g k ^ nat x mod key_p k * y mod key_p k
      else key_h k ^ nat x mod key_p k * y mod key_p k)"

definition next_a :: "public_key \<Rightarrow> int \<Rightarrow> int \<Rightarrow> int" where
  "next_a k x a =
     (if x mod 3 = 0 then a * x mod (key_p k - 1)
      else if x mod 3 = 1 then (a + x) mod (key_p k - 1) else a)"

definition next_b :: "public_key \<Rightarrow> int \<Rightarrow> int \<Rightarrow> int" where
  "next_b k x b =
     (if x mod 3 = 0 then b * x mod (key_p k - 1)
      else if x mod 3 = 1 then b else (b + x) mod (key_p k - 1))"

definition next_solution :: "public_key \<Rightarrow> int \<Rightarrow> int solution \<Rightarrow> int solution" where
  "next_solution k x s =
     \<lparr>sol_a = next_a k x (sol_a s), sol_b = next_b k x (sol_b s), sol_n = sol_n s\<rparr>"

lemma mod_3_cases: "(x :: int) mod 3 = 0 \<or> x mod 3 = 1 \<or> x mod 3 = 2"
  by presburger

lemma next_exponents_ok:
  assumes "key_ok k" and "exponents_ok k s"
  shows "exponents_ok k (next_solution k x s)"
  using assms by (auto simp: exponents_ok_def next_solution_def next_a_def next_b_def key_ok_def)

text \<open>
  The exponents follow the group element: multiplying both by \<open>x\<close> raises the element to the power
  \<open>x\<close>, adding \<open>x\<close> to one of them multiplies it by \<open>g ^ x\<close> or \<open>h ^ x\<close>.
\<close>

lemma element_scale:
  assumes "key_ok k" and "0 \<le> a" and "0 \<le> b" and "0 \<le> x"
  shows "key_g k ^ nat (a * x mod (key_p k - 1)) * key_h k ^ nat (b * x mod (key_p k - 1)) mod key_p k
       = (key_g k ^ nat a * key_h k ^ nat b mod key_p k) ^ nat x mod key_p k"
proof -
  have reduce: "v ^ nat (c * x mod (key_p k - 1)) mod key_p k = (v ^ nat c) ^ nat x mod key_p k"
    if "v ^ nat (key_p k - 1) mod key_p k = 1" and "0 \<le> c" for v c
  proof -
    from that assms have "v ^ nat (c * x mod (key_p k - 1)) mod key_p k = v ^ nat (c * x) mod key_p k"
      by (intro power_mod_exponent_int) (auto simp: key_ok_def)
    with that(2) show ?thesis
      by (simp add: nat_mult_distrib power_mult)
  qed
  have "key_g k ^ nat (a * x mod (key_p k - 1)) * key_h k ^ nat (b * x mod (key_p k - 1)) mod key_p k
      = (key_g k ^ nat a) ^ nat x * (key_h k ^ nat b) ^ nat x mod key_p k"
    using assms by (intro mult_mod_cong reduce) (auto simp: key_ok_def)
  then show ?thesis
    by (simp add: power_mod flip: power_mult_distrib)
qed

lemma power_shift:
  assumes "v ^ nat (p - 1) mod p = 1" and "2 < (p :: int)" and "0 \<le> c" and "0 \<le> x"
  shows "v ^ nat ((c + x) mod (p - 1)) mod p = v ^ nat x * v ^ nat c mod p"
  using assms power_mod_exponent_int [of v "p - 1" p "c + x"]
  by (simp add: nat_add_distrib power_add mult.commute)

lemma element_next:
  assumes k: "key_ok k" and s: "exponents_ok k s" and x: "0 \<le> x"
  shows "element k (next_solution k x s) = next_work k x (element k s)"
proof -
  let ?p = "key_p k"
  have g: "key_g k ^ nat (?p - 1) mod ?p = 1" and h: "key_h k ^ nat (?p - 1) mod ?p = 1" and p: "2 < ?p"
    using k by (auto simp: key_ok_def)
  have nonneg: "0 \<le> sol_a s" "0 \<le> sol_b s"
    using s by (auto simp: exponents_ok_def)
  consider "x mod 3 = 0" | "x mod 3 = 1" | "x mod 3 = 2"
    using mod_3_cases by blast
  then show ?thesis
  proof cases
    case 1
    then show ?thesis
      using element_scale [OF k nonneg x]
      by (simp add: element_def next_solution_def next_work_def next_a_def next_b_def)
  next
    case 2
    have "key_g k ^ nat ((sol_a s + x) mod (?p - 1)) * key_h k ^ nat (sol_b s) mod ?p
        = (key_g k ^ nat x * key_g k ^ nat (sol_a s)) * key_h k ^ nat (sol_b s) mod ?p"
      using power_shift [OF g p nonneg(1) x] by (intro mult_mod_cong) simp_all
    with 2 show ?thesis
      by (simp add: element_def next_solution_def next_work_def next_a_def next_b_def
          mod_mult_left_eq mod_mult_right_eq mult.assoc)
  next
    case 3
    have "key_g k ^ nat (sol_a s) * key_h k ^ nat ((sol_b s + x) mod (?p - 1)) mod ?p
        = key_g k ^ nat (sol_a s) * (key_h k ^ nat x * key_h k ^ nat (sol_b s)) mod ?p"
      using power_shift [OF h p nonneg(2) x] by (intro mult_mod_cong) simp_all
    also have "\<dots> = key_h k ^ nat x mod ?p * element k s mod ?p"
      by (simp add: element_def mod_mult_eq mult.left_commute [of "key_h k ^ nat x"])
    finally show ?thesis
      using 3 by (simp add: next_solution_def next_work_def next_a_def next_b_def element_def)
  qed
qed

end
