(* ===== verification/Walk_Props.thy ===== *)
theory Walk_Props
  imports Walk
begin

text \<open>
  The client side of the walk: what \<open>transit\<close> and \<open>from_pub_key\<close> guarantee over any library and any
  header that satisfy their contracts (locale \<open>rho_walk\<close>, which joins \<open>blake_spec\<close> and
  \<open>header_hash\<close>). The locale is interpreted on the node's header type at the end.
\<close>

text \<open>The next group element of the walk, as a function of the current one.\<close>

definition walk_hash :: "'c hash_trait \<Rightarrow> public_key \<Rightarrow> 'c \<Rightarrow> int \<Rightarrow> int" where
  "walk_hash H k c w = tr_hash_integer H (the (tr_set_nonce H w c)) mod key_p k"

definition walk_fun :: "'c hash_trait \<Rightarrow> public_key \<Rightarrow> 'c \<Rightarrow> int \<Rightarrow> int" where
  "walk_fun H k c w = next_work k (walk_hash H k c w) w"

definition next_state :: "'c hash_trait \<Rightarrow> 'c \<Rightarrow> rho_state \<Rightarrow> rho_state" where
  "next_state H c s =
     (let k = st_pubkey s; x = walk_hash H k c (st_work s)
      in \<lparr>st_solution = next_solution k x (st_solution s), st_nonce = st_work s,
          st_work = next_work k x (st_work s), st_pubkey = k\<rparr>)"

lemma next_state_fields [simp]:
  "st_nonce (next_state H c s) = st_work s"
  "st_pubkey (next_state H c s) = st_pubkey s"
  "st_work (next_state H c s) = walk_fun H (st_pubkey s) c (st_work s)"
  "st_solution (next_state H c s)
     = next_solution (st_pubkey s) (walk_hash H (st_pubkey s) c (st_work s)) (st_solution s)"
  by (simp_all add: next_state_def Let_def walk_fun_def)

lemma walk_ok_work_bounds:
  assumes "key_ok k" and "walk_ok k s"
  shows "0 \<le> st_work s" "st_work s < key_p k" "st_work s < 2 ^ 256"
proof -
  have p: "2 < key_p k" "key_p k < 2 ^ 256" and w: "st_work s = element k (st_solution s)"
    using assms by (auto simp: walk_ok_def key_ok_def)
  then show "0 \<le> st_work s" and "st_work s < key_p k"
    by (simp_all add: element_def)
  then show "st_work s < 2 ^ 256"
    using p by linarith
qed

lemma walk_hash_same_header: "same_header H c d \<Longrightarrow> walk_hash H k c w = walk_hash H k d w"
  by (simp add: walk_hash_def same_header_def)

lemma walk_fun_same_header: "same_header H c d \<Longrightarrow> walk_fun H k c w = walk_fun H k d w"
  by (simp add: walk_fun_def walk_hash_same_header)

lemma next_state_same_header: "same_header H c d \<Longrightarrow> next_state H c s = next_state H d s"
  by (simp add: next_state_def walk_hash_same_header)

context rug_spec
begin

text \<open>The three mappings never return \<open>MappingError\<close>: \<open>mod_u(3)\<close> is 0, 1 or 2.\<close>

lemma func_f_no_error: "func_f R s x y \<noteq> Some (Inl e)"
  using mod_u_3_cases [of x] by (auto simp: func_f_def Let_def bind_eq_Some_conv)

lemma func_g_no_error: "func_g R s a x \<noteq> Some (Inl e)"
  using mod_u_3_cases [of x] by (auto simp: func_g_def Let_def bind_eq_Some_conv)

lemma func_h_no_error: "func_h R s b x \<noteq> Some (Inl e)"
  using mod_u_3_cases [of x] by (auto simp: func_h_def Let_def bind_eq_Some_conv)

lemma transit_no_error: "transit R H s c \<noteq> Some (Inl e, c')"
  using func_f_no_error func_g_no_error func_h_no_error
  by (auto simp: transit_def Let_def bind_eq_Some_conv split: sum.splits)

lemma func_f_eq:
  assumes "key_ok (st_pubkey s)" and "0 \<le> x"
  shows "func_f R s x y = Some (Inr (next_work (st_pubkey s) x y))"
  using assms mod_3_cases [of x]
  by (auto simp: func_f_def next_work_def mod_u_3 key_ok_def pow_mod_pos rem_euc_pos Let_def)

lemma func_g_eq:
  assumes "key_ok (st_pubkey s)"
  shows "func_g R s a x = Some (Inr (next_a (st_pubkey s) x a))"
  using assms mod_3_cases [of x]
  by (auto simp: func_g_def next_a_def mod_u_3 key_ok_def rem_euc_pos Let_def)

lemma func_h_eq:
  assumes "key_ok (st_pubkey s)"
  shows "func_h R s b x = Some (Inr (next_b (st_pubkey s) x b))"
  using assms mod_3_cases [of x]
  by (auto simp: func_h_def next_b_def mod_u_3 key_ok_def rem_euc_pos Let_def)

end

locale rho_walk = blake_spec L + header_hash H
  for L :: "('r, 'z) libs_scheme" and H :: "'c hash_trait"
begin

lemma set_nonce_work:
  assumes "key_ok k" and "walk_ok k s"
  shows "\<exists>c'. tr_set_nonce H (st_work s) c = Some c'"
  using set_nonce_ok walk_ok_work_bounds [OF assms] by blast

lemma walk_hash_nonneg: "key_ok k \<Longrightarrow> 0 \<le> walk_hash H k c w"
  by (simp add: walk_hash_def key_ok_def)

text \<open>A step from a well-formed state returns, and returns \<open>next_state\<close>.\<close>

lemma step_eq:
  assumes k: "key_ok k" and s: "walk_ok k s" and c': "tr_set_nonce H (st_work s) c = Some c'"
  shows "step L H s c = Some (next_state H c s, c')"
proof -
  have pk: "st_pubkey s = k" and p: "0 < key_p k"
    using s k by (auto simp: walk_ok_def key_ok_def)
  have x: "tr_hash_integer H c' mod key_p k = walk_hash H k c (st_work s)"
    by (simp add: walk_hash_def c')
  show ?thesis
    using k pk p x walk_hash_nonneg [OF k]
    by (simp add: step_def transit_def c' rem_euc_pos func_f_eq func_g_eq func_h_eq next_state_def
        next_solution_def Let_def)
qed

lemma next_state_ok:
  assumes "key_ok k" and "walk_ok k s"
  shows "walk_ok k (next_state H c s)"
proof -
  have pk: "st_pubkey s = k"
    using assms by (simp add: walk_ok_def)
  then have "element k (st_solution (next_state H c s)) = st_work (next_state H c s)"
    using assms walk_hash_nonneg by (simp add: walk_ok_def element_next walk_fun_def)
  then show ?thesis
    using assms pk next_exponents_ok by (simp add: walk_ok_def) (simp add: next_solution_def)
qed

lemma next_state_linked:
  assumes k: "key_ok k" and s: "walk_ok k s" and c': "tr_set_nonce H (st_work s) c = Some c'"
  shows "linked L H c' (next_state H c s)"
proof -
  have pk: "st_pubkey s = k"
    using s by (simp add: walk_ok_def)
  have x: "tr_hash_integer H c' mod key_p k = walk_hash H k c (st_work s)"
    by (simp add: walk_hash_def c')
  show ?thesis
    using k pk x get_set_nonce [OF _ _ c'] walk_ok_work_bounds [OF k s] walk_hash_nonneg [OF k]
    by (simp add: linked_def func_f_eq walk_fun_def)
qed

lemma step_total:
  assumes "key_ok k" and "walk_ok k s"
  obtains c' where "step L H s c = Some (next_state H c s, c')" "same_header H c' c"
    "linked L H c' (next_state H c s)" "walk_ok k (next_state H c s)"
  using assms set_nonce_work step_eq same_header_set next_state_linked next_state_ok by metis

lemma step_SomeD:
  assumes "key_ok k" and "walk_ok k s" and "step L H s c = Some (s', c')"
  shows "s' = next_state H c s \<and> walk_ok k s' \<and> linked L H c' s' \<and> same_header H c' c"
  using assms by (metis step_total option.inject prod.inject)

section \<open>The start state\<close>

lemma gen_bigint_range_pos:
  assumes "0 < m"
  shows "\<exists>x r'. gen_bigint_range L r 0 m = Some (x, r') \<and> 0 \<le> x \<and> x < m"
  using random_below_pos [OF assms, of r] by (auto simp: gen_bigint_range_def)

lemma new_random_pos:
  assumes "0 < n"
  shows "\<exists>s. new_random L n seed = Some s \<and> sol_n s = n
    \<and> 0 \<le> sol_a s \<and> sol_a s < n \<and> 0 \<le> sol_b s \<and> sol_b s < n"
proof -
  obtain a r1 where a: "gen_bigint_range L (rand_seed L seed (rand_new L)) 0 n = Some (a, r1)"
      "0 \<le> a" "a < n"
    using gen_bigint_range_pos [OF assms] by blast
  obtain b r2 where b: "gen_bigint_range L r1 0 n = Some (b, r2)" "0 \<le> b" "b < n"
    using gen_bigint_range_pos [OF assms] by blast
  from a b show ?thesis
    by (simp add: new_random_def)
qed

lemma half_order: "2 < p \<Longrightarrow> (p - 1) sdiv 2 = (p - 1) div (2 :: int)"
  by (simp add: signed_divide_int_def)

lemma from_pub_key_ok:
  assumes k: "key_ok k"
  shows "\<exists>s. from_pub_key L k seed = Some s \<and> walk_ok k s \<and> st_nonce s = 1"
proof -
  let ?n = "(key_p k - 1) div 2"
  have p: "2 < key_p k" and n: "0 < ?n"
    using k by (auto simp: key_ok_def)
  obtain sol where sol: "new_random L ?n seed = Some sol" "sol_n sol = ?n"
      "0 \<le> sol_a sol" "sol_a sol < ?n" "0 \<le> sol_b sol" "sol_b sol < ?n"
    using new_random_pos [OF n] by blast
  have "exponents_ok k sol"
    using sol p by (auto simp: exponents_ok_def)
  then show ?thesis
    using sol p by (simp add: from_pub_key_def half_order pow_mod_pos rem_euc_pos walk_ok_def
        element_def mod_mult_eq)
qed

text \<open>A key with \<open>p \<le> 2\<close> has no exponents to draw: the start state panics.\<close>

lemma from_pub_key_small:
  assumes "key_p k \<le> 2"
  shows "from_pub_key L k seed = None"
proof -
  have "(key_p k - 1) sdiv 2 \<le> 0"
    using assms by (auto simp: signed_divide_int_def sgn_if)
  then show ?thesis
    by (simp add: from_pub_key_def new_random_def gen_bigint_range_def random_below_nonpos)
qed

end

interpretation ref_walk: rho_walk ref_pow_libs "blake3_compute ref_pow_libs"
  by unfold_locales

end
