(* ===== verification/Solver.thy ===== *)
theory Solver
  imports Walk_Props
begin

text \<open>
  The single-threaded solvers of \<open>consensus/trex-pow/src/algorithm.rs\<close>, \<open>solve\<close> and \<open>solve_dist\<close>:
  Floyd's cycle finding (phase one, \<open>find_collision\<close>), then the walk to the next distinguished point
  with both states in step (phase two, \<open>find_point\<close>).

  Each loop \<open>while i < n\<close> counts from 0, so it is a recursion on the number \<open>n - i\<close> of iterations
  left. The header \<open>compute\<close> is a mutable reference in the source and is returned in every case.
\<close>

datatype 'c search = Drop 'c | Proceed rho_state rho_state 'c 'c

definition search_len :: "'z rug_scheme \<Rightarrow> public_key \<Rightarrow> nat" where
  "search_len R k = nat (sqrt_int R (key_p k) * uint SEARCH_LEN_FACTOR)"

section \<open>\<open>solve\<close>\<close>

fun find_collision ::
  "('r, 'z) libs_scheme \<Rightarrow> 'c hash_trait \<Rightarrow> nat \<Rightarrow> rho_state \<Rightarrow> rho_state \<Rightarrow> 'c \<Rightarrow> 'c \<Rightarrow> 'c search option"
where
  "find_collision L H 0 s1 s2 c1 c2 = Some (Proceed s1 s2 c1 c2)"
| "find_collision L H (Suc m) s1 s2 c1 c2 = do {
     (s1, c1) \<leftarrow> step L H s1 c1;
     (s2, c2) \<leftarrow> step L H s2 c2;
     (s2, c2) \<leftarrow> step L H s2 c2;
     if st_work s1 = st_work s2 then
       (if st_solution s1 \<noteq> st_solution s2 then Some (Proceed s1 s2 c1 c2) else Some (Drop c1))
     else find_collision L H m s1 s2 c1 c2 }"

fun find_point ::
  "('r, 'z) libs_scheme \<Rightarrow> 'c hash_trait \<Rightarrow> u256 \<Rightarrow> nat \<Rightarrow> rho_state \<Rightarrow> rho_state \<Rightarrow> 'c \<Rightarrow> 'c \<Rightarrow>
     (int solutions option \<times> 'c) option"
where
  "find_point L H diff 0 s1 s2 c1 c2 = Some (None, c1)"
| "find_point L H diff (Suc m) s1 s2 c1 c2 = do {
     (s1, c1) \<leftarrow> step L H s1 c1;
     (s2, c2) \<leftarrow> step L H s2 c2;
     overflowed_1 \<leftarrow> overflowed L s1 diff;
     if \<not> overflowed_1 then
       (if st_work s1 = st_work s2 \<and> st_solution s1 \<noteq> st_solution s2
        then Some (Some (st_solution s1, st_solution s2), c1) else Some (None, c1))
     else find_point L H diff m s1 s2 c1 c2 }"

definition solve ::
  "('r, 'z) libs_scheme \<Rightarrow> 'c hash_trait \<Rightarrow> public_key \<Rightarrow> 'c \<Rightarrow> int \<Rightarrow>
     (int solutions option \<times> 'c) option"
where
  "solve L H key compute seed = do {
     s \<leftarrow> from_pub_key L key seed;
     let n = search_len L key;
     r \<leftarrow> find_collision L H n s s compute compute;
     (case r of
       Drop c1 \<Rightarrow> Some (None, c1)
     | Proceed s1 s2 c1 c2 \<Rightarrow> find_point L H (hash_diff key) n s1 s2 c1 c2) }"

section \<open>\<open>solve_dist\<close>\<close>

text \<open>
  The flag \<open>found\<close> is shared with the other workers, which may set it at any time: \<open>obs i\<close> is the
  value the \<open>i\<close>-th load of this solver returns. The result carries whether the solver stored \<open>true\<close>.
\<close>

datatype 'c dist_search = Dist_Drop 'c | Dist_Proceed rho_state rho_state 'c 'c nat

fun find_collision_dist ::
  "('r, 'z) libs_scheme \<Rightarrow> 'c hash_trait \<Rightarrow> u32 \<Rightarrow> (nat \<Rightarrow> bool) \<Rightarrow> nat \<Rightarrow> rho_state \<Rightarrow> rho_state \<Rightarrow>
     'c \<Rightarrow> 'c \<Rightarrow> u32 \<Rightarrow> nat \<Rightarrow> 'c dist_search option"
where
  "find_collision_dist L H grain obs 0 s1 s2 c1 c2 counter loads =
     Some (Dist_Proceed s1 s2 c1 c2 loads)"
| "find_collision_dist L H grain obs (Suc m) s1 s2 c1 c2 counter loads = do {
     (s1, c1) \<leftarrow> step L H s1 c1;
     (s2, c2) \<leftarrow> step L H s2 c2;
     (s2, c2) \<leftarrow> step L H s2 c2;
     if grain \<le> counter \<and> obs loads then Some (Dist_Drop c1)
     else (let (counter, loads) = (if grain \<le> counter then (0, Suc loads) else (counter, loads)) in
     if st_work s1 = st_work s2 then
       (if st_solution s1 \<noteq> st_solution s2 then Some (Dist_Proceed s1 s2 c1 c2 loads)
        else Some (Dist_Drop c1))
     else find_collision_dist L H grain obs m s1 s2 c1 c2 (counter + 1) loads) }"

fun find_point_dist ::
  "('r, 'z) libs_scheme \<Rightarrow> 'c hash_trait \<Rightarrow> u256 \<Rightarrow> u32 \<Rightarrow> (nat \<Rightarrow> bool) \<Rightarrow> nat \<Rightarrow> rho_state \<Rightarrow> rho_state \<Rightarrow>
     'c \<Rightarrow> 'c \<Rightarrow> u32 \<Rightarrow> nat \<Rightarrow> (int solutions option \<times> 'c \<times> bool) option"
where
  "find_point_dist L H diff grain obs 0 s1 s2 c1 c2 counter loads = Some (None, c1, False)"
| "find_point_dist L H diff grain obs (Suc m) s1 s2 c1 c2 counter loads = do {
     (s1, c1) \<leftarrow> step L H s1 c1;
     (s2, c2) \<leftarrow> step L H s2 c2;
     overflowed_1 \<leftarrow> overflowed L s1 diff;
     if grain \<le> counter \<and> obs loads then Some (None, c1, False)
     else (let (counter, loads) = (if grain \<le> counter then (0, Suc loads) else (counter, loads)) in
     if \<not> overflowed_1 then
       (if obs loads then Some (None, c1, False)
        else if st_work s1 = st_work s2 \<and> st_solution s1 \<noteq> st_solution s2
        then Some (Some (st_solution s1, st_solution s2), c1, True)
        else Some (None, c1, False))
     else find_point_dist L H diff grain obs m s1 s2 c1 c2 (counter + 1) loads) }"

definition solve_dist ::
  "('r, 'z) libs_scheme \<Rightarrow> 'c hash_trait \<Rightarrow> public_key \<Rightarrow> 'c \<Rightarrow> int \<Rightarrow> u32 \<Rightarrow> (nat \<Rightarrow> bool) \<Rightarrow>
     (int solutions option \<times> 'c \<times> bool) option"
where
  "solve_dist L H key compute seed grain obs = do {
     s \<leftarrow> from_pub_key L key seed;
     let n = search_len L key;
     r \<leftarrow> find_collision_dist L H grain obs n s s compute compute 0 0;
     (case r of
       Dist_Drop c1 \<Rightarrow> Some (None, c1, False)
     | Dist_Proceed s1 s2 c1 c2 loads \<Rightarrow>
         find_point_dist L H (hash_diff key) grain obs n s1 s2 c1 c2 0 loads) }"

section \<open>What a solver's result is\<close>

text \<open>
  The contract between a solver and the verifier: the first solution is that of a well-formed state
  linked to the returned header, at a distinguished point, and the second is another pair of
  exponents of the same group element.
\<close>

definition mined ::
  "('r, 'z) libs_scheme \<Rightarrow> 'c hash_trait \<Rightarrow> public_key \<Rightarrow> 'c \<Rightarrow> int solutions \<Rightarrow> bool" where
  "mined L H k c sols \<longleftrightarrow> (\<exists>s. walk_ok k s \<and> linked L H c s \<and> st_solution s = fst sols
     \<and> overflowed L s (hash_diff k) = Some False
     \<and> fst sols \<noteq> snd sols \<and> exponents_ok k (snd sols)
     \<and> sol_n (snd sols) = (key_p k - 1) div 2
     \<and> element k (snd sols) = element k (fst sols))"

context rho_walk
begin

lemma overflowed_total: "\<exists>b. overflowed L s diff = Some b"
  using hash_encode_total [of s] by (auto simp: overflowed_def)

lemma find_collision_ok:
  assumes "key_ok k" and "walk_ok k s1" and "walk_ok k s2" and "same_header H c1 c" and "same_header H c2 c"
  shows "\<exists>r. find_collision L H m s1 s2 c1 c2 = Some r \<and>
    (case r of Drop d \<Rightarrow> same_header H d c
     | Proceed t1 t2 d1 d2 \<Rightarrow> walk_ok k t1 \<and> walk_ok k t2 \<and> same_header H d1 c \<and> same_header H d2 c)"
  using assms(2-)
proof (induction m arbitrary: s1 s2 c1 c2)
  case 0
  then show ?case by simp
next
  case (Suc m)
  obtain d1 where d1: "step L H s1 c1 = Some (next_state H c1 s1, d1)" "same_header H d1 c1"
      "walk_ok k (next_state H c1 s1)"
    using step_total [OF assms(1) Suc.prems(1)] by metis
  obtain d2 where d2: "step L H s2 c2 = Some (next_state H c2 s2, d2)" "same_header H d2 c2"
      "walk_ok k (next_state H c2 s2)"
    using step_total [OF assms(1) Suc.prems(2)] by metis
  obtain d3 where d3: "step L H (next_state H c2 s2) d2 = Some (next_state H d2 (next_state H c2 s2), d3)"
      "same_header H d3 d2" "walk_ok k (next_state H d2 (next_state H c2 s2))"
    using step_total [OF assms(1) d2(3)] by metis
  have "same_header H d1 c" "same_header H d3 c"
    using d1(2) d2(2) d3(2) Suc.prems(3,4) by (blast intro: same_header_trans)+
  then show ?case
    using Suc.IH [OF d1(3) d3(3)] d1 d2 d3 by simp
qed

lemma find_point_ok:
  assumes "key_ok k" and "walk_ok k s1" and "walk_ok k s2"
  shows "\<exists>r c'. find_point L H (hash_diff k) m s1 s2 c1 c2 = Some (r, c') \<and>
    same_header H c' c1 \<and> (\<forall>sols. r = Some sols \<longrightarrow> mined L H k c' sols)"
  using assms(2-)
proof (induction m arbitrary: s1 s2 c1 c2)
  case 0
  then show ?case by simp
next
  case (Suc m)
  let ?t1 = "next_state H c1 s1" and ?t2 = "next_state H c2 s2"
  obtain d1 where d1: "step L H s1 c1 = Some (?t1, d1)" "same_header H d1 c1" "linked L H d1 ?t1"
      "walk_ok k ?t1"
    using step_total [OF assms(1) Suc.prems(1)] by metis
  obtain d2 where d2: "step L H s2 c2 = Some (?t2, d2)" "walk_ok k ?t2"
    using step_total [OF assms(1) Suc.prems(2)] by metis
  obtain ov where ov: "overflowed L ?t1 (hash_diff k) = Some ov"
    using overflowed_total by blast
  show ?case
  proof (cases ov)
    case True
    then show ?thesis
      using Suc.IH [OF d1(4) d2(2), of d1 d2] d1 d2 ov by (auto intro: same_header_trans)
  next
    case False
    have "mined L H k d1 (st_solution ?t1, st_solution ?t2)"
      if "st_work ?t1 = st_work ?t2" and "st_solution ?t1 \<noteq> st_solution ?t2"
      unfolding mined_def using that d1(3,4) d2(2) ov False
      by (intro exI [of _ ?t1]) (auto simp: walk_ok_def)
    with False show ?thesis
      using d1 d2 ov by auto
  qed
qed

lemma solve_ok:
  assumes "key_ok k"
  shows "\<exists>r c'. solve L H k c seed = Some (r, c') \<and> same_header H c' c
    \<and> (\<forall>sols. r = Some sols \<longrightarrow> mined L H k c' sols)"
proof -
  obtain s where s: "from_pub_key L k seed = Some s" "walk_ok k s"
    using from_pub_key_ok [OF assms] by blast
  obtain r where r: "find_collision L H (search_len L k) s s c c = Some r"
    "case r of Drop d \<Rightarrow> same_header H d c
     | Proceed t1 t2 d1 d2 \<Rightarrow> walk_ok k t1 \<and> walk_ok k t2 \<and> same_header H d1 c \<and> same_header H d2 c"
    using find_collision_ok [OF assms s(2) s(2) same_header_refl same_header_refl] by blast
  show ?thesis
  proof (cases r)
    case (Drop d)
    with s r show ?thesis by (simp add: solve_def)
  next
    case (Proceed t1 t2 d1 d2)
    with r have "walk_ok k t1" "walk_ok k t2" "same_header H d1 c"
      by auto
    then show ?thesis
      using find_point_ok [OF assms, of t1 t2 "search_len L k" d1 d2] s r Proceed
      by (auto simp: solve_def intro: same_header_trans)
  qed
qed

section \<open>The distributed solver\<close>

lemma find_collision_dist_ok:
  assumes "key_ok k" and "walk_ok k s1" and "walk_ok k s2" and "same_header H c1 c" and "same_header H c2 c"
  shows "\<exists>r. find_collision_dist L H grain obs m s1 s2 c1 c2 counter loads = Some r \<and>
    (case r of Dist_Drop d \<Rightarrow> same_header H d c
     | Dist_Proceed t1 t2 d1 d2 _ \<Rightarrow>
         walk_ok k t1 \<and> walk_ok k t2 \<and> same_header H d1 c \<and> same_header H d2 c)"
  using assms(2-)
proof (induction m arbitrary: s1 s2 c1 c2 counter loads)
  case 0
  then show ?case by simp
next
  case (Suc m)
  obtain d1 where d1: "step L H s1 c1 = Some (next_state H c1 s1, d1)" "same_header H d1 c1"
      "walk_ok k (next_state H c1 s1)"
    using step_total [OF assms(1) Suc.prems(1)] by metis
  obtain d2 where d2: "step L H s2 c2 = Some (next_state H c2 s2, d2)" "same_header H d2 c2"
      "walk_ok k (next_state H c2 s2)"
    using step_total [OF assms(1) Suc.prems(2)] by metis
  obtain d3 where d3: "step L H (next_state H c2 s2) d2 = Some (next_state H d2 (next_state H c2 s2), d3)"
      "same_header H d3 d2" "walk_ok k (next_state H d2 (next_state H c2 s2))"
    using step_total [OF assms(1) d2(3)] by metis
  have "same_header H d1 c" "same_header H d3 c"
    using d1(2) d2(2) d3(2) Suc.prems(3,4) by (blast intro: same_header_trans)+
  then show ?case
    using Suc.IH [OF d1(3) d3(3)] d1 d2 d3 by (simp add: Let_def)
qed

lemma find_point_dist_ok:
  assumes "key_ok k" and "walk_ok k s1" and "walk_ok k s2"
  shows "\<exists>r c' stored. find_point_dist L H (hash_diff k) grain obs m s1 s2 c1 c2 counter loads
      = Some (r, c', stored) \<and> same_header H c' c1 \<and> (stored \<longleftrightarrow> r \<noteq> None)
      \<and> (\<forall>sols. r = Some sols \<longrightarrow> mined L H k c' sols \<and> (\<exists>i. \<not> obs i))"
  using assms(2-)
proof (induction m arbitrary: s1 s2 c1 c2 counter loads)
  case 0
  then show ?case by simp
next
  case (Suc m)
  let ?t1 = "next_state H c1 s1" and ?t2 = "next_state H c2 s2"
  obtain d1 where d1: "step L H s1 c1 = Some (?t1, d1)" "same_header H d1 c1" "linked L H d1 ?t1"
      "walk_ok k ?t1"
    using step_total [OF assms(1) Suc.prems(1)] by metis
  obtain d2 where d2: "step L H s2 c2 = Some (?t2, d2)" "walk_ok k ?t2"
    using step_total [OF assms(1) Suc.prems(2)] by metis
  obtain ov where ov: "overflowed L ?t1 (hash_diff k) = Some ov"
    using overflowed_total by blast
  have found: "mined L H k d1 (st_solution ?t1, st_solution ?t2)"
    if "st_work ?t1 = st_work ?t2" and "st_solution ?t1 \<noteq> st_solution ?t2" and "\<not> ov"
    unfolding mined_def using that d1(3,4) d2(2) ov
    by (intro exI [of _ ?t1]) (auto simp: walk_ok_def)
  have rest: "\<exists>r c' stored. find_point_dist L H (hash_diff k) grain obs m ?t1 ?t2 d1 d2 cnt lds
      = Some (r, c', stored) \<and> same_header H c' c1 \<and> (stored \<longleftrightarrow> r \<noteq> None)
      \<and> (\<forall>sols. r = Some sols \<longrightarrow> mined L H k c' sols \<and> (\<exists>i. \<not> obs i))" for cnt lds
    using Suc.IH [OF d1(4) d2(2), of d1 d2 cnt lds] d1(2) by (blast intro: same_header_trans)
  show ?case
    using d1(1,2) d2(1) ov found rest by (auto simp: Let_def)
qed

lemma solve_dist_ok:
  assumes "key_ok k"
  shows "\<exists>r c' stored. solve_dist L H k c seed grain obs = Some (r, c', stored)
    \<and> same_header H c' c \<and> (stored \<longleftrightarrow> r \<noteq> None)
    \<and> (\<forall>sols. r = Some sols \<longrightarrow> mined L H k c' sols \<and> (\<exists>i. \<not> obs i))"
proof -
  obtain s where s: "from_pub_key L k seed = Some s" "walk_ok k s"
    using from_pub_key_ok [OF assms] by blast
  obtain r where r: "find_collision_dist L H grain obs (search_len L k) s s c c 0 0 = Some r"
    "case r of Dist_Drop d \<Rightarrow> same_header H d c
     | Dist_Proceed t1 t2 d1 d2 _ \<Rightarrow>
         walk_ok k t1 \<and> walk_ok k t2 \<and> same_header H d1 c \<and> same_header H d2 c"
    using find_collision_dist_ok [OF assms s(2) s(2) same_header_refl same_header_refl] by blast
  show ?thesis
  proof (cases r)
    case (Dist_Drop d)
    with s r show ?thesis by (simp add: solve_dist_def)
  next
    case (Dist_Proceed t1 t2 d1 d2 lds)
    with r have "walk_ok k t1" "walk_ok k t2" "same_header H d1 c"
      by auto
    then show ?thesis
      using find_point_dist_ok [OF assms, of t1 t2 grain obs "search_len L k" d1 d2 0 lds] s r Dist_Proceed
      by (auto simp: solve_dist_def intro: same_header_trans)
  qed
qed

end

section \<open>Without other workers the two solvers agree\<close>

fun forget_loads :: "'c dist_search \<Rightarrow> 'c search" where
  "forget_loads (Dist_Drop c) = Drop c"
| "forget_loads (Dist_Proceed s1 s2 c1 c2 loads) = Proceed s1 s2 c1 c2"

lemma find_collision_dist_silent:
  "map_option forget_loads
     (find_collision_dist L H grain (\<lambda>i. False) m s1 s2 c1 c2 counter loads)
   = find_collision L H m s1 s2 c1 c2"
  by (induction m arbitrary: s1 s2 c1 c2 counter loads)
    (auto simp: Let_def split: Option.bind_splits)

lemma find_point_dist_silent:
  "map_option (\<lambda>(r, c, stored). (r, c))
     (find_point_dist L H diff grain (\<lambda>i. False) m s1 s2 c1 c2 counter loads)
   = find_point L H diff m s1 s2 c1 c2"
  by (induction m arbitrary: s1 s2 c1 c2 counter loads)
    (auto simp: Let_def split: Option.bind_splits)

lemma solve_dist_silent:
  "map_option (\<lambda>(r, c, stored). (r, c)) (solve_dist L H k c seed grain (\<lambda>i. False)) = solve L H k c seed"
proof (cases "from_pub_key L k seed")
  case None
  then show ?thesis by (simp add: solve_dist_def solve_def)
next
  case (Some s)
  show ?thesis
    using find_collision_dist_silent [of L H grain "search_len L k" s s c c 0 0, symmetric] Some
    by (cases "find_collision_dist L H grain (\<lambda>i. False) (search_len L k) s s c c 0 0")
      (auto simp: solve_dist_def solve_def find_point_dist_silent Let_def split: dist_search.splits)
qed

text \<open>Whatever \<open>solve_dist\<close> reads, it can only give up: a pair it returns is the one \<open>solve\<close> returns.\<close>

lemma find_collision_dist_proceeds:
  "find_collision_dist L H grain obs m s1 s2 c1 c2 counter loads = Some (Dist_Proceed t1 t2 d1 d2 loads') \<Longrightarrow>
   find_collision L H m s1 s2 c1 c2 = Some (Proceed t1 t2 d1 d2)"
  by (induction m arbitrary: s1 s2 c1 c2 counter loads)
    (auto simp: Let_def split: Option.bind_splits if_splits)

lemma find_point_dist_pair:
  "find_point_dist L H diff grain obs m s1 s2 c1 c2 counter loads = Some (Some sols, c, stored) \<Longrightarrow>
   find_point L H diff m s1 s2 c1 c2 = Some (Some sols, c)"
  by (induction m arbitrary: s1 s2 c1 c2 counter loads)
    (auto simp: Let_def split: Option.bind_splits if_splits)

lemma solve_dist_pair:
  assumes "solve_dist L H k c seed grain obs = Some (Some sols, c', stored)"
  shows "solve L H k c seed = Some (Some sols, c')"
proof -
  obtain s r where s: "from_pub_key L k seed = Some s"
      and r: "find_collision_dist L H grain obs (search_len L k) s s c c 0 0 = Some r"
      and point: "(case r of Dist_Drop c1 \<Rightarrow> Some (None, c1, False)
        | Dist_Proceed s1 s2 c1 c2 loads \<Rightarrow>
            find_point_dist L H (hash_diff k) grain obs (search_len L k) s1 s2 c1 c2 0 loads) = Some (Some sols, c', stored)"
    using assms by (auto simp: solve_dist_def bind_eq_Some_conv Let_def)
  then obtain t1 t2 d1 d2 loads where "r = Dist_Proceed t1 t2 d1 d2 loads"
    by (cases r) simp_all
  then show ?thesis
    using s find_collision_dist_proceeds [OF r [unfolded \<open>r = _\<close>]] find_point_dist_pair point by (simp add: solve_def)
qed

section \<open>Phase one is Floyd's algorithm\<close>

text \<open>
  The abstract algorithm works on the sequence of group elements only: the least index \<open>j\<close> above \<open>i\<close>
  and at most \<open>i + m\<close> at which the sequence meets its own double.
\<close>

fun meet :: "(nat \<Rightarrow> int) \<Rightarrow> nat \<Rightarrow> nat \<Rightarrow> nat option" where
  "meet w i 0 = None"
| "meet w i (Suc m) = (if w (Suc i) = w (2 * Suc i) then Some (Suc i) else meet w (Suc i) m)"

definition walk_state :: "'c hash_trait \<Rightarrow> 'c \<Rightarrow> rho_state \<Rightarrow> nat \<Rightarrow> rho_state" where
  "walk_state H c s i = (next_state H c ^^ i) s"

fun search_states :: "'c search \<Rightarrow> (rho_state \<times> rho_state) option" where
  "search_states (Drop c) = None"
| "search_states (Proceed s1 s2 c1 c2) = Some (s1, s2)"

definition floyd :: "(nat \<Rightarrow> rho_state) \<Rightarrow> nat \<Rightarrow> nat \<Rightarrow> (rho_state \<times> rho_state) option" where
  "floyd \<sigma> i m =
     (case meet (\<lambda>j. st_work (\<sigma> j)) i m of
        None \<Rightarrow> Some (\<sigma> (i + m), \<sigma> (2 * (i + m)))
      | Some j \<Rightarrow> if st_solution (\<sigma> j) \<noteq> st_solution (\<sigma> (2 * j)) then Some (\<sigma> j, \<sigma> (2 * j)) else None)"

lemma meet_SomeD:
  "meet w i m = Some j \<Longrightarrow>
     i < j \<and> j \<le> i + m \<and> w j = w (2 * j) \<and> (\<forall>l. i < l \<and> l < j \<longrightarrow> w l \<noteq> w (2 * l))"
proof (induction m arbitrary: i)
  case 0
  then show ?case by simp
next
  case (Suc m)
  show ?case
  proof (cases "w (Suc i) = w (2 * Suc i)")
    case True
    with Suc.prems show ?thesis by auto
  next
    case False
    with Suc.prems have "meet w (Suc i) m = Some j"
      by simp
    with Suc.IH False show ?thesis
      by (metis Suc_leI Suc_lessD add_Suc_right add_Suc_shift order_le_imp_less_or_eq)
  qed
qed

lemma meet_None_iff: "meet w i m = None \<longleftrightarrow> (\<forall>l. i < l \<and> l \<le> i + m \<longrightarrow> w l \<noteq> w (2 * l))"
proof (induction m arbitrary: i)
  case 0
  then show ?case by auto
next
  case (Suc m)
  have "(\<forall>l. i < l \<and> l \<le> i + Suc m \<longrightarrow> w l \<noteq> w (2 * l)) \<longleftrightarrow>
    w (Suc i) \<noteq> w (2 * Suc i) \<and> (\<forall>l. Suc i < l \<and> l \<le> Suc i + m \<longrightarrow> w l \<noteq> w (2 * l))"
    by (metis Suc_leI add_Suc_right add_Suc_shift le_add1 lessI order_le_imp_less_or_eq
        order_less_trans)
  then show ?case
    using Suc.IH [of "Suc i"] by simp
qed

text \<open>A sequence of iterates that revisits an element by step \<open>j\<close> meets its double by step \<open>j\<close>.\<close>

lemma iterates_meet:
  fixes f :: "'a \<Rightarrow> 'a"
  assumes w: "\<And>l. w l = (f ^^ l) x" and rev: "w i = w j" and "i < j"
  shows "\<exists>l. 0 < l \<and> l \<le> j \<and> w l = w (2 * l)"
proof -
  obtain d where j: "j = i + d" and "0 < d"
    using \<open>i < j\<close> less_imp_add_positive by blast
  have shift: "w (i + t) = w (i + t + d)" for t
  proof -
    have "w (t + i) = w (t + j)"
      using rev by (simp add: w funpow_add)
    then show ?thesis
      by (simp add: j ac_simps)
  qed
  have loop: "w (i + t) = w (i + t + d * q)" for t q
  proof (induction q)
    case 0
    then show ?case by simp
  next
    case (Suc q)
    then show ?case
      using shift [of "t + d * q"] by (simp add: ac_simps)
  qed
  let ?l = "d * (i div d + 1)"
  have "d * (i div d) + i mod d = i" and "i mod d < d"
    using \<open>0 < d\<close> by simp_all
  then have "d * (i div d) \<le> i" and "i < d * (i div d) + d"
    by linarith+
  then have "d * (i div d) \<le> i" and "i < ?l"
    by simp_all
  then have "?l \<le> j" and "0 < ?l"
    by (auto simp: j)
  moreover have "w ?l = w (2 * ?l)"
  proof -
    have "i + (?l - i) = ?l" and "i + (?l - i) + ?l = 2 * ?l"
      using \<open>i < ?l\<close> by linarith+
    then show ?thesis
      using loop [of "?l - i" "i div d + 1"] by (simp only:)
  qed
  ultimately show ?thesis by blast
qed

lemma floyd_Suc:
  "floyd \<sigma> i (Suc m) =
     (if st_work (\<sigma> (Suc i)) = st_work (\<sigma> (2 * Suc i))
      then (if st_solution (\<sigma> (Suc i)) \<noteq> st_solution (\<sigma> (2 * Suc i))
            then Some (\<sigma> (Suc i), \<sigma> (2 * Suc i)) else None)
      else floyd \<sigma> (Suc i) m)"
  by (auto simp: floyd_def split: option.split)

lemma walk_state_Suc [simp]: "walk_state H c s (Suc i) = next_state H c (walk_state H c s i)"
  by (simp add: walk_state_def)

lemma walk_state_0 [simp]: "walk_state H c s 0 = s"
  by (simp add: walk_state_def)

lemma walk_state_pubkey [simp]: "st_pubkey (walk_state H c s i) = st_pubkey s"
  by (induction i) auto

lemma walk_state_work:
  "st_work (walk_state H c s i) = (walk_fun H (st_pubkey s) c ^^ i) (st_work s)"
  by (induction i) auto

context rho_walk
begin

lemma walk_state_ok: "key_ok k \<Longrightarrow> walk_ok k s \<Longrightarrow> walk_ok k (walk_state H c s i)"
  by (induction i) (auto intro: next_state_ok)

lemma find_collision_floyd:
  assumes "key_ok k" and "walk_ok k s" and "same_header H c1 c" and "same_header H c2 c"
  shows "map_option search_states
      (find_collision L H m (walk_state H c s i) (walk_state H c s (2 * i)) c1 c2)
    = Some (floyd (walk_state H c s) i m)"
  using assms(3,4)
proof (induction m arbitrary: i c1 c2)
  case 0
  then show ?case by (simp add: floyd_def)
next
  case (Suc m)
  let ?s = "walk_state H c s"
  have ok: "walk_ok k (?s l)" for l
    using assms by (simp add: walk_state_ok)
  obtain d1 where d1: "step L H (?s i) c1 = Some (?s (Suc i), d1)" "same_header H d1 c"
    using step_total [OF assms(1) ok] next_state_same_header [OF Suc.prems(1)] Suc.prems(1)
    by (metis same_header_trans walk_state_Suc)
  obtain d2 where d2: "step L H (?s (2 * i)) c2 = Some (?s (Suc (2 * i)), d2)" "same_header H d2 c"
    using step_total [OF assms(1) ok] next_state_same_header [OF Suc.prems(2)] Suc.prems(2)
    by (metis same_header_trans walk_state_Suc)
  obtain d3 where d3: "step L H (?s (Suc (2 * i))) d2 = Some (?s (2 * Suc i), d3)" "same_header H d3 c"
    using step_total [OF assms(1) ok] next_state_same_header [OF d2(2)] d2(2)
    by (metis same_header_trans walk_state_Suc mult_Suc_right add_2_eq_Suc)
  show ?case
    using Suc.IH [OF d1(2) d3(2), of "Suc i"] d1(1) d2(1) d3(1)
    by (simp add: floyd_Suc del: walk_state_Suc mult_Suc_right)
qed

end

end
