(* ===== verification/Verifier.thy ===== *)
theory Verifier
  imports Solver
begin

text \<open>
  \<open>SolutionVerifier\<close> of \<open>consensus/trex-pow/src/lib.rs\<close>: the check of a pair of solutions against a
  header, and the private key that a valid pair gives away.
\<close>

definition to_u256 :: "'z rug_scheme \<Rightarrow> int solution \<Rightarrow> u256 solution option" where
  "to_u256 R s = do {
     a \<leftarrow> bigint_u256 R (sol_a s);
     b \<leftarrow> bigint_u256 R (sol_b s);
     n \<leftarrow> bigint_u256 R (sol_n s);
     Some \<lparr>sol_a = a, sol_b = b, sol_n = n\<rparr> }"

definition from_u256 :: "'z rug_scheme \<Rightarrow> u256 solution \<Rightarrow> int solution" where
  "from_u256 R s =
     \<lparr>sol_a = u256_bigint R (sol_a s), sol_b = u256_bigint R (sol_b s), sol_n = u256_bigint R (sol_n s)\<rparr>"

definition derive :: "'z rug_scheme \<Rightarrow> public_key \<Rightarrow> int solution \<Rightarrow> int option" where
  "derive R k s = do {
     g_a_p \<leftarrow> pow_mod R (key_g k) (sol_a s) (key_p k);
     h_b_p \<leftarrow> pow_mod R (key_h k) (sol_b s) (key_p k);
     rem_euc R (g_a_p * h_b_p) (key_p k) }"

definition verify ::
  "('r, 'z) pow_libs_scheme \<Rightarrow> public_key \<Rightarrow> int solutions \<Rightarrow> compute \<Rightarrow> bool option" where
  "verify L k sols header =
     (if fst sols = snd sols then Some False
      else do {
        y_1 \<leftarrow> derive L k (fst sols);
        y_2 \<leftarrow> derive L k (snd sols);
        if y_1 \<noteq> y_2 then Some False
        else do {
          hash_i \<leftarrow> rem_euc L (hash_integer L header) (key_p k);
          let nonce = u256_bigint L (cmp_nonce header);
          state \<leftarrow> from_pub_key L k 1;
          rw \<leftarrow> func_f L state hash_i nonce;
          work \<leftarrow> unwrap_map rw;
          if y_1 \<noteq> work then Some False
          else do {
            let state_1 = \<lparr>st_solution = fst sols, st_nonce = nonce, st_work = work, st_pubkey = k\<rparr>;
            let state_2 = \<lparr>st_solution = snd sols, st_nonce = nonce, st_work = work, st_pubkey = k\<rparr>;
            overflowed_1 \<leftarrow> overflowed L state_1 (hash_diff k);
            overflowed_2 \<leftarrow> overflowed L state_2 (hash_diff k);
            if overflowed_1 \<and> overflowed_2 then Some False else Some True } } })"

definition key_gen ::
  "'z rug_scheme \<Rightarrow> public_key \<Rightarrow> int solutions \<Rightarrow> private_key option option" where
  "key_gen R k sols = do {
     r \<leftarrow> eqs_solvers R (sol_a (fst sols)) (sol_b (fst sols)) (sol_a (snd sols)) (sol_b (snd sols))
            (sol_n (snd sols));
     (case r of
       Some key \<Rightarrow> do {
         validate \<leftarrow> pow_mod R (key_g k) key (key_p k);
         let new_key = (if validate \<noteq> key_h k then key + sol_n (snd sols) else key);
         Some (Some \<lparr>prv_p = key_p k, prv_g = key_g k, prv_x = new_key, prv_bits = key_bits k\<rparr>) }
     | None \<Rightarrow> Some None) }"

section \<open>What the verifier decides\<close>

definition nonneg_exponents :: "int solution \<Rightarrow> bool" where
  "nonneg_exponents s \<longleftrightarrow> 0 \<le> sol_a s \<and> 0 \<le> sol_b s"

text \<open>The state the verifier rebuilds from a header and the first solution.\<close>

definition claimed_state ::
  "('r, 'z) pow_libs_scheme \<Rightarrow> public_key \<Rightarrow> int solutions \<Rightarrow> compute \<Rightarrow> rho_state" where
  "claimed_state L k sols c =
     \<lparr>st_solution = fst sols, st_nonce = uint (cmp_nonce c),
      st_work = next_work k (hash_integer L c mod key_p k) (uint (cmp_nonce c)), st_pubkey = k\<rparr>"

definition accepts ::
  "('r, 'z) pow_libs_scheme \<Rightarrow> public_key \<Rightarrow> int solutions \<Rightarrow> compute \<Rightarrow> bool" where
  "accepts L k sols c \<longleftrightarrow> fst sols \<noteq> snd sols
     \<and> element k (fst sols) = element k (snd sols)
     \<and> element k (fst sols) = st_work (claimed_state L k sols c)
     \<and> overflowed L (claimed_state L k sols c) (hash_diff k) = Some False"

lemma exponents_nonneg: "exponents_ok k s \<Longrightarrow> nonneg_exponents s"
  by (simp add: exponents_ok_def nonneg_exponents_def)

context rug_spec
begin

lemma derive_eq:
  assumes "0 < key_p k" and "nonneg_exponents s"
  shows "derive R k s = Some (element k s)"
  using assms by (simp add: derive_def pow_mod_pos rem_euc_pos element_def nonneg_exponents_def mod_mult_eq)

end

text \<open>The locale of a node: its library functions, with the header type's own hash.\<close>

locale pow_node = blake_spec L for L :: "('r, 'z) pow_libs_scheme"

sublocale pow_node \<subseteq> node: rho_walk L "blake3_compute L"
  by (intro rho_walk.intro blake3_compute_header_hash blake_spec_axioms)

lemma pow_node_rho_walk: "pow_node L \<Longrightarrow> rho_walk L (blake3_compute L)"
  by (simp add: pow_node_def rho_walk_def blake3_compute_header_hash)

interpretation ref_node: pow_node ref_pow_libs
  by unfold_locales

context pow_node
begin

lemma claimed_work_unwrap:
  assumes "key_ok k"
  shows "\<exists>state. from_pub_key L k 1 = Some state \<and>
    func_f L state (hash_integer L c mod key_p k) (uint (cmp_nonce c))
      = Some (Inr (st_work (claimed_state L k sols c)))"
proof -
  obtain s where "from_pub_key L k 1 = Some s" "walk_ok k s"
    using node.from_pub_key_ok [OF assms] by blast
  then show ?thesis
    using assms by (auto simp: walk_ok_def func_f_eq claimed_state_def key_ok_def)
qed

text \<open>On a well-formed key the verifier returns, and decides \<open>accepts\<close>.\<close>

lemma verify_accepts:
  assumes k: "key_ok k" and "nonneg_exponents (fst sols)" and "nonneg_exponents (snd sols)"
  shows "verify L k sols c = Some (accepts L k sols c)"
proof -
  have p: "0 < key_p k"
    using k by (simp add: key_ok_def)
  obtain st where st: "from_pub_key L k 1 = Some st"
      "func_f L st (hash_integer L c mod key_p k) (uint (cmp_nonce c))
        = Some (Inr (st_work (claimed_state L k sols c)))"
    using claimed_work_unwrap [OF k] by blast
  let ?s1 = "claimed_state L k sols c"
  let ?s2 = "?s1\<lparr>st_solution := snd sols\<rparr>"
  obtain ov where ov: "overflowed L ?s1 (hash_diff k) = Some ov"
    using node.overflowed_total by blast
  moreover have "overflowed L ?s2 (hash_diff k) = overflowed L ?s1 (hash_diff k)"
    by (simp add: overflowed_def hash_encode_def)
  ultimately show ?thesis
    using assms p st
    by (simp add: verify_def accepts_def derive_eq rem_euc_pos u256_bigint_uint)
      (auto simp: claimed_state_def Let_def)
qed

text \<open>
  The verifier accepts a state that is linked to the header, at a distinguished point, with any
  second solution of the same group element.
\<close>

lemma linked_claimed:
  assumes "key_ok k" and "st_pubkey s = k" and "linked L (blake3_compute L) c s"
  shows "st_work (claimed_state L k sols c) = st_work s"
  using assms by (simp add: claimed_state_def linked_def blake3_compute_def get_nonce_def func_f_eq key_ok_def)

lemma linked_accepts:
  assumes k: "key_ok k" and s: "walk_ok k s" "linked L (blake3_compute L) c s"
    "overflowed L s (hash_diff k) = Some False"
    and sols: "fst sols = st_solution s" "fst sols \<noteq> snd sols"
    "element k (snd sols) = element k (fst sols)"
  shows "accepts L k sols c"
proof -
  have pk: "st_pubkey s = k" and w: "st_work s = element k (fst sols)"
    using s sols by (auto simp: walk_ok_def)
  have nonce: "uint (cmp_nonce c) = st_nonce s"
    and f: "func_f L s (hash_integer L c mod key_p k) (st_nonce s) = Some (Inr (st_work s))"
    using s(2) pk by (auto simp: linked_def blake3_compute_def get_nonce_def)
  have "st_work s = next_work k (hash_integer L c mod key_p k) (st_nonce s)"
    using f k pk by (simp add: func_f_eq key_ok_def)
  then have "claimed_state L k sols c = s"
    using sols(1) pk nonce by (simp add: claimed_state_def)
  then show ?thesis
    using s(3) sols w by (simp add: accepts_def)
qed

lemma linked_verifies:
  assumes "key_ok k" and "walk_ok k s" and "linked L (blake3_compute L) c s"
    and "overflowed L s (hash_diff k) = Some False"
    and "fst sols = st_solution s" and "fst sols \<noteq> snd sols"
    and "element k (snd sols) = element k (fst sols)" and "nonneg_exponents (snd sols)"
  shows "verify L k sols c = Some True"
proof -
  have "nonneg_exponents (fst sols)"
    using assms(2,5) exponents_nonneg by (auto simp: walk_ok_def)
  then show ?thesis
    using verify_accepts [OF assms(1) _ assms(8)] linked_accepts [OF assms(1-7)] by simp
qed

text \<open>A pair of another group element than the one the header leads to is rejected.\<close>

lemma unlinked_rejected:
  assumes "key_ok k" and "st_pubkey s = k" and "linked L (blake3_compute L) c s"
    and "nonneg_exponents (fst sols)" and "nonneg_exponents (snd sols)" and "element k (fst sols) \<noteq> st_work s"
  shows "verify L k sols c = Some False"
  using verify_accepts [OF assms(1,4,5)] linked_claimed [OF assms(1-3)] assms(6) by (simp add: accepts_def)

lemma mined_verifies:
  assumes k: "key_ok k" and m: "mined L (blake3_compute L) k c sols"
  shows "verify L k sols c = Some True"
proof -
  obtain s where "walk_ok k s" "linked L (blake3_compute L) c s" "st_solution s = fst sols"
      "overflowed L s (hash_diff k) = Some False" "fst sols \<noteq> snd sols" "exponents_ok k (snd sols)"
      "element k (snd sols) = element k (fst sols)"
    using m by (auto simp: mined_def)
  then show ?thesis
    using linked_verifies [OF k] exponents_nonneg by metis
qed

text \<open>
  Two solutions count as distinct when any component differs, \<open>n\<close> included, and \<open>n\<close> enters no
  equation: one linked state at a distinguished point, without any collision, is enough.
\<close>

lemma forged_verifies:
  assumes "key_ok k" and "walk_ok k s" and "linked L (blake3_compute L) c s"
    and "overflowed L s (hash_diff k) = Some False" and "m \<noteq> sol_n (st_solution s)"
  shows "verify L k (st_solution s, st_solution s\<lparr>sol_n := m\<rparr>) c = Some True"
proof (rule linked_verifies [OF assms(1-4)], goal_cases)
  case 2
  then show ?case using assms(5) by (cases "st_solution s") auto
next
  case 4
  then show ?case using assms(2) by (auto simp: walk_ok_def exponents_ok_def nonneg_exponents_def)
qed (simp_all add: element_def)

lemma solve_verified:
  assumes "key_ok k" and "solve L (blake3_compute L) k c seed = Some (Some sols, c')"
  shows "verify L k sols c' = Some True"
proof -
  have "mined L (blake3_compute L) k c' sols"
    using node.solve_ok [OF assms(1), of c seed] assms(2) by (cases sols) auto
  then show ?thesis
    by (rule mined_verifies [OF assms(1)])
qed

lemma solve_dist_verified:
  assumes "key_ok k"
    and "solve_dist L (blake3_compute L) k c seed grain obs = Some (Some sols, c', stored)"
  shows "verify L k sols c' = Some True"
proof -
  have "mined L (blake3_compute L) k c' sols"
    using node.solve_dist_ok [OF assms(1), of c seed grain obs] assms(2) by (cases sols) auto
  then show ?thesis
    by (rule mined_verifies [OF assms(1)])
qed

end

end
