(* ===== verification/Keychain.thy ===== *)
theory Keychain
  imports Verifier Constants
begin

text \<open>
  The seal of a block (\<open>Seal\<close> of \<open>consensus/trex-pow/src/lib.rs\<close>), the genesis seal
  (\<open>genesis.rs\<close>) and the chain of public keys derived from the seeds in a seal (\<open>keychain.rs\<close>).

  Key generation, the raw form of a key and the seed a key yields are functions of the crate
  \<open>elgamal_trex\<close>; the SCALE codec of a seal is derived code. They are further fields of the record
  of external functions, with their laws in the locale \<open>trex_node\<close>. A fixed-size array is a list
  whose length the definitions and laws state.
\<close>

section \<open>Seeds and seals\<close>

datatype raw_seed = U128 u128 | U256 u256

definition SEEDS_LEN :: nat where "SEEDS_LEN = unat (MAX_DIFFICULTY - MIN_DIFFICULTY)"

record seal =
  seal_difficulty :: u128
  seal_pubkey :: raw_public_key
  seal_seeds :: "raw_seed list"
  seal_solutions :: "u256 solutions"
  seal_nonce :: u256

record 'r trex_libs = "'r pow_libs" +
  from_raw :: "raw_public_key \<Rightarrow> public_key"
  to_raw :: "public_key \<Rightarrow> raw_public_key"
  yield_seed :: "public_key \<Rightarrow> int"
  generate_pub_key :: "'r \<Rightarrow> u32 \<Rightarrow> int \<Rightarrow> public_key"
  encode_seal :: "seal \<Rightarrow> bytes"
  decode_seal :: "bytes \<Rightarrow> seal option"

text \<open>The components of a key fit the 256 bits of its raw form.\<close>

definition key_fits :: "public_key \<Rightarrow> bool" where
  "key_fits k \<longleftrightarrow> 0 \<le> key_p k \<and> key_p k < 2 ^ 256 \<and> 0 \<le> key_g k \<and> key_g k < 2 ^ 256
     \<and> 0 \<le> key_h k \<and> key_h k < 2 ^ 256"

definition difficulty_ok :: "u128 \<Rightarrow> bool" where
  "difficulty_ok d \<longleftrightarrow> 48 \<le> uint d \<and> uint d < 224"

locale trex_node = pow_node L for L :: "('r, 'z) trex_libs_scheme" +
  assumes from_to_raw: "key_fits k \<Longrightarrow> from_raw L (to_raw L k) = k"
    and to_raw_bits: "raw_bits (to_raw L k) = key_bits k"
    and generate_ok: "48 \<le> uint bits \<Longrightarrow> uint bits < 224 \<Longrightarrow>
          key_ok (generate_pub_key L r bits x) \<and> key_fits (generate_pub_key L r bits x)
          \<and> key_bits (generate_pub_key L r bits x) = bits"
    and yield_seed_fits: "key_fits k \<Longrightarrow> 0 \<le> yield_seed L k \<and> yield_seed L k < 2 ^ 256"
    and decode_encode_seal: "length (seal_seeds s) = SEEDS_LEN \<Longrightarrow>
          decode_seal L (encode_seal L s) = Some s"
    and decode_seal_seeds: "decode_seal L bs = Some s \<Longrightarrow> length (seal_seeds s) = SEEDS_LEN"

section \<open>The genesis seal\<close>

definition genesis_seed :: "nat \<Rightarrow> raw_seed" where
  "genesis_seed idx = (if unat (128 - MIN_DIFFICULTY) \<le> idx then U256 1 else U128 1)"

definition genesis_seal :: "u128 \<Rightarrow> seal" where
  "genesis_seal difficulty =
     (let genesis_solution = \<lparr>sol_a = 1, sol_b = 1, sol_n = 1\<rparr>
      in \<lparr>seal_difficulty = difficulty,
          seal_pubkey = \<lparr>raw_p = 1, raw_g = 1, raw_h = 1, raw_bits = ucast difficulty\<rparr>,
          seal_seeds = map genesis_seed [0..<SEEDS_LEN],
          seal_solutions = (genesis_solution, genesis_solution),
          seal_nonce = 1\<rparr>)"

section \<open>The key chain\<close>

definition seed_bigint :: "'z rug_scheme \<Rightarrow> raw_seed \<Rightarrow> int" where
  "seed_bigint R s = (case s of U128 v \<Rightarrow> u128_bigint v | U256 v \<Rightarrow> u256_bigint R v)"

definition yield_pub_keys :: "('r, 'z) trex_libs_scheme \<Rightarrow> raw_seed list \<Rightarrow> public_key list" where
  "yield_pub_keys L seeds =
     map (\<lambda>(index, u_seed).
            let rand = rand_new L;
                seed = seed_bigint L u_seed;
                bit_length = of_nat (index + unat MIN_DIFFICULTY)
            in generate_pub_key L rand bit_length seed)
         (enumerate 0 seeds)"

text \<open>The seeds of the next seal: \<open>new_seeds\<close> of \<open>try_cpu_mining\<close>, key by key.\<close>

fun new_seeds ::
  "('r, 'z) trex_libs_scheme \<Rightarrow> nat \<Rightarrow> public_key list \<Rightarrow> raw_seed list \<Rightarrow> raw_seed list option" where
  "new_seeds L idx [] seeds = Some seeds"
| "new_seeds L idx (key # keys) seeds =
     (if idx < length seeds then do {
        seed \<leftarrow> (if idx < unat (128 - MIN_DIFFICULTY)
                 then Some (U128 (bigint_u128 L (yield_seed L key)))
                 else do { w \<leftarrow> bigint_u256 L (yield_seed L key); Some (U256 w) });
        new_seeds L (Suc idx) keys (seeds[idx := seed]) }
      else None)"

lemma SEEDS_LEN_176 [simp]: "SEEDS_LEN = 176"
  by (simp add: SEEDS_LEN_def difficulty_consts)

lemma genesis_seal_seeds: "length (seal_seeds (genesis_seal d)) = SEEDS_LEN"
  by (simp add: genesis_seal_def Let_def)

lemma length_yield_pub_keys [simp]: "length (yield_pub_keys L seeds) = length seeds"
  by (simp add: yield_pub_keys_def)

lemma nth_yield_pub_keys:
  "i < length seeds \<Longrightarrow> yield_pub_keys L seeds ! i =
     generate_pub_key L (rand_new L) (of_nat (i + 48)) (seed_bigint L (seeds ! i))"
  by (simp add: yield_pub_keys_def nth_enumerate_eq)

lemma new_seeds_length: "new_seeds L idx keys seeds = Some seeds' \<Longrightarrow> length seeds' = length seeds"
  by (induction L idx keys seeds rule: new_seeds.induct) (auto simp: bind_eq_Some_conv split: if_splits)

lemma uint_bit_length: "i < 176 \<Longrightarrow> uint (of_nat (i + 48) :: u32) = int i + 48"
  using uint_of_nat_small [of "i + 48", where 'a = 32] by simp

context trex_node
begin

lemma yield_pub_keys_ok:
  assumes "length seeds = SEEDS_LEN" and "i < SEEDS_LEN"
  shows "key_ok (yield_pub_keys L seeds ! i)" and "key_fits (yield_pub_keys L seeds ! i)"
    and "key_bits (yield_pub_keys L seeds ! i) = of_nat (i + 48)"
proof -
  let ?k = "generate_pub_key L (rand_new L) (of_nat (i + 48)) (seed_bigint L (seeds ! i))"
  have i: "i < 176"
    using assms(2) by (simp only: SEEDS_LEN_176)
  have "key_ok ?k \<and> key_fits ?k \<and> key_bits ?k = of_nat (i + 48)"
    by (rule generate_ok) (use uint_bit_length [OF i] i in linarith)+
  moreover have "yield_pub_keys L seeds ! i = ?k"
    using assms by (intro nth_yield_pub_keys) simp
  ultimately show "key_ok (yield_pub_keys L seeds ! i)" "key_fits (yield_pub_keys L seeds ! i)"
      "key_bits (yield_pub_keys L seeds ! i) = of_nat (i + 48)"
    by (simp_all only:)
qed

lemma new_seeds_total:
  assumes "\<forall>k \<in> set keys. key_fits k" and "idx + length keys \<le> length seeds"
  shows "\<exists>seeds'. new_seeds L idx keys seeds = Some seeds'"
  using assms
proof (induction keys arbitrary: idx seeds)
  case Nil
  then show ?case by simp
next
  case (Cons key keys)
  have "0 \<le> yield_seed L key" "yield_seed L key < 2 ^ 256"
    using Cons.prems(1) yield_seed_fits by auto
  then have "\<exists>w. bigint_u256 L (yield_seed L key) = Some w"
    by (simp add: bigint_u256_fits)
  then show ?case
    using Cons by auto
qed

lemma keychain_seeds_total:
  assumes "length seeds = SEEDS_LEN"
  shows "\<exists>seeds'. new_seeds L 0 (yield_pub_keys L seeds) (replicate SEEDS_LEN (U128 1)) = Some seeds'
    \<and> length seeds' = SEEDS_LEN"
proof -
  have "\<forall>k \<in> set (yield_pub_keys L seeds). key_fits k"
    using yield_pub_keys_ok(2) [OF assms] assms by (auto simp: in_set_conv_nth)
  then obtain seeds' where
    "new_seeds L 0 (yield_pub_keys L seeds) (replicate SEEDS_LEN (U128 1)) = Some seeds'"
    using new_seeds_total [of _ 0] assms by fastforce
  then show ?thesis
    using new_seeds_length by fastforce
qed

end

end
