(* ===== verification/Parallel.thy ===== *)
theory Parallel
  imports Verifier
begin

text \<open>
  \<open>solve_parallel\<close> of \<open>consensus/trex-pow/src/algorithm.rs\<close>: worker threads walk from different
  seeds and look their distinguished points up in a shared map.

  A worker is a program counter over its atomic actions and its local variables; the shared state is
  the map behind the \<open>RwLock\<close>, the flag \<open>found\<close>, and the two mutexes \<open>nonce\<close> and \<open>res\<close>. One step of
  the system is one atomic action of one worker, or the flag being set from outside (a block
  import). A write of the map waits until no worker holds the read lock; the read lock is held from
  the lookup to the end of the block, that is, in the program counters \<open>Poll\<close> to \<open>Set_Res\<close>. The
  operations on the flag are relaxed atomics on one location; they are interleaved here.
\<close>

section \<open>Workers and shared state\<close>

datatype pc =
    Loop                              \<comment> \<open>at \<open>while &i < &n\<close>\<close>
  | Check                             \<comment> \<open>distinguished point, before \<open>col.read()\<close>\<close>
  | Poll "int solution"               \<comment> \<open>collision in hand, before \<open>found.load\<close>\<close>
  | Set_Found "int solution"          \<comment> \<open>before \<open>found.store(true)\<close>\<close>
  | Set_Nonce "int solution"          \<comment> \<open>before the update of \<open>this_nonce\<close>\<close>
  | Set_Res "int solution"            \<comment> \<open>before the update of \<open>res_lock\<close>\<close>
  | Insert                            \<comment> \<open>before \<open>col.write()\<close>\<close>
  | Grain                             \<comment> \<open>at \<open>if counter >= grain_size\<close>\<close>
  | Returned
  | Crashed

record 'c worker =
  w_pc :: pc
  w_state :: rho_state
  w_compute :: 'c
  w_seed :: int                       \<comment> \<open>\<open>local_seed\<close>\<close>
  w_i :: nat
  w_counter :: u32
  w_j :: u8

record shared =
  sh_map :: "int \<rightharpoonup> int solution"
  sh_found :: bool
  sh_nonce :: int
  sh_res :: "int solutions option"

record 'c par_state =
  ps_shared :: shared
  ps_workers :: "'c worker list"

definition max_try :: u8 where "max_try = 10"

definition reading :: "pc \<Rightarrow> bool" where
  "reading p = (case p of Poll _ \<Rightarrow> True | Set_Found _ \<Rightarrow> True | Set_Nonce _ \<Rightarrow> True | Set_Res _ \<Rightarrow> True
     | _ \<Rightarrow> False)"

section \<open>One action of a worker\<close>

text \<open>
  The loop head: the walk and the distinguished-point test are local. When the range is used up the
  worker restarts from the next seed, at most \<open>max_try\<close> times.
\<close>

definition loop_action ::
  "('r, 'z) libs_scheme \<Rightarrow> 'c hash_trait \<Rightarrow> public_key \<Rightarrow> 'c worker \<Rightarrow> 'c worker" where
  "loop_action L H k w =
     (if w_i w < search_len L k then
        (case step L H (w_state w) (w_compute w) of
           None \<Rightarrow> w\<lparr>w_pc := Crashed\<rparr>
         | Some (s, c) \<Rightarrow>
            (case overflowed L s (hash_diff k) of
               None \<Rightarrow> w\<lparr>w_pc := Crashed\<rparr>
             | Some ov \<Rightarrow> w\<lparr>w_pc := (if ov then Grain else Check), w_state := s, w_compute := c\<rparr>))
      else if w_j w < max_try then
        (case from_pub_key L k (w_seed w + uint (w_j w + 1)) of
           None \<Rightarrow> w\<lparr>w_pc := Crashed\<rparr>
         | Some s \<Rightarrow> w\<lparr>w_j := w_j w + 1, w_state := s, w_i := 0\<rparr>)
      else w\<lparr>w_pc := Returned\<rparr>)"

text \<open>
  The lookup. The branch the source comments as "restart the search with different seed" belongs to
  \<open>if let Some(..) = col_map.get(..)\<close> and would need a key that is in the map and has no value: an
  equal solution only sets \<open>existed\<close>.
\<close>

definition check_action :: "shared \<Rightarrow> 'c worker \<Rightarrow> 'c worker" where
  "check_action sh w =
     (case sh_map sh (st_work (w_state w)) of
        None \<Rightarrow> w\<lparr>w_pc := Insert\<rparr>
      | Some sol_in_map \<Rightarrow>
          if st_solution (w_state w) \<noteq> sol_in_map then w\<lparr>w_pc := Poll sol_in_map\<rparr>
          else w\<lparr>w_pc := Grain\<rparr>)"

definition grain_action :: "u32 \<Rightarrow> shared \<Rightarrow> 'c worker \<Rightarrow> 'c worker" where
  "grain_action grain sh w =
     (if grain \<le> w_counter w \<and> sh_found sh then w\<lparr>w_pc := Returned\<rparr>
      else w\<lparr>w_pc := Loop, w_i := Suc (w_i w),
             w_counter := (if grain \<le> w_counter w then 0 else w_counter w) + 1\<rparr>)"

text \<open>\<open>None\<close> when the worker cannot move: it has returned or crashed, or waits for the write lock.\<close>

definition worker_action ::
  "('r, 'z) libs_scheme \<Rightarrow> 'c hash_trait \<Rightarrow> public_key \<Rightarrow> u32 \<Rightarrow> bool \<Rightarrow> shared \<Rightarrow> 'c worker \<Rightarrow>
     (shared \<times> 'c worker) option" where
  "worker_action L H k grain read_locked sh w =
     (case w_pc w of
        Loop \<Rightarrow> Some (sh, loop_action L H k w)
      | Check \<Rightarrow> Some (sh, check_action sh w)
      | Poll sol \<Rightarrow> Some (sh, if sh_found sh then w\<lparr>w_pc := Returned\<rparr> else w\<lparr>w_pc := Set_Found sol\<rparr>)
      | Set_Found sol \<Rightarrow> Some (sh\<lparr>sh_found := True\<rparr>, w\<lparr>w_pc := Set_Nonce sol\<rparr>)
      | Set_Nonce sol \<Rightarrow> Some (sh\<lparr>sh_nonce := st_nonce (w_state w)\<rparr>, w\<lparr>w_pc := Set_Res sol\<rparr>)
      | Set_Res sol \<Rightarrow>
          Some (sh\<lparr>sh_res := Some (st_solution (w_state w), sol)\<rparr>, w\<lparr>w_pc := Returned\<rparr>)
      | Insert \<Rightarrow>
          if read_locked then None
          else Some (sh\<lparr>sh_map :=
                 (case sh_map sh (st_work (w_state w)) of
                    None \<Rightarrow> (sh_map sh)(st_work (w_state w) \<mapsto> st_solution (w_state w))
                  | Some _ \<Rightarrow> sh_map sh)\<rparr>, w\<lparr>w_pc := Grain\<rparr>)
      | Grain \<Rightarrow> Some (sh, grain_action grain sh w)
      | Returned \<Rightarrow> None
      | Crashed \<Rightarrow> None)"

section \<open>The system\<close>

text \<open>
  The workers of \<open>solve_parallel\<close>: \<open>max_try * cpu_i\<close> is a product of \<open>u8\<close>, which wraps. \<open>None\<close> is a
  panic in a start state.
\<close>

definition init_worker ::
  "('r, 'z) libs_scheme \<Rightarrow> public_key \<Rightarrow> 'c \<Rightarrow> int \<Rightarrow> u8 \<Rightarrow> 'c worker option" where
  "init_worker L k compute seed cpu_i = do {
     let local_seed = seed + uint (max_try * cpu_i);
     s \<leftarrow> from_pub_key L k local_seed;
     Some \<lparr>w_pc = Loop, w_state = s, w_compute = compute, w_seed = local_seed, w_i = 0,
           w_counter = 0, w_j = 0\<rparr> }"

definition par_init ::
  "('r, 'z) libs_scheme \<Rightarrow> public_key \<Rightarrow> 'c \<Rightarrow> int \<Rightarrow> bool \<Rightarrow> u8 \<Rightarrow> 'c par_state option" where
  "par_init L k compute seed flag cpus = do {
     ws \<leftarrow> those (map (\<lambda>i. init_worker L k compute seed (of_nat i)) [0..<unat cpus]);
     Some \<lparr>ps_shared = \<lparr>sh_map = Map.empty, sh_found = flag, sh_nonce = 1, sh_res = None\<rparr>,
           ps_workers = ws\<rparr> }"

definition read_locked :: "'c par_state \<Rightarrow> bool" where
  "read_locked ps = list_ex (\<lambda>w. reading (w_pc w)) (ps_workers ps)"

definition par_action ::
  "('r, 'z) libs_scheme \<Rightarrow> 'c hash_trait \<Rightarrow> public_key \<Rightarrow> u32 \<Rightarrow> nat \<Rightarrow> 'c par_state \<Rightarrow>
     'c par_state option" where
  "par_action L H k grain i ps =
     (if i < length (ps_workers ps) then do {
        (sh, w) \<leftarrow> worker_action L H k grain (read_locked ps) (ps_shared ps) (ps_workers ps ! i);
        Some \<lparr>ps_shared = sh, ps_workers = (ps_workers ps)[i := w]\<rparr> }
      else None)"

inductive par_step ::
  "('r, 'z) libs_scheme \<Rightarrow> 'c hash_trait \<Rightarrow> public_key \<Rightarrow> u32 \<Rightarrow> 'c par_state \<Rightarrow> 'c par_state \<Rightarrow> bool"
  for L H k grain
where
  act: "par_action L H k grain i ps = Some ps' \<Longrightarrow> par_step L H k grain ps ps'"
| imported: "\<not> sh_found (ps_shared ps) \<Longrightarrow>
    par_step L H k grain ps (ps\<lparr>ps_shared := (ps_shared ps)\<lparr>sh_found := True\<rparr>\<rparr>)"

inductive_cases par_stepE: "par_step L H k grain ps ps'"

text \<open>All threads have been joined; the result and the nonce are taken out of their mutexes.\<close>

definition joined :: "'c par_state \<Rightarrow> bool" where
  "joined ps = list_all (\<lambda>w. w_pc w = Returned) (ps_workers ps)"

definition par_result ::
  "'c hash_trait \<Rightarrow> 'c par_state \<Rightarrow> 'c \<Rightarrow> (int solutions option \<times> 'c) option" where
  "par_result H ps compute = do {
     compute' \<leftarrow> tr_set_nonce H (sh_nonce (ps_shared ps)) compute;
     Some (sh_res (ps_shared ps), compute') }"

text \<open>
  A run under a given schedule, for evaluation: an event lets one worker act, or is a block import
  that sets the flag.
\<close>

datatype event = Act nat | Import

fun par_event ::
  "('r, 'z) libs_scheme \<Rightarrow> 'c hash_trait \<Rightarrow> public_key \<Rightarrow> u32 \<Rightarrow> event \<Rightarrow> 'c par_state \<Rightarrow>
     'c par_state option" where
  "par_event L H k grain (Act i) ps = par_action L H k grain i ps"
| "par_event L H k grain Import ps = Some (ps\<lparr>ps_shared := (ps_shared ps)\<lparr>sh_found := True\<rparr>\<rparr>)"

fun par_run ::
  "('r, 'z) libs_scheme \<Rightarrow> 'c hash_trait \<Rightarrow> public_key \<Rightarrow> u32 \<Rightarrow> event list \<Rightarrow> 'c par_state \<Rightarrow>
     'c par_state option" where
  "par_run L H k grain [] ps = Some ps"
| "par_run L H k grain (e # es) ps = do {
     ps' \<leftarrow> par_event L H k grain e ps;
     par_run L H k grain es ps' }"

text \<open>
  \<open>solve_parallel\<close> under a schedule. \<open>None\<close>: a panic, or a schedule that does not run every worker
  to its end; after a panic no continuation of the schedule gives a result.
\<close>

definition solve_parallel ::
  "('r, 'z) libs_scheme \<Rightarrow> 'c hash_trait \<Rightarrow> public_key \<Rightarrow> 'c \<Rightarrow> int \<Rightarrow> u32 \<Rightarrow> bool \<Rightarrow> u8 \<Rightarrow> event list \<Rightarrow>
     (int solutions option \<times> 'c) option" where
  "solve_parallel L H k compute seed grain flag cpus sched = do {
     ps \<leftarrow> par_init L k compute seed flag cpus;
     ps' \<leftarrow> par_run L H k grain sched ps;
     if joined ps' then par_result H ps' compute else None }"

lemma par_event_steps:
  assumes "par_event L H k grain e ps = Some ps'"
  shows "ps' = ps \<or> par_step L H k grain ps ps'"
proof (cases e)
  case (Act i)
  then show ?thesis
    using assms par_step.act by fastforce
next
  case Import
  show ?thesis
  proof (cases "sh_found (ps_shared ps)")
    case True
    then have "(ps_shared ps)\<lparr>sh_found := True\<rparr> = ps_shared ps"
      by (cases "ps_shared ps") simp
    then have "ps' = ps"
      using assms Import by (cases ps) simp
    then show ?thesis by simp
  next
    case False
    then show ?thesis
      using assms Import par_step.imported [OF False, of L H k grain] by simp
  qed
qed

lemma par_run_append:
  "par_run L H k grain (es @ fs) ps = do { ps \<leftarrow> par_run L H k grain es ps; par_run L H k grain fs ps }"
  by (induction es arbitrary: ps) (auto split: Option.bind_split)

lemma par_run_steps:
  "par_run L H k grain es ps = Some ps' \<Longrightarrow> (par_step L H k grain)\<^sup>*\<^sup>* ps ps'"
proof (induction es arbitrary: ps)
  case Nil
  then show ?case by simp
next
  case (Cons e es)
  then obtain ps1 where ps1: "par_event L H k grain e ps = Some ps1"
      "par_run L H k grain es ps1 = Some ps'"
    by (auto simp: bind_eq_Some_conv)
  from Cons.IH [OF ps1(2)] par_event_steps [OF ps1(1)] show ?case
    by (auto intro: converse_rtranclp_into_rtranclp)
qed

end
