(* ===== verification/Parallel_Props.thy ===== *)
theory Parallel_Props
  imports Parallel
begin

text \<open>
  What holds in every interleaving of \<open>solve_parallel\<close>: the safety of the shared map and of the
  published result (\<open>par_ok\<close>), the bound on the number of actions (\<open>par_measure\<close>), the absence of
  deadlock, and the condition under which the published nonce belongs to the published solutions.
\<close>

section \<open>The safety invariant\<close>

definition sol_ok :: "public_key \<Rightarrow> int solution \<Rightarrow> bool" where
  "sol_ok k s \<longleftrightarrow> exponents_ok k s \<and> sol_n s = (key_p k - 1) div 2"

definition collision :: "public_key \<Rightarrow> int solution \<Rightarrow> int solution \<Rightarrow> bool" where
  "collision k s t \<longleftrightarrow> sol_ok k s \<and> sol_ok k t \<and> s \<noteq> t \<and> element k t = element k s"

text \<open>The worker stands at a distinguished point that its header, set from \<open>c0\<close>, links to.\<close>

definition at_point ::
  "('r, 'z) libs_scheme \<Rightarrow> 'c hash_trait \<Rightarrow> public_key \<Rightarrow> 'c \<Rightarrow> 'c worker \<Rightarrow> bool" where
  "at_point L H k c0 w \<longleftrightarrow>
     tr_set_nonce H (st_nonce (w_state w)) c0 = Some (w_compute w)
     \<and> linked L H (w_compute w) (w_state w)
     \<and> overflowed L (w_state w) (hash_diff k) = Some False
     \<and> 0 \<le> st_nonce (w_state w) \<and> st_nonce (w_state w) < 2 ^ 256"

fun pc_ok ::
  "('r, 'z) libs_scheme \<Rightarrow> 'c hash_trait \<Rightarrow> public_key \<Rightarrow> 'c \<Rightarrow> 'c worker \<Rightarrow> pc \<Rightarrow> bool" where
  "pc_ok L H k c0 w Loop = True"
| "pc_ok L H k c0 w Check = at_point L H k c0 w"
| "pc_ok L H k c0 w (Poll s) = (at_point L H k c0 w \<and> collision k (st_solution (w_state w)) s)"
| "pc_ok L H k c0 w (Set_Found s) = (at_point L H k c0 w \<and> collision k (st_solution (w_state w)) s)"
| "pc_ok L H k c0 w (Set_Nonce s) = (at_point L H k c0 w \<and> collision k (st_solution (w_state w)) s)"
| "pc_ok L H k c0 w (Set_Res s) = (at_point L H k c0 w \<and> collision k (st_solution (w_state w)) s)"
| "pc_ok L H k c0 w Insert = at_point L H k c0 w"
| "pc_ok L H k c0 w Grain = True"
| "pc_ok L H k c0 w Returned = True"
| "pc_ok L H k c0 w Crashed = False"

definition worker_ok ::
  "('r, 'z) libs_scheme \<Rightarrow> 'c hash_trait \<Rightarrow> public_key \<Rightarrow> 'c \<Rightarrow> 'c worker \<Rightarrow> bool" where
  "worker_ok L H k c0 w \<longleftrightarrow> walk_ok k (w_state w) \<and> same_header H (w_compute w) c0
     \<and> pc_ok L H k c0 w (w_pc w)"

definition shared_ok :: "public_key \<Rightarrow> shared \<Rightarrow> bool" where
  "shared_ok k sh \<longleftrightarrow>
     (\<forall>y s. sh_map sh y = Some s \<longrightarrow> sol_ok k s \<and> element k s = y)
     \<and> (\<forall>s t. sh_res sh = Some (s, t) \<longrightarrow> collision k s t)
     \<and> 0 \<le> sh_nonce sh \<and> sh_nonce sh < 2 ^ 256"

definition par_ok ::
  "('r, 'z) libs_scheme \<Rightarrow> 'c hash_trait \<Rightarrow> public_key \<Rightarrow> 'c \<Rightarrow> 'c par_state \<Rightarrow> bool" where
  "par_ok L H k c0 ps \<longleftrightarrow> shared_ok k (ps_shared ps) \<and> (\<forall>w \<in> set (ps_workers ps). worker_ok L H k c0 w)"

lemma walk_ok_sol_ok: "walk_ok k s \<Longrightarrow> sol_ok k (st_solution s)"
  by (simp add: walk_ok_def sol_ok_def)

lemma at_point_pc [simp]: "at_point L H k c0 (w\<lparr>w_pc := p\<rparr>) = at_point L H k c0 w"
  by (simp add: at_point_def)

lemma pc_ok_pc [simp]: "pc_ok L H k c0 (w\<lparr>w_pc := p\<rparr>) q = pc_ok L H k c0 w q"
  by (cases q) simp_all

context rho_walk
begin

lemma loop_action_ok:
  assumes k: "key_ok k" and w: "worker_ok L H k c0 w" and pc: "w_pc w = Loop"
  shows "worker_ok L H k c0 (loop_action L H k w)"
proof -
  let ?s = "w_state w"
  have s: "walk_ok k ?s" and hdr: "same_header H (w_compute w) c0"
    using w by (auto simp: worker_ok_def)
  obtain c' where c': "tr_set_nonce H (st_work ?s) (w_compute w) = Some c'"
    using set_nonce_work [OF k s] by blast
  then have step: "step L H ?s (w_compute w) = Some (next_state H (w_compute w) ?s, c')"
    and hdr': "same_header H c' c0"
    using step_eq [OF k s] same_header_trans [OF same_header_set hdr] by simp_all
  let ?t = "next_state H (w_compute w) ?s"
  have t: "walk_ok k ?t" "linked L H c' ?t"
    using next_state_ok [OF k s] next_state_linked [OF k s c'] by auto
  obtain ov where ov: "overflowed L ?t (hash_diff k) = Some ov"
    using overflowed_total by blast
  have "tr_set_nonce H (st_work ?s) c0 = Some c'"
    using c' hdr by (simp add: same_header_def)
  then have point: "\<not> ov \<Longrightarrow> at_point L H k c0 (w\<lparr>w_pc := p, w_state := ?t, w_compute := c'\<rparr>)" for p
    using t(2) ov walk_ok_work_bounds [OF k s] by (simp add: at_point_def)
  obtain r where "from_pub_key L k (w_seed w + uint (w_j w + 1)) = Some r" "walk_ok k r"
    using from_pub_key_ok [OF k] by blast
  then show ?thesis
    using w pc step ov t hdr hdr' point by (auto simp: loop_action_def worker_ok_def)
qed

lemma worker_action_ok:
  assumes k: "key_ok k" and act: "worker_action L H k grain lk sh w = Some (sh', w')"
    and sh: "shared_ok k sh" and w: "worker_ok L H k c0 w"
  shows "shared_ok k sh' \<and> worker_ok L H k c0 w'"
proof (cases "w_pc w")
  case Loop
  then show ?thesis
    using act sh loop_action_ok [OF k w Loop] by (auto simp: worker_action_def)
next
  case Check
  have "collision k (st_solution (w_state w)) s"
    if "sh_map sh (st_work (w_state w)) = Some s" and "st_solution (w_state w) \<noteq> s" for s
    using that sh w by (auto simp: collision_def shared_ok_def worker_ok_def walk_ok_def sol_ok_def)
  then show ?thesis
    using Check act sh w
    by (auto simp: worker_action_def check_action_def worker_ok_def split: option.splits)
next
  case (Set_Nonce s)
  then show ?thesis
    using act sh w by (auto simp: worker_action_def worker_ok_def shared_ok_def at_point_def)
next
  case (Set_Res s)
  then show ?thesis
    using act sh w by (auto simp: worker_action_def worker_ok_def shared_ok_def)
next
  case Insert
  then show ?thesis
    using act sh w by (auto simp: worker_action_def worker_ok_def shared_ok_def walk_ok_def sol_ok_def
        split: if_splits option.splits)
next
  case Grain
  then show ?thesis
    using act sh w by (auto simp: worker_action_def grain_action_def worker_ok_def split: if_splits)
qed (use act sh w in \<open>auto simp: worker_action_def worker_ok_def shared_ok_def split: if_splits\<close>)

lemma par_step_ok:
  assumes k: "key_ok k" and "par_step L H k grain ps ps'" and "par_ok L H k c0 ps"
  shows "par_ok L H k c0 ps'"
  using assms(2)
proof (cases rule: par_step.cases)
  case (act i)
  then obtain sh w where i: "i < length (ps_workers ps)"
      "worker_action L H k grain (read_locked ps) (ps_shared ps) (ps_workers ps ! i) = Some (sh, w)"
      "ps' = \<lparr>ps_shared = sh, ps_workers = (ps_workers ps)[i := w]\<rparr>"
    by (auto simp: par_action_def bind_eq_Some_conv split: if_splits)
  then have "shared_ok k sh \<and> worker_ok L H k c0 w"
    using worker_action_ok [OF k i(2), of c0] assms(3) nth_mem [OF i(1)] by (simp add: par_ok_def)
  then show ?thesis
    using i(3) assms(3) by (auto simp: par_ok_def dest!: set_update_subset_insert [THEN subsetD])
next
  case imported
  then show ?thesis
    using assms(3) by (simp add: par_ok_def shared_ok_def)
qed

lemma par_steps_ok:
  assumes "(par_step L H k grain)\<^sup>*\<^sup>* ps ps'" and "key_ok k" and "par_ok L H k c0 ps"
  shows "par_ok L H k c0 ps'"
  using assms by (induction rule: rtranclp_induct) (auto intro: par_step_ok)

lemma those_Some:
  assumes "\<And>x. x \<in> set xs \<Longrightarrow> \<exists>y. f x = Some y \<and> P y"
  shows "\<exists>ys. those (map f xs) = Some ys \<and> length ys = length xs \<and> (\<forall>y \<in> set ys. P y)"
  using assms
proof (induction xs)
  case Nil
  then show ?case by simp
next
  case (Cons x xs)
  then obtain ys where "those (map f xs) = Some ys" "length ys = length xs" "\<forall>y \<in> set ys. P y"
    by force
  moreover obtain y where "f x = Some y" "P y"
    using Cons.prems by fastforce
  ultimately show ?case by simp
qed

lemma par_init_ok:
  assumes k: "key_ok k"
  shows "\<exists>ps. par_init L k c0 seed flag cpus = Some ps \<and> par_ok L H k c0 ps
    \<and> length (ps_workers ps) = unat cpus \<and> (\<forall>w \<in> set (ps_workers ps). w_pc w = Loop \<and> w_i w = 0 \<and> w_j w = 0)
    \<and> sh_res (ps_shared ps) = None \<and> sh_found (ps_shared ps) = flag"
proof -
  let ?P = "\<lambda>w. worker_ok L H k c0 w \<and> w_pc w = Loop \<and> w_i w = 0 \<and> w_j w = 0"
  have "\<exists>w. init_worker L k c0 seed i = Some w \<and> ?P w" for i
    using from_pub_key_ok [OF k, of "seed + uint (max_try * i)"]
    by (auto simp: init_worker_def worker_ok_def)
  then obtain ws where "those (map (\<lambda>i. init_worker L k c0 seed (of_nat i)) [0..<unat cpus]) = Some ws"
      "length ws = unat cpus" "\<forall>w \<in> set ws. ?P w"
    using those_Some [of "[0..<unat cpus]" "\<lambda>i. init_worker L k c0 seed (of_nat i)" ?P] by auto
  then show ?thesis
    by (auto simp: par_init_def par_ok_def shared_ok_def)
qed

end

section \<open>Every run ends\<close>

text \<open>
  Each action decreases a number: the restarts and iterations left of each worker, and its place
  within the iteration.
\<close>

fun pc_rank :: "pc \<Rightarrow> nat" where
  "pc_rank Loop = 7"
| "pc_rank Check = 6"
| "pc_rank (Poll s) = 5"
| "pc_rank (Set_Found s) = 4"
| "pc_rank (Set_Nonce s) = 3"
| "pc_rank (Set_Res s) = 2"
| "pc_rank Insert = 5"
| "pc_rank Grain = 1"
| "pc_rank Returned = 0"
| "pc_rank Crashed = 0"

definition worker_measure :: "nat \<Rightarrow> 'c worker \<Rightarrow> nat" where
  "worker_measure n w =
     ((10 - unat (w_j w)) * Suc n + (n - w_i w)) * 8 + pc_rank (w_pc w)"

definition par_measure :: "nat \<Rightarrow> 'c par_state \<Rightarrow> nat" where
  "par_measure n ps = sum_list (map (worker_measure n) (ps_workers ps))
     + (if sh_found (ps_shared ps) then 0 else 1)"

definition counts_ok :: "nat \<Rightarrow> 'c worker \<Rightarrow> bool" where
  "counts_ok n w \<longleftrightarrow> unat (w_j w) \<le> 10
     \<and> (w_pc w \<in> {Loop, Returned, Crashed} \<or> w_i w < n)"

lemma u8_Suc: "x < max_try \<Longrightarrow> unat (x + 1) = Suc (unat x) \<and> unat x < 10"
proof -
  assume "x < max_try"
  then have "unat x < 10"
    by (simp add: max_try_def word_less_nat_alt)
  then show ?thesis
    by (simp add: unat_word_ariths)
qed

lemma measure_iteration: "i < (n :: nat) \<Longrightarrow> n - i = Suc (n - Suc i)"
  by simp

lemma restart_decreases:
  assumes "j < 10"
  shows "((10 - Suc j) * Suc n + n) * 8 < (10 - j) * Suc n * (8 :: nat)"
proof -
  have "10 - j = Suc (10 - Suc j)"
    using assms by simp
  then have "(10 - j) * Suc n = (10 - Suc j) * Suc n + Suc n"
    by (simp only: mult_Suc add.commute)
  then show ?thesis by simp
qed

lemma loop_action_decreases:
  assumes "w_pc w = Loop" and "counts_ok (search_len L k) w"
  shows "worker_measure (search_len L k) (loop_action L H k w) < worker_measure (search_len L k) w"
    and "counts_ok (search_len L k) (loop_action L H k w)"
proof -
  have j: "w_j w < max_try \<Longrightarrow> unat (w_j w + 1) = Suc (unat (w_j w)) \<and> unat (w_j w) < 10"
    by (rule u8_Suc)
  show "worker_measure (search_len L k) (loop_action L H k w) < worker_measure (search_len L k) w"
    using assms j restart_decreases [of "unat (w_j w)" "search_len L k"]
    by (auto simp: loop_action_def worker_measure_def split: option.splits)
  show "counts_ok (search_len L k) (loop_action L H k w)"
    using assms j by (auto simp: loop_action_def counts_ok_def split: option.splits)
qed

lemma worker_action_decreases:
  assumes act: "worker_action L H k grain lk sh w = Some (sh', w')"
    and c: "counts_ok (search_len L k) w"
  shows "worker_measure (search_len L k) w' < worker_measure (search_len L k) w
    \<and> counts_ok (search_len L k) w' \<and> (sh_found sh \<longrightarrow> sh_found sh')"
proof (cases "w_pc w")
  case Loop
  then show ?thesis
    using act loop_action_decreases [OF Loop c] by (auto simp: worker_action_def)
next
  case Check
  then show ?thesis
    using act c by (auto simp: worker_action_def check_action_def worker_measure_def counts_ok_def
        split: option.splits if_splits)
next
  case Grain
  then have "search_len L k - w_i w = Suc (search_len L k - Suc (w_i w))"
    using c by (auto simp: counts_ok_def intro: measure_iteration)
  with Grain show ?thesis
    using act c by (auto simp: worker_action_def grain_action_def worker_measure_def counts_ok_def
        split: if_splits)
qed (use act c in \<open>auto simp: worker_action_def worker_measure_def counts_ok_def split: if_splits\<close>)

lemma par_action_cases:
  assumes "par_action L H k grain i ps = Some ps'"
  obtains sh w where "i < length (ps_workers ps)"
    "worker_action L H k grain (read_locked ps) (ps_shared ps) (ps_workers ps ! i) = Some (sh, w)"
    "ps' = \<lparr>ps_shared = sh, ps_workers = (ps_workers ps)[i := w]\<rparr>"
  using assms by (auto simp: par_action_def bind_eq_Some_conv split: if_splits)

lemma par_step_decreases:
  assumes "par_step L H k grain ps ps'" and c: "\<forall>w \<in> set (ps_workers ps). counts_ok (search_len L k) w"
  shows "par_measure (search_len L k) ps' < par_measure (search_len L k) ps
    \<and> (\<forall>w \<in> set (ps_workers ps'). counts_ok (search_len L k) w)"
  using assms(1)
proof (cases rule: par_step.cases)
  case (act i)
  let ?f = "worker_measure (search_len L k)"
  from act obtain sh w where i: "i < length (ps_workers ps)"
    "worker_action L H k grain (read_locked ps) (ps_shared ps) (ps_workers ps ! i) = Some (sh, w)"
    "ps' = \<lparr>ps_shared = sh, ps_workers = (ps_workers ps)[i := w]\<rparr>"
    by (rule par_action_cases)
  have w: "?f w < ?f (ps_workers ps ! i)" "counts_ok (search_len L k) w"
      "sh_found (ps_shared ps) \<longrightarrow> sh_found sh"
    using worker_action_decreases [OF i(2)] c nth_mem [OF i(1)] by auto
  have "?f (ps_workers ps ! i) \<le> sum_list (map ?f (ps_workers ps))"
    using i(1) by (intro member_le_sum_list) simp_all
  then have "sum_list (map ?f ((ps_workers ps)[i := w])) < sum_list (map ?f (ps_workers ps))"
    using i(1) w(1) by (simp add: map_update sum_list_update)
  then show ?thesis
    using i(3) w c by (auto simp: par_measure_def dest!: set_update_subset_insert [THEN subsetD])
next
  case imported
  then show ?thesis
    using c by (simp add: par_measure_def)
qed

lemma par_steps_bounded:
  assumes "(par_step L H k grain ^^ m) ps ps'"
    and "\<forall>w \<in> set (ps_workers ps). counts_ok (search_len L k) w"
  shows "m + par_measure (search_len L k) ps' \<le> par_measure (search_len L k) ps
    \<and> (\<forall>w \<in> set (ps_workers ps'). counts_ok (search_len L k) w)"
  using assms
proof (induction m arbitrary: ps')
  case 0
  then show ?case by simp
next
  case (Suc m)
  then obtain ps1 where "(par_step L H k grain ^^ m) ps ps1" and "par_step L H k grain ps1 ps'"
    by auto
  then show ?case
    using Suc.IH [OF _ Suc.prems(2)] par_step_decreases by fastforce
qed

text \<open>The number of actions that \<open>cpus\<close> workers can make.\<close>

lemma par_measure_start:
  assumes "\<forall>w \<in> set (ps_workers ps). w_pc w = Loop \<and> w_i w = 0 \<and> w_j w = 0"
  shows "par_measure n ps \<le> length (ps_workers ps) * (88 * n + 87) + 1"
proof -
  have "map (worker_measure n) (ps_workers ps) = map (\<lambda>w. 88 * n + 87) (ps_workers ps)"
    using assms by (intro map_cong) (simp_all add: worker_measure_def)
  then have "sum_list (map (worker_measure n) (ps_workers ps)) = length (ps_workers ps) * (88 * n + 87)"
    by (simp only: sum_list_triv of_nat_id)
  then show ?thesis
    by (simp add: par_measure_def)
qed

section \<open>No deadlock\<close>

lemma worker_action_total:
  assumes "w_pc w \<noteq> Returned" and "w_pc w \<noteq> Crashed" and "\<not> lk \<or> w_pc w \<noteq> Insert"
  shows "\<exists>r. worker_action L H k grain lk sh w = Some r"
  using assms by (cases "w_pc w") (auto simp: worker_action_def)

lemma par_progress:
  assumes "\<not> joined ps" and "\<forall>w \<in> set (ps_workers ps). w_pc w \<noteq> Crashed"
  shows "\<exists>i ps'. par_action L H k grain i ps = Some ps'"
proof -
  obtain w where w: "w \<in> set (ps_workers ps)" "w_pc w \<noteq> Returned" "\<not> read_locked ps \<or> w_pc w \<noteq> Insert"
  proof (cases "read_locked ps")
    case True
    then obtain w where "w \<in> set (ps_workers ps)" "reading (w_pc w)"
      by (auto simp: read_locked_def list_ex_iff)
    then show ?thesis
      by (intro that [of w]) (auto simp: reading_def split: pc.splits)
  next
    case False
    then show ?thesis
      using assms(1) by (auto simp: joined_def list_all_iff intro: that)
  qed
  then obtain i where i: "i < length (ps_workers ps)" "ps_workers ps ! i = w"
    by (auto simp: in_set_conv_nth)
  obtain r where "worker_action L H k grain (read_locked ps) (ps_shared ps) w = Some r"
    using worker_action_total [of w "read_locked ps"] w assms(2) by blast
  with i show ?thesis
    by (cases r) (auto simp: par_action_def intro!: exI [of _ i])
qed

section \<open>When the nonce belongs to the solutions\<close>

text \<open>
  The flag is tested and set in two actions, and the nonce and the solutions are published in two
  more. The published nonce is the one of the published solutions as long as the workers never
  overlap between \<open>found.store(true)\<close> and the update of the solutions.
\<close>

definition publishing :: "pc \<Rightarrow> bool" where
  "publishing p = (case p of Set_Found _ \<Rightarrow> True | Set_Nonce _ \<Rightarrow> True | Set_Res _ \<Rightarrow> True | _ \<Rightarrow> False)"

definition exclusive :: "'c par_state \<Rightarrow> bool" where
  "exclusive ps \<longleftrightarrow> (\<forall>i < length (ps_workers ps). \<forall>j < length (ps_workers ps).
     publishing (w_pc (ps_workers ps ! i)) \<and> publishing (w_pc (ps_workers ps ! j)) \<longrightarrow> i = j)"

definition excl_step ::
  "('r, 'z) libs_scheme \<Rightarrow> 'c hash_trait \<Rightarrow> public_key \<Rightarrow> u32 \<Rightarrow> 'c par_state \<Rightarrow> 'c par_state \<Rightarrow> bool"
where
  "excl_step L H k grain ps ps' \<longleftrightarrow> par_step L H k grain ps ps' \<and> exclusive ps'"

definition published ::
  "('r, 'z) libs_scheme \<Rightarrow> 'c hash_trait \<Rightarrow> public_key \<Rightarrow> 'c \<Rightarrow> shared \<Rightarrow> bool" where
  "published L H k c0 sh \<longleftrightarrow> (\<forall>sols c. sh_res sh = Some sols \<longrightarrow>
     tr_set_nonce H (sh_nonce sh) c0 = Some c \<longrightarrow> mined L H k c sols)"

definition worker_pub :: "shared \<Rightarrow> 'c worker \<Rightarrow> bool" where
  "worker_pub sh w \<longleftrightarrow>
     (publishing (w_pc w) \<longrightarrow> sh_res sh = None)
     \<and> (\<forall>s. w_pc w = Set_Nonce s \<or> w_pc w = Set_Res s \<longrightarrow> sh_found sh)
     \<and> (\<forall>s. w_pc w = Set_Res s \<longrightarrow> sh_nonce sh = st_nonce (w_state w))"

definition publish_inv ::
  "('r, 'z) libs_scheme \<Rightarrow> 'c hash_trait \<Rightarrow> public_key \<Rightarrow> 'c \<Rightarrow> 'c par_state \<Rightarrow> bool" where
  "publish_inv L H k c0 ps \<longleftrightarrow>
     published L H k c0 (ps_shared ps)
     \<and> (sh_res (ps_shared ps) \<noteq> None \<longrightarrow> sh_found (ps_shared ps))
     \<and> (\<forall>w \<in> set (ps_workers ps). worker_pub (ps_shared ps) w)"

lemma publishing_simps [simp]:
  "publishing (Set_Found s)" "publishing (Set_Nonce s)" "publishing (Set_Res s)"
  "\<not> publishing Loop" "\<not> publishing Check" "\<not> publishing (Poll s)" "\<not> publishing Insert"
  "\<not> publishing Grain" "\<not> publishing Returned" "\<not> publishing Crashed"
  by (simp_all add: publishing_def)

lemma worker_pub_quiet: "\<not> publishing (w_pc w) \<Longrightarrow> worker_pub sh w"
  by (auto simp: worker_pub_def)

lemma worker_pub_same:
  assumes "worker_pub sh w" and "sh_found sh' = sh_found sh" and "sh_nonce sh' = sh_nonce sh"
    and "sh_res sh' = sh_res sh"
  shows "worker_pub sh' w"
  using assms by (simp add: worker_pub_def)

lemma loop_action_pc: "w_pc w = Loop \<Longrightarrow> w_pc (loop_action L H k w) \<in> {Loop, Check, Grain, Returned, Crashed}"
  by (auto simp: loop_action_def split: option.splits)

lemma exclusive_others:
  assumes "exclusive ps" and "i < length (ps_workers ps)" and "publishing (w_pc (ps_workers ps ! i))"
    and "v \<in> set ((ps_workers ps)[i := w])" and "publishing (w_pc v)"
  shows "v = w"
proof -
  obtain j where j: "j < length (ps_workers ps)" "v = (ps_workers ps)[i := w] ! j"
    using assms(4) by (auto simp: in_set_conv_nth)
  show ?thesis
    using assms j by (cases "i = j") (auto simp: exclusive_def)
qed

text \<open>An action outside the publishing section leaves the flag, the nonce and the result alone.\<close>

lemma worker_action_quiet:
  assumes "worker_action L H k grain lk sh w = Some (sh', w')" and "\<not> publishing (w_pc w)"
  shows "sh_found sh' = sh_found sh \<and> sh_nonce sh' = sh_nonce sh \<and> sh_res sh' = sh_res sh
    \<and> (publishing (w_pc w') \<longrightarrow> \<not> sh_found sh \<and> (\<exists>s. w_pc w' = Set_Found s))"
  using assms loop_action_pc [of w L H k]
  by (cases "w_pc w") (auto simp: worker_action_def check_action_def grain_action_def
      split: option.splits if_splits)

context rho_walk
begin

lemma at_point_mined:
  assumes "walk_ok k (w_state w)" and "at_point L H k c0 w" and "collision k (st_solution (w_state w)) s"
    and "tr_set_nonce H (st_nonce (w_state w)) c0 = Some c"
  shows "mined L H k c (st_solution (w_state w), s)"
  unfolding mined_def using assms
  by (intro exI [of _ "w_state w"]) (auto simp: at_point_def collision_def sol_ok_def)

lemma par_action_publish:
  assumes act: "par_action L H k grain i ps = Some ps'" and ex: "exclusive ps"
    and ok: "par_ok L H k c0 ps" and inv: "publish_inv L H k c0 ps"
  shows "publish_inv L H k c0 ps'"
proof -
  let ?w = "ps_workers ps ! i" and ?sh = "ps_shared ps"
  from act obtain sh w where i: "i < length (ps_workers ps)"
    and wa: "worker_action L H k grain (read_locked ps) ?sh ?w = Some (sh, w)"
    and ps': "ps' = \<lparr>ps_shared = sh, ps_workers = (ps_workers ps)[i := w]\<rparr>"
    by (rule par_action_cases)
  have mem: "v \<in> set (ps_workers ps') \<Longrightarrow> v = w \<or> v \<in> set (ps_workers ps)" for v
    using ps' set_update_subset_insert [of "ps_workers ps" i w] by auto
  have wok: "worker_ok L H k c0 ?w"
    using ok nth_mem [OF i] by (simp add: par_ok_def)
  have old: "publishing (w_pc ?w) \<Longrightarrow> sh_res ?sh = None"
    using inv nth_mem [OF i] by (auto simp: publish_inv_def worker_pub_def)
  have others: "publishing (w_pc ?w) \<Longrightarrow> v \<in> set (ps_workers ps') \<Longrightarrow> publishing (w_pc v) \<Longrightarrow> v = w" for v
    using exclusive_others [OF ex i] ps' by auto
  have pub: "worker_pub ?sh v" if "v \<in> set (ps_workers ps)" for v
    using inv that by (simp add: publish_inv_def)
  have pub_w: "worker_pub ?sh ?w"
    by (rule pub) (rule nth_mem [OF i])
  have all: "publish_inv L H k c0 ps'"
    if "published L H k c0 sh" and "sh_res sh \<noteq> None \<longrightarrow> sh_found sh" and "worker_pub sh w"
      and "\<And>v. v \<in> set (ps_workers ps') \<Longrightarrow> v \<noteq> w \<Longrightarrow> worker_pub sh v"
    using that ps' by (auto simp: publish_inv_def)
  show ?thesis
  proof (cases "publishing (w_pc ?w)")
    case False
    note q = worker_action_quiet [OF wa False]
    show ?thesis
    proof (rule all)
      show "published L H k c0 sh" "sh_res sh \<noteq> None \<longrightarrow> sh_found sh"
        using inv q by (simp_all add: publish_inv_def published_def)
      show "worker_pub sh v" if "v \<in> set (ps_workers ps')" and "v \<noteq> w" for v
        using worker_pub_same [OF pub] mem [OF that(1)] that(2) q by blast
      show "worker_pub sh w"
        using q inv
        by (cases "publishing (w_pc w)"; cases "sh_res ?sh") (auto simp: worker_pub_def publish_inv_def)
    qed
  next
    case True
    note none = old [OF True]
    have quiet: "worker_pub sh v" if "v \<in> set (ps_workers ps')" and "v \<noteq> w" for v
      using others [OF True that(1)] that(2) worker_pub_quiet by blast
    consider s where "w_pc ?w = Set_Found s" | s where "w_pc ?w = Set_Nonce s" | s where "w_pc ?w = Set_Res s"
      using True by (cases "w_pc ?w") auto
    then show ?thesis
    proof cases
      case 1
      then have "sh = ?sh\<lparr>sh_found := True\<rparr>" "w = ?w\<lparr>w_pc := Set_Nonce s\<rparr>"
        using wa by (simp_all add: worker_action_def)
      then show ?thesis
        using none quiet by (intro all) (simp_all add: published_def worker_pub_def)
    next
      case 2
      then have "sh = ?sh\<lparr>sh_nonce := st_nonce (w_state ?w)\<rparr>" "w = ?w\<lparr>w_pc := Set_Res s\<rparr>"
        using wa by (simp_all add: worker_action_def)
      moreover have "sh_found ?sh"
        using pub_w 2 by (simp add: worker_pub_def)
      ultimately show ?thesis
        using none quiet by (intro all) (simp_all add: published_def worker_pub_def)
    next
      case 3
      then have sh: "sh = ?sh\<lparr>sh_res := Some (st_solution (w_state ?w), s)\<rparr>" "w = ?w\<lparr>w_pc := Returned\<rparr>"
        using wa by (simp_all add: worker_action_def)
      have flag: "sh_found ?sh" "sh_nonce ?sh = st_nonce (w_state ?w)"
        using pub_w 3 by (simp_all add: worker_pub_def)
      have "published L H k c0 sh"
        using sh(1) wok 3 flag(2) at_point_mined [of k ?w c0 s]
        by (auto simp: published_def worker_ok_def)
      then show ?thesis
        using sh flag quiet by (intro all) (simp_all add: worker_pub_def)
    qed
  qed
qed

lemma par_step_publish:
  assumes "par_step L H k grain ps ps'" and "exclusive ps"
    and "par_ok L H k c0 ps" and "publish_inv L H k c0 ps"
  shows "publish_inv L H k c0 ps'"
  using assms(1)
proof (cases rule: par_step.cases)
  case (act i)
  then show ?thesis
    using assms(2-) by (rule par_action_publish)
next
  case imported
  then show ?thesis
    using assms(4) by (auto simp: publish_inv_def published_def worker_pub_def)
qed

lemma excl_steps_publish:
  assumes "(excl_step L H k grain)\<^sup>*\<^sup>* ps ps'" and k: "key_ok k"
    and "exclusive ps" and "par_ok L H k c0 ps" and "publish_inv L H k c0 ps"
  shows "exclusive ps' \<and> par_ok L H k c0 ps' \<and> publish_inv L H k c0 ps'"
  using assms(1)
proof (induction rule: rtranclp_induct)
  case base
  then show ?case using assms(3-) by blast
next
  case (step ps1 ps2)
  then show ?case
    using par_step_publish par_step_ok [OF k] by (auto simp: excl_step_def)
qed

lemma exclusive_result_mined:
  assumes k: "key_ok k" and init: "par_init L k c0 seed flag cpus = Some ps"
    and run: "(excl_step L H k grain)\<^sup>*\<^sup>* ps ps'"
    and res: "par_result H ps' c0 = Some (Some sols, c)"
  shows "mined L H k c sols"
proof -
  have start: "par_ok L H k c0 ps" "\<forall>w \<in> set (ps_workers ps). w_pc w = Loop" "sh_res (ps_shared ps) = None"
    using par_init_ok [OF k, of c0 seed flag cpus] init by auto
  then have "exclusive ps" "publish_inv L H k c0 ps"
    by (auto simp: exclusive_def publish_inv_def published_def worker_pub_def)
  then have "published L H k c0 (ps_shared ps')"
    using excl_steps_publish [OF run k] start by (auto simp: publish_inv_def)
  then show ?thesis
    using res by (cases sols) (auto simp: par_result_def published_def bind_eq_Some_conv)
qed

end

text \<open>The schedules whose states all have at most one publishing worker.\<close>

fun exclusive_run ::
  "('r, 'z) libs_scheme \<Rightarrow> 'c hash_trait \<Rightarrow> public_key \<Rightarrow> u32 \<Rightarrow> event list \<Rightarrow> 'c par_state \<Rightarrow> bool" where
  "exclusive_run L H k grain [] ps \<longleftrightarrow> True"
| "exclusive_run L H k grain (e # es) ps \<longleftrightarrow>
     (case par_event L H k grain e ps of
        None \<Rightarrow> True
      | Some ps' \<Rightarrow> exclusive ps' \<and> exclusive_run L H k grain es ps')"

lemma exclusive_run_steps:
  "par_run L H k grain es ps = Some ps' \<Longrightarrow> exclusive_run L H k grain es ps \<Longrightarrow>
   (excl_step L H k grain)\<^sup>*\<^sup>* ps ps'"
proof (induction es arbitrary: ps)
  case Nil
  then show ?case by simp
next
  case (Cons e es)
  then obtain ps1 where ps1: "par_event L H k grain e ps = Some ps1"
      "par_run L H k grain es ps1 = Some ps'"
    by (auto simp: bind_eq_Some_conv)
  with Cons.prems(2) have ex: "exclusive ps1" "exclusive_run L H k grain es ps1"
    by simp_all
  from Cons.IH [OF ps1(2) ex(2)] par_event_steps [OF ps1(1)] ex(1) show ?case
    by (auto simp: excl_step_def intro: converse_rtranclp_into_rtranclp)
qed

context rho_walk
begin

lemma solve_parallel_cases:
  assumes "solve_parallel L H k c0 seed grain flag cpus sched = Some (r, c)"
  obtains ps ps' where "par_init L k c0 seed flag cpus = Some ps"
    and "par_run L H k grain sched ps = Some ps'" and "joined ps'"
    and "par_result H ps' c0 = Some (r, c)"
  using assms by (auto simp: solve_parallel_def bind_eq_Some_conv split: if_splits)

text \<open>In every schedule, a result is a pair of distinct solutions of one group element.\<close>

lemma solve_parallel_collision:
  assumes k: "key_ok k" and "solve_parallel L H k c0 seed grain flag cpus sched = Some (Some (s, t), c)"
  shows "collision k s t"
  using assms(2)
proof (rule solve_parallel_cases)
  fix ps ps'
  assume *: "par_init L k c0 seed flag cpus = Some ps" "par_run L H k grain sched ps = Some ps'"
    "par_result H ps' c0 = Some (Some (s, t), c)"
  then have "par_ok L H k c0 ps"
    using par_init_ok [OF k, of c0 seed flag cpus] by auto
  then have "par_ok L H k c0 ps'"
    using par_steps_ok [OF par_run_steps [OF *(2)] k] by blast
  then show ?thesis
    using *(3) by (auto simp: par_ok_def shared_ok_def par_result_def bind_eq_Some_conv)
qed

lemma solve_parallel_mined:
  assumes k: "key_ok k" and "solve_parallel L H k c0 seed grain flag cpus sched = Some (Some sols, c)"
    and ex: "\<And>ps. par_init L k c0 seed flag cpus = Some ps \<Longrightarrow> exclusive_run L H k grain sched ps"
  shows "mined L H k c sols"
  using assms(2)
proof (rule solve_parallel_cases)
  fix ps ps'
  assume *: "par_init L k c0 seed flag cpus = Some ps" "par_run L H k grain sched ps = Some ps'"
    "par_result H ps' c0 = Some (Some sols, c)"
  show ?thesis
    using exclusive_result_mined [OF k *(1) exclusive_run_steps [OF *(2) ex [OF *(1)]] *(3)] .
qed

lemma solve_parallel_same_header:
  assumes "solve_parallel L H k c0 seed grain flag cpus sched = Some (r, c)"
  shows "same_header H c c0"
  using assms
  by (rule solve_parallel_cases) (auto simp: par_result_def bind_eq_Some_conv same_header_set)

end

section \<open>A race between two workers\<close>

text \<open>
  Two workers with a collision in hand: both load the flag before either stores it, the first worker
  stores it and its nonce, the second worker stores its nonce and its pair, and the first one its pair.
\<close>

definition race :: "nat \<Rightarrow> nat \<Rightarrow> event list" where
  "race i j = [Act i, Act j, Act i, Act i, Act j, Act j, Act j, Act i]"

lemma race_run:
  assumes "i < length (ps_workers ps)" and "j < length (ps_workers ps)" and "i \<noteq> j"
    and "w_pc (ps_workers ps ! i) = Poll s" and "w_pc (ps_workers ps ! j) = Poll t" and "\<not> sh_found (ps_shared ps)"
  shows "par_run L H k grain (race i j) ps = Some \<lparr>
      ps_shared = (ps_shared ps)\<lparr>sh_found := True, sh_nonce := st_nonce (w_state (ps_workers ps ! j)),
        sh_res := Some (st_solution (w_state (ps_workers ps ! i)), s)\<rparr>,
      ps_workers = (ps_workers ps)[i := (ps_workers ps ! i)\<lparr>w_pc := Returned\<rparr>, j := (ps_workers ps ! j)\<lparr>w_pc := Returned\<rparr>]\<rparr>"
proof -
  let ?ws = "ps_workers ps"
  define both where "both sh p q = \<lparr>ps_shared = sh, ps_workers = ?ws[i := (?ws ! i)\<lparr>w_pc := p\<rparr>, j := (?ws ! j)\<lparr>w_pc := q\<rparr>]\<rparr>" for sh p q
  have act_i: "par_action L H k grain i (both sh p q) = Some (both sh' p' q)"
    if "\<And>lk. worker_action L H k grain lk sh ((?ws ! i)\<lparr>w_pc := p\<rparr>) = Some (sh', (?ws ! i)\<lparr>w_pc := p'\<rparr>)" for sh sh' p p' q
    using that assms(1-3) by (simp add: par_action_def both_def nth_list_update list_update_swap [of j i])
  have act_j: "par_action L H k grain j (both sh p q) = Some (both sh' p q')"
    if "\<And>lk. worker_action L H k grain lk sh ((?ws ! j)\<lparr>w_pc := q\<rparr>) = Some (sh', (?ws ! j)\<lparr>w_pc := q'\<rparr>)" for sh sh' p q q'
    using that assms(1-3) by (simp add: par_action_def both_def nth_list_update)
  have "(?ws ! i)\<lparr>w_pc := Poll s\<rparr> = ?ws ! i" "(?ws ! j)\<lparr>w_pc := Poll t\<rparr> = ?ws ! j"
    using assms(4,5) by (cases "?ws ! i"; cases "?ws ! j"; simp)+
  then have start: "ps = both (ps_shared ps) (Poll s) (Poll t)"
    by (cases ps) (simp add: both_def)
  let ?sh = "ps_shared ps" and ?n = "\<lambda>m. st_nonce (w_state (?ws ! m))"
  let ?sh2 = "?sh\<lparr>sh_found := True\<rparr>" and ?sh3 = "?sh\<lparr>sh_found := True, sh_nonce := ?n i\<rparr>"
  let ?sh4 = "?sh\<lparr>sh_found := True, sh_nonce := ?n j\<rparr>"
  let ?sh5 = "?sh4\<lparr>sh_res := Some (st_solution (w_state (?ws ! j)), t)\<rparr>"
  let ?sh6 = "?sh4\<lparr>sh_res := Some (st_solution (w_state (?ws ! i)), s)\<rparr>"
  have steps: "par_action L H k grain i (both ?sh (Poll s) (Poll t)) = Some (both ?sh (Set_Found s) (Poll t))"
      "par_action L H k grain j (both ?sh (Set_Found s) (Poll t)) = Some (both ?sh (Set_Found s) (Set_Found t))"
      "par_action L H k grain i (both ?sh (Set_Found s) (Set_Found t)) = Some (both ?sh2 (Set_Nonce s) (Set_Found t))"
      "par_action L H k grain i (both ?sh2 (Set_Nonce s) (Set_Found t)) = Some (both ?sh3 (Set_Res s) (Set_Found t))"
      "par_action L H k grain j (both ?sh3 (Set_Res s) (Set_Found t)) = Some (both ?sh3 (Set_Res s) (Set_Nonce t))"
      "par_action L H k grain j (both ?sh3 (Set_Res s) (Set_Nonce t)) = Some (both ?sh4 (Set_Res s) (Set_Res t))"
      "par_action L H k grain j (both ?sh4 (Set_Res s) (Set_Res t)) = Some (both ?sh5 (Set_Res s) Returned)"
      "par_action L H k grain i (both ?sh5 (Set_Res s) Returned) = Some (both ?sh6 Returned Returned)"
    by (rule act_i act_j; simp add: worker_action_def assms(6))+
  have "par_run L H k grain (race i j) (both ?sh (Poll s) (Poll t)) = Some (both ?sh6 Returned Returned)"
    by (simp only: race_def par_run.simps par_event.simps steps Option.bind.simps)
  then show ?thesis
    unfolding start [symmetric] by (simp add: both_def)
qed

lemma race_joined:
  assumes "i < length ws" and "j < length ws" and "i \<noteq> j"
    and "list_all (\<lambda>m. m = i \<or> m = j \<or> w_pc (ws ! m) = Returned) [0..<length ws]"
  shows "list_all (\<lambda>w. w_pc w = Returned) (ws[i := (ws ! i)\<lparr>w_pc := Returned\<rparr>, j := (ws ! j)\<lparr>w_pc := Returned\<rparr>])"
  unfolding list_all_length
proof (intro allI impI)
  fix m
  assume "m < length (ws[i := (ws ! i)\<lparr>w_pc := Returned\<rparr>, j := (ws ! j)\<lparr>w_pc := Returned\<rparr>])"
  then have "m < length ws"
    by simp
  moreover from this have "m = i \<or> m = j \<or> w_pc (ws ! m) = Returned"
    using assms(4) by (auto simp: list_all_iff)
  ultimately show "w_pc (ws[i := (ws ! i)\<lparr>w_pc := Returned\<rparr>, j := (ws ! j)\<lparr>w_pc := Returned\<rparr>] ! m) = Returned"
    using assms(1-3) by (cases "m = j"; cases "m = i") simp_all
qed

end
