(* ===== verification/Seal.thy ===== *)
theory Seal
  imports Keychain Parallel_Props
begin

text \<open>
  Mining and verifying a block: \<open>Seal::try_cpu_mining\<close>, and the two implementations of
  \<open>PowAlgorithm::verify\<close>, \<open>MinTREXAlgo\<close> and \<open>TREXAlgo\<close>, of \<open>consensus/trex-pow/src/lib.rs\<close>.
\<close>

section \<open>\<open>try_cpu_mining\<close>\<close>

definition MINING_GRAIN :: u32 where "MINING_GRAIN = 10000"

text \<open>
  The choice of the solver. The flag \<open>found\<close> is shared: \<open>obs\<close> holds the values \<open>solve_dist\<close> loads
  from it, and \<open>flag\<close> and \<open>sched\<close> are its value at the start and the schedule of \<open>solve_parallel\<close>.
\<close>

definition solve_on ::
  "('r, 'z) libs_scheme \<Rightarrow> 'c hash_trait \<Rightarrow> public_key \<Rightarrow> 'c \<Rightarrow> int \<Rightarrow> u8 option \<Rightarrow> (nat \<Rightarrow> bool) \<Rightarrow>
     bool \<Rightarrow> event list \<Rightarrow> (int solutions option \<times> 'c) option" where
  "solve_on L H puzzle compute seed cpus obs flag sched =
     (let dist = do {
        (r, c, stored) \<leftarrow> solve_dist L H puzzle compute seed MINING_GRAIN obs;
        Some (r, c) }
      in (case cpus of
            Some cpu_count \<Rightarrow>
              if 1 < cpu_count then solve_parallel L H puzzle compute seed MINING_GRAIN flag cpu_count sched
              else dist
          | None \<Rightarrow> dist))"

text \<open>\<open>keychain[(difficulty - MIN_DIFFICULTY) as usize]\<close>: the index wraps and may be out of bounds.\<close>

definition key_index :: "u128 \<Rightarrow> nat" where
  "key_index difficulty = unat (ucast (difficulty - MIN_DIFFICULTY) :: u64)"

definition puzzle_of :: "('r, 'z) trex_libs_scheme \<Rightarrow> seal \<Rightarrow> u128 \<Rightarrow> public_key option" where
  "puzzle_of L s difficulty =
     (let keychain = yield_pub_keys L (seal_seeds s)
      in if key_index difficulty < length keychain then Some (keychain ! key_index difficulty) else None)"

definition try_cpu_mining ::
  "('r, 'z) trex_libs_scheme \<Rightarrow> seal \<Rightarrow> compute \<Rightarrow> u256 \<Rightarrow> u8 option \<Rightarrow> (nat \<Rightarrow> bool) \<Rightarrow> bool \<Rightarrow>
     event list \<Rightarrow> (seal option \<times> compute) option" where
  "try_cpu_mining L self compute mining_seed cpus obs flag sched = do {
     let difficulty = cmp_difficulty compute;
     let keychain = yield_pub_keys L (seal_seeds self);
     new_pubkey \<leftarrow> puzzle_of L self difficulty;
     seeds \<leftarrow> new_seeds L 0 keychain (replicate SEEDS_LEN (U128 1));
     let seed = u256_bigint L mining_seed;
     (r, compute) \<leftarrow> solve_on L (blake3_compute L) new_pubkey compute seed cpus obs flag sched;
     (case r of
        None \<Rightarrow> Some (None, compute)
      | Some sols \<Rightarrow> do {
          sol_1 \<leftarrow> to_u256 L (fst sols);
          sol_2 \<leftarrow> to_u256 L (snd sols);
          Some (Some \<lparr>seal_difficulty = difficulty, seal_pubkey = to_raw L new_pubkey,
                      seal_seeds = seeds, seal_solutions = (sol_1, sol_2),
                      seal_nonce = get_nonce compute\<rparr>, compute) }) }"

section \<open>\<open>PowAlgorithm::verify\<close>\<close>

definition hash_meets_difficulty :: "u128 \<Rightarrow> u128 \<Rightarrow> bool" where
  "hash_meets_difficulty of_seal difficulty \<longleftrightarrow> of_seal = difficulty"

definition min_algo_difficulty :: u128 where "min_algo_difficulty = INIT_DIFFICULTY"

definition verify_seal ::
  "('r, 'z) trex_libs_scheme \<Rightarrow> h256 \<Rightarrow> seal \<Rightarrow> u128 \<Rightarrow> bool option" where
  "verify_seal L pre_hash s difficulty =
     (let header = \<lparr>cmp_difficulty = difficulty, cmp_pre_hash = pre_hash, cmp_nonce = seal_nonce s\<rparr>;
          pubkey = from_raw L (seal_pubkey s);
          solutions = (from_u256 L (fst (seal_solutions s)), from_u256 L (snd (seal_solutions s)))
      in verify L pubkey solutions header)"

definition min_verify ::
  "('r, 'z) trex_libs_scheme \<Rightarrow> h256 \<Rightarrow> bytes \<Rightarrow> u128 \<Rightarrow> bool option" where
  "min_verify L pre_hash raw_seal difficulty =
     (case decode_seal L raw_seal of
        None \<Rightarrow> Some False
      | Some s \<Rightarrow> verify_seal L pre_hash s difficulty)"

definition trex_verify ::
  "('r, 'z) trex_libs_scheme \<Rightarrow> h256 \<Rightarrow> bytes \<Rightarrow> u128 \<Rightarrow> bool option" where
  "trex_verify L pre_hash raw_seal difficulty =
     (case decode_seal L raw_seal of
        None \<Rightarrow> Some False
      | Some s \<Rightarrow>
          if \<not> hash_meets_difficulty (seal_difficulty s) difficulty then Some False
          else if \<not> hash_meets_difficulty (seal_difficulty s) (ucast (raw_bits (seal_pubkey s)))
          then Some False
          else verify_seal L pre_hash s difficulty)"

section \<open>The puzzle of a difficulty\<close>

lemma key_index_ok:
  assumes "difficulty_ok d"
  shows "key_index d = nat (uint d) - 48" and "key_index d < SEEDS_LEN"
proof -
  have d: "48 \<le> uint d" "uint d < 224"
    using assms by (simp_all add: difficulty_ok_def)
  have "uint (d - 48) = uint d - 48"
    using d by (simp add: uint_sub_if')
  then have "unat (d - 48) = nat (uint d - 48)"
    by (simp only: unat_eq_nat_uint)
  moreover have "nat (uint d - 48) < 2 ^ 64"
    using d by simp
  ultimately have "key_index d = nat (uint d - 48)"
    by (simp add: key_index_def MIN_DIFFICULTY_def unsigned_ucast_eq take_bit_nat_eq_self)
  then show "key_index d = nat (uint d) - 48" "key_index d < SEEDS_LEN"
    using d by (simp_all only: SEEDS_LEN_176)
qed

lemma key_index_top: "key_index MAX_DIFFICULTY = SEEDS_LEN"
  by (simp add: key_index_def difficulty_consts)

text \<open>The chain has no key for \<open>MAX_DIFFICULTY\<close>, the difficulty the runtime clamps to.\<close>

lemma puzzle_of_max: "length (seal_seeds s) = SEEDS_LEN \<Longrightarrow> puzzle_of L s MAX_DIFFICULTY = None"
  by (simp add: puzzle_of_def key_index_top del: SEEDS_LEN_176)

context trex_node
begin

lemma puzzle_of_ok:
  assumes "length (seal_seeds s) = SEEDS_LEN" and "difficulty_ok d"
  shows "\<exists>k. puzzle_of L s d = Some k \<and> key_ok k \<and> key_fits k \<and> uint (key_bits k) = uint d"
proof -
  let ?k = "yield_pub_keys L (seal_seeds s) ! key_index d"
  have i: "key_index d = nat (uint d) - 48" "key_index d < SEEDS_LEN"
    using key_index_ok [OF assms(2)] by blast+
  have "key_index d < 176"
    using i(2) by (simp only: SEEDS_LEN_176)
  then have "uint (key_bits ?k) = int (key_index d) + 48"
    using yield_pub_keys_ok(3) [OF assms(1) i(2)] uint_bit_length by (simp only:)
  also have "\<dots> = uint d"
    using i(1) assms(2) unfolding difficulty_ok_def by linarith
  finally show ?thesis
    using yield_pub_keys_ok [OF assms(1) i(2)] i(2) assms(1)
    by (intro exI [of _ ?k]) (simp add: puzzle_of_def)
qed

end

section \<open>What a mined seal contains\<close>

text \<open>Headers that agree up to the nonce carry the same difficulty and parent.\<close>

context pow_node
begin

lemma same_header_fields:
  assumes "same_header (blake3_compute L) c d"
  shows "cmp_difficulty c = cmp_difficulty d" and "cmp_pre_hash c = cmp_pre_hash d"
proof -
  have "c\<lparr>cmp_nonce := 0\<rparr> = d\<lparr>cmp_nonce := 0\<rparr>"
    using assms [unfolded same_header_def, rule_format, of 0]
    by (simp add: blake3_compute_def set_nonce_def bigint_u256_fits)
  then show "cmp_difficulty c = cmp_difficulty d" "cmp_pre_hash c = cmp_pre_hash d"
    by (cases c; cases d; simp)+
qed

lemma to_from_u256:
  assumes "exponents_ok k s" and "key_p k < 2 ^ 256" and "0 \<le> sol_n s" and "sol_n s < 2 ^ 256"
  shows "\<exists>t. to_u256 L s = Some t \<and> from_u256 L t = s"
  using assms
  by (simp add: to_u256_def from_u256_def exponents_ok_def bigint_u256_fits u256_bigint_uint
      uint_word_of_int)

lemma mined_to_u256:
  assumes "key_ok k" and "mined L H k c sols"
  shows "\<exists>t u. to_u256 L (fst sols) = Some t \<and> from_u256 L t = fst sols
    \<and> to_u256 L (snd sols) = Some u \<and> from_u256 L u = snd sols"
proof -
  have p: "2 < key_p k" "key_p k < 2 ^ 256"
    using assms(1) by (simp_all add: key_ok_def)
  have "exponents_ok k (fst sols)" "sol_n (fst sols) = (key_p k - 1) div 2"
    "exponents_ok k (snd sols)" "sol_n (snd sols) = (key_p k - 1) div 2"
    using assms(2) by (auto simp: mined_def walk_ok_def)
  with p show ?thesis
    using to_from_u256 [of k "fst sols"] to_from_u256 [of k "snd sols"] by simp
qed

end

text \<open>
  The solvers as \<open>try_cpu_mining\<close> calls them: a result of the single-threaded one, or of a schedule
  of the parallel one in which the workers publish one at a time, is mined.
\<close>

definition publishes_alone ::
  "('r, 'z) libs_scheme \<Rightarrow> 'c hash_trait \<Rightarrow> public_key \<Rightarrow> 'c \<Rightarrow> int \<Rightarrow> u8 option \<Rightarrow> bool \<Rightarrow> event list \<Rightarrow> bool"
where
  "publishes_alone L H k c seed cpus flag sched \<longleftrightarrow>
     (case cpus of
        None \<Rightarrow> True
      | Some v \<Rightarrow> 1 < v \<longrightarrow>
          (case par_init L k c seed flag v of
             None \<Rightarrow> True
           | Some ps \<Rightarrow> exclusive_run L H k MINING_GRAIN sched ps))"

context rho_walk
begin

lemma solve_on_mined:
  assumes k: "key_ok k" and r: "solve_on L H k c seed cpus obs flag sched = Some (r, c')"
    and alone: "publishes_alone L H k c seed cpus flag sched"
  shows "same_header H c' c \<and> (\<forall>sols. r = Some sols \<longrightarrow> mined L H k c' sols)"
proof -
  have dist: "same_header H c' c \<and> (\<forall>sols. r = Some sols \<longrightarrow> mined L H k c' sols)"
    if "do { (r, c, stored) \<leftarrow> solve_dist L H k c seed MINING_GRAIN obs; Some (r, c) } = Some (r, c')"
    using solve_dist_ok [OF k, of c seed MINING_GRAIN obs] that by auto
  have par: "same_header H c' c \<and> (\<forall>sols. r = Some sols \<longrightarrow> mined L H k c' sols)"
    if v: "cpus = Some v" "1 < v" "solve_parallel L H k c seed MINING_GRAIN flag v sched = Some (r, c')" for v
  proof (intro conjI allI impI)
    show "same_header H c' c"
      by (rule solve_parallel_same_header [OF v(3)])
    show "mined L H k c' sols" if "r = Some sols" for sols
    proof (rule solve_parallel_mined [OF k])
      show "solve_parallel L H k c seed MINING_GRAIN flag v sched = Some (Some sols, c')"
        using v(3) that by simp
      show "exclusive_run L H k MINING_GRAIN sched ps" if "par_init L k c seed flag v = Some ps" for ps
        using alone v(1,2) that by (simp add: publishes_alone_def)
    qed
  qed
  show ?thesis
    using r dist par by (auto simp: solve_on_def Let_def split: option.splits if_splits)
qed

lemma solve_on_total:
  assumes "key_ok k" and "cpus = None \<or> cpus = Some v \<and> v \<le> 1"
  shows "\<exists>r c'. solve_on L H k c seed cpus obs flag sched = Some (r, c')"
  using solve_dist_ok [OF assms(1), of c seed MINING_GRAIN obs] assms(2)
  by (auto simp: solve_on_def Let_def)

end

context trex_node
begin

lemma try_cpu_mining_SomeE:
  assumes "try_cpu_mining L s c mining_seed cpus obs flag sched = Some (Some new, c')"
  obtains k seeds sols t u where "puzzle_of L s (cmp_difficulty c) = Some k"
    and "new_seeds L 0 (yield_pub_keys L (seal_seeds s)) (replicate SEEDS_LEN (U128 1)) = Some seeds"
    and "solve_on L (blake3_compute L) k c (uint mining_seed) cpus obs flag sched = Some (Some sols, c')"
    and "to_u256 L (fst sols) = Some t" and "to_u256 L (snd sols) = Some u"
    and "new = \<lparr>seal_difficulty = cmp_difficulty c, seal_pubkey = to_raw L k, seal_seeds = seeds,
      seal_solutions = (t, u), seal_nonce = cmp_nonce c'\<rparr>"
  using assms
  by (simp add: try_cpu_mining_def bind_eq_Some_conv Let_def u256_bigint_uint get_nonce_def
      split: option.splits prod.splits) (auto simp: bind_eq_Some_conv)

text \<open>
  Mining never panics for a difficulty below the maximum: the exponents of a mined pair always fit
  the words of the seal.
\<close>

lemma try_cpu_mining_total:
  assumes "length (seal_seeds s) = SEEDS_LEN" and "difficulty_ok (cmp_difficulty c)"
    and "cpus = None \<or> cpus = Some v \<and> v \<le> 1"
  shows "\<exists>r c'. try_cpu_mining L s c mining_seed cpus obs flag sched = Some (r, c')"
proof -
  obtain k where k: "puzzle_of L s (cmp_difficulty c) = Some k" "key_ok k"
    using puzzle_of_ok [OF assms(1,2)] by blast
  obtain seeds where seeds:
    "new_seeds L 0 (yield_pub_keys L (seal_seeds s)) (replicate SEEDS_LEN (U128 1)) = Some seeds"
    using keychain_seeds_total [OF assms(1)] by blast
  obtain r c' where rc:
    "solve_on L (blake3_compute L) k c (uint mining_seed) cpus obs flag sched = Some (r, c')"
    using node.solve_on_total [OF k(2) assms(3)] by blast
  have alone: "publishes_alone L (blake3_compute L) k c (uint mining_seed) cpus flag sched"
    using assms(3) by (auto simp: publishes_alone_def)
  have m: "mined L (blake3_compute L) k c' sols" if "r = Some sols" for sols
    using node.solve_on_mined [OF k(2) rc alone] that by blast
  show ?thesis
  proof (cases r)
    case None
    then show ?thesis
      using k(1) seeds rc by (simp add: try_cpu_mining_def Let_def u256_bigint_uint)
  next
    case (Some sols)
    obtain t u where "to_u256 L (fst sols) = Some t" "to_u256 L (snd sols) = Some u"
      using mined_to_u256 [OF k(2) m [OF Some]] by blast
    then show ?thesis
      using k(1) seeds rc Some by (simp add: try_cpu_mining_def Let_def u256_bigint_uint)
  qed
qed

lemma mined_seal_verifies:
  assumes len: "length (seal_seeds s) = SEEDS_LEN" and d: "difficulty_ok (cmp_difficulty c)"
    and mine: "try_cpu_mining L s c mining_seed cpus obs flag sched = Some (Some new, c')"
    and alone: "\<And>k. puzzle_of L s (cmp_difficulty c) = Some k \<Longrightarrow>
      publishes_alone L (blake3_compute L) k c (uint mining_seed) cpus flag sched"
  shows "trex_verify L (cmp_pre_hash c) (encode_seal L new) (cmp_difficulty c) = Some True"
    and "min_verify L (cmp_pre_hash c) (encode_seal L new) (cmp_difficulty c) = Some True"
    and "length (seal_seeds new) = SEEDS_LEN"
proof -
  from mine obtain k seeds sols t u where
    k: "puzzle_of L s (cmp_difficulty c) = Some k"
    and seeds: "new_seeds L 0 (yield_pub_keys L (seal_seeds s)) (replicate SEEDS_LEN (U128 1)) = Some seeds"
    and sol: "solve_on L (blake3_compute L) k c (uint mining_seed) cpus obs flag sched = Some (Some sols, c')"
    and tu: "to_u256 L (fst sols) = Some t" "to_u256 L (snd sols) = Some u"
    and new: "new = \<lparr>seal_difficulty = cmp_difficulty c, seal_pubkey = to_raw L k, seal_seeds = seeds,
      seal_solutions = (t, u), seal_nonce = cmp_nonce c'\<rparr>"
    by (rule try_cpu_mining_SomeE)
  have key: "key_ok k" "key_fits k" "uint (key_bits k) = uint (cmp_difficulty c)"
    using puzzle_of_ok [OF len d] k by auto
  have m: "same_header (blake3_compute L) c' c" "mined L (blake3_compute L) k c' sols"
    using node.solve_on_mined [OF key(1) sol alone [OF k]] by simp_all
  have parsed: "from_u256 L t = fst sols" "from_u256 L u = snd sols"
    using mined_to_u256 [OF key(1) m(2)] tu by auto
  have hdr: "\<lparr>cmp_difficulty = cmp_difficulty c, cmp_pre_hash = cmp_pre_hash c, cmp_nonce = cmp_nonce c'\<rparr> = c'"
    using same_header_fields [OF m(1)] by (cases c') simp
  have v: "verify_seal L (cmp_pre_hash c) new (cmp_difficulty c) = Some True"
    using mined_verifies [OF key(1) m(2)] parsed hdr
    by (simp add: verify_seal_def new from_to_raw [OF key(2)])
  have "length seeds = SEEDS_LEN"
    using new_seeds_length [OF seeds] by simp
  then show len': "length (seal_seeds new) = SEEDS_LEN"
    by (simp add: new)
  have "ucast (key_bits k) = cmp_difficulty c"
    using key(3) d by (intro word_uint_eqI) (simp add: unsigned_ucast_eq take_bit_int_eq_self difficulty_ok_def)
  then show "trex_verify L (cmp_pre_hash c) (encode_seal L new) (cmp_difficulty c) = Some True"
    using v decode_encode_seal [OF len']
    by (simp add: trex_verify_def hash_meets_difficulty_def new to_raw_bits)
  show "min_verify L (cmp_pre_hash c) (encode_seal L new) (cmp_difficulty c) = Some True"
    using v decode_encode_seal [OF len'] by (simp add: min_verify_def)
qed

end

end
