(* ===== verification/Seal_Codec.thy ===== *)
theory Seal_Codec
  imports Seal
begin

text \<open>
  The reference instance of the external functions of a node, with the SCALE format of a seal as the
  derived codec writes it: fixed-width integers in little-endian order, the fields of a struct and
  the elements of an array one after the other, an enum as its index followed by its payload. The
  key generator of the instance always returns one small key. The interpretation \<open>ref_trex\<close> shows
  that the laws assumed of a node can be met.
\<close>

section \<open>A codec for seals\<close>

definition put_word :: "'a :: len word \<Rightarrow> bytes" where
  "put_word w = le_digits (LENGTH('a) div 8) (uint w)"

definition get_word :: "bytes \<Rightarrow> ('a :: len word \<times> bytes) option" where
  "get_word bs = (let k = LENGTH('a) div 8 in
     if length bs < k then None else Some (word_of_int (le_val (take k bs)), drop k bs))"

definition put_seed :: "raw_seed \<Rightarrow> bytes" where
  "put_seed s = (case s of U128 v \<Rightarrow> 0 # put_word v | U256 v \<Rightarrow> 1 # put_word v)"

definition get_seed :: "bytes \<Rightarrow> (raw_seed \<times> bytes) option" where
  "get_seed bs = (case bs of [] \<Rightarrow> None | b # bs \<Rightarrow>
     if b = 0 then do { (v, bs) \<leftarrow> get_word bs; Some (U128 v, bs) }
     else if b = 1 then do { (v, bs) \<leftarrow> get_word bs; Some (U256 v, bs) }
     else None)"

fun get_seeds :: "nat \<Rightarrow> bytes \<Rightarrow> (raw_seed list \<times> bytes) option" where
  "get_seeds 0 bs = Some ([], bs)"
| "get_seeds (Suc k) bs = do {
     (s, bs) \<leftarrow> get_seed bs;
     (ss, bs) \<leftarrow> get_seeds k bs;
     Some (s # ss, bs) }"

definition put_solution :: "u256 solution \<Rightarrow> bytes" where
  "put_solution s = put_word (sol_a s) @ put_word (sol_b s) @ put_word (sol_n s)"

definition get_solution :: "bytes \<Rightarrow> (u256 solution \<times> bytes) option" where
  "get_solution bs = do {
     (a, bs) \<leftarrow> get_word bs;
     (b, bs) \<leftarrow> get_word bs;
     (n, bs) \<leftarrow> get_word bs;
     Some (\<lparr>sol_a = a, sol_b = b, sol_n = n\<rparr>, bs) }"

definition put_key :: "raw_public_key \<Rightarrow> bytes" where
  "put_key k = put_word (raw_p k) @ put_word (raw_g k) @ put_word (raw_h k) @ put_word (raw_bits k)"

definition get_key :: "bytes \<Rightarrow> (raw_public_key \<times> bytes) option" where
  "get_key bs = do {
     (p, bs) \<leftarrow> get_word bs;
     (g, bs) \<leftarrow> get_word bs;
     (h, bs) \<leftarrow> get_word bs;
     (bits, bs) \<leftarrow> get_word bs;
     Some (\<lparr>raw_p = p, raw_g = g, raw_h = h, raw_bits = bits\<rparr>, bs) }"

definition put_seal :: "seal \<Rightarrow> bytes" where
  "put_seal s = put_word (seal_difficulty s) @ put_key (seal_pubkey s)
     @ concat (map put_seed (seal_seeds s))
     @ put_solution (fst (seal_solutions s)) @ put_solution (snd (seal_solutions s))
     @ put_word (seal_nonce s)"

definition get_seal :: "bytes \<Rightarrow> seal option" where
  "get_seal bs = do {
     (d, bs) \<leftarrow> get_word bs;
     (k, bs) \<leftarrow> get_key bs;
     (seeds, bs) \<leftarrow> get_seeds SEEDS_LEN bs;
     (s, bs) \<leftarrow> get_solution bs;
     (t, bs) \<leftarrow> get_solution bs;
     (n, bs) \<leftarrow> get_word bs;
     Some \<lparr>seal_difficulty = d, seal_pubkey = k, seal_seeds = seeds, seal_solutions = (s, t),
           seal_nonce = n\<rparr> }"

lemma get_put_word:
  "8 * (LENGTH('a) div 8) = LENGTH('a) \<Longrightarrow> get_word (put_word (w :: 'a :: len word) @ bs) = Some (w, bs)"
proof -
  assume len: "8 * (LENGTH('a) div 8) = LENGTH('a)"
  have "(256 :: int) ^ (LENGTH('a) div 8) = (2 ^ 8) ^ (LENGTH('a) div 8)"
    by simp
  also have "\<dots> = 2 ^ LENGTH('a)"
    by (simp only: power_mult [symmetric] len)
  finally have "uint w mod 256 ^ (LENGTH('a) div 8) = uint w"
    using uint_lt2p [of w] by simp
  then show ?thesis
    by (simp add: get_word_def put_word_def Let_def le_val_le_digits)
qed

lemma get_put_words [simp]:
  "get_word (put_word (w32 :: u32) @ bs) = Some (w32, bs)"
  "get_word (put_word (w128 :: u128) @ bs) = Some (w128, bs)"
  "get_word (put_word (w256 :: u256) @ bs) = Some (w256, bs)"
  "get_word (put_word (w256 :: u256)) = Some (w256, [])"
  using get_put_word [of w256 "[]"] by (simp_all add: get_put_word)

lemma get_put_seed: "get_seed (put_seed s @ bs) = Some (s, bs)"
  by (cases s) (simp_all add: get_seed_def put_seed_def)

lemma get_put_seeds: "get_seeds (length ss) (concat (map put_seed ss) @ bs) = Some (ss, bs)"
  by (induction ss) (simp_all add: get_put_seed)

lemma get_put_solution: "get_solution (put_solution s @ bs) = Some (s, bs)"
  by (simp add: get_solution_def put_solution_def)

lemma get_put_key: "get_key (put_key k @ bs) = Some (k, bs)"
  by (simp add: get_key_def put_key_def)

lemma get_put_seal: "length (seal_seeds s) = SEEDS_LEN \<Longrightarrow> get_seal (put_seal s) = Some s"
  using get_put_seeds [of "seal_seeds s"]
  by (simp add: get_seal_def put_seal_def get_put_key get_put_solution del: SEEDS_LEN_176)

lemma get_seeds_length: "get_seeds k bs = Some (ss, bs') \<Longrightarrow> length ss = k"
  by (induction k bs arbitrary: ss bs' rule: get_seeds.induct) (auto simp: bind_eq_Some_conv)

lemma get_seal_seeds: "get_seal bs = Some s \<Longrightarrow> length (seal_seeds s) = SEEDS_LEN"
  by (auto simp: get_seal_def bind_eq_Some_conv dest: get_seeds_length)

section \<open>The reference node\<close>

definition ref_key :: "u32 \<Rightarrow> public_key" where
  "ref_key bits = \<lparr>key_p = 11, key_g = 2, key_h = 7, key_bits = bits\<rparr>"

definition ref_trex_libs :: "int trex_libs" where
  "ref_trex_libs = pow_libs.extend ref_pow_libs
     \<lparr>from_raw = (\<lambda>r. \<lparr>key_p = uint (raw_p r), key_g = uint (raw_g r), key_h = uint (raw_h r),
                       key_bits = raw_bits r\<rparr>),
      to_raw = (\<lambda>k. \<lparr>raw_p = word_of_int (key_p k), raw_g = word_of_int (key_g k),
                     raw_h = word_of_int (key_h k), raw_bits = key_bits k\<rparr>),
      yield_seed = (\<lambda>k. (key_p k + key_g k + key_h k) mod 2 ^ 256),
      generate_pub_key = (\<lambda>r bits x. ref_key bits),
      encode_seal = put_seal,
      decode_seal = get_seal\<rparr>"

lemma ref_key_ok: "key_ok (ref_key bits)"
  by (simp add: key_ok_def ref_key_def)

lemma ref_key_fits: "key_fits (ref_key bits)"
  by (simp add: key_fits_def ref_key_def)

lemma ref_trex_libs_fields [simp]:
  "rem_euc ref_trex_libs = rem_euc ref_libs" "mod_u ref_trex_libs = mod_u ref_libs"
  "pow_mod ref_trex_libs = pow_mod ref_libs" "invert ref_trex_libs = invert ref_libs"
  "int_gcd ref_trex_libs = int_gcd ref_libs" "sqrt_int ref_trex_libs = sqrt_int ref_libs"
  "to_digits ref_trex_libs = to_digits ref_libs" "from_digits ref_trex_libs = from_digits ref_libs"
  "to_u128 ref_trex_libs = to_u128 ref_libs" "rand_new ref_trex_libs = rand_new ref_libs"
  "rand_seed ref_trex_libs = rand_seed ref_libs"
  "random_below ref_trex_libs = random_below ref_libs" "blake3 ref_trex_libs = blake3 ref_libs"
  "encode_compute ref_trex_libs = encode_compute ref_pow_libs"
  by (simp_all add: ref_trex_libs_def ref_pow_libs_def ref_libs_def libs.defs pow_libs.defs)

lemma ref_trex_libs_keys [simp]:
  "from_raw ref_trex_libs r = \<lparr>key_p = uint (raw_p r), key_g = uint (raw_g r), key_h = uint (raw_h r),
     key_bits = raw_bits r\<rparr>"
  "to_raw ref_trex_libs k = \<lparr>raw_p = word_of_int (key_p k), raw_g = word_of_int (key_g k),
     raw_h = word_of_int (key_h k), raw_bits = key_bits k\<rparr>"
  "yield_seed ref_trex_libs k = (key_p k + key_g k + key_h k) mod 2 ^ 256"
  "generate_pub_key ref_trex_libs rand bits x = ref_key bits"
  "encode_seal ref_trex_libs = put_seal" "decode_seal ref_trex_libs = get_seal"
  by (simp_all add: ref_trex_libs_def ref_pow_libs_def ref_libs_def libs.defs pow_libs.defs)

interpretation ref_trex: trex_node ref_trex_libs
proof (unfold_locales, goal_cases)
  case (1 m x) then show ?case by (simp add: ref_rug.rem_euc_pos)
next
  case (2 k x) then show ?case by (simp add: ref_rug.mod_u_pos)
next
  case (3 e m x) then show ?case by (simp add: ref_rug.pow_mod_pos)
next
  case (4 m x) then show ?case by (simp add: ref_rug.invert_coprime)
next
  case (5 m x) then show ?case by (simp add: ref_rug.invert_not_coprime)
next
  case (6 x y) then show ?case by (simp add: ref_rug.int_gcd_eq)
next
  case (7 x) then show ?case by (simp add: ref_rug.sqrt_lower)
next
  case (8 x) then show ?case by (simp add: ref_rug.sqrt_upper)
next
  case (9 x) then show ?case by (simp add: ref_rug.to_digits_val)
next
  case (10 x len) then show ?case by (simp add: ref_rug.to_digits_len)
next
  case (11 ds) then show ?case by (simp add: ref_rug.from_digits_val)
next
  case (12 x) then show ?case by (simp add: ref_rug.to_u128_fits)
next
  case (13 x) then show ?case by (simp add: ref_rug.to_u128_large)
next
  case (14 m r) then show ?case using ref_rug.random_below_pos [of m r] by simp
next
  case (15 m r) then show ?case by (simp add: ref_rug.random_below_nonpos)
next
  case (16 ds) then show ?case by (simp add: ref_rug.blake3_length)
next
  case (17 k) then show ?case by (cases k) (simp add: key_fits_def uint_word_of_int)
next
  case (18 k) then show ?case by simp
next
  case (19 bits r x) then show ?case
    using ref_key_ok [of bits] ref_key_fits [of bits] by (simp add: ref_key_def)
next
  case (20 k) then show ?case by simp
next
  case (21 s) then show ?case by (simp only: ref_trex_libs_keys get_put_seal)
next
  case (22 bs s) then show ?case by (simp only: ref_trex_libs_keys get_seal_seeds)
qed

end
