(* ===== verification/Frame.thy ===== *)
theory Frame
  imports Prelude
begin

text \<open>
  What the pallets use of Substrate: the checks of a dispatch origin, the currency, the items of a
  block digest, the weights of database accesses, and \<open>BTreeMap\<close>. The framework's functions are
  fields of records with their laws in locales; a \<open>BTreeMap\<close>, which is standard Rust, is a list of
  pairs with increasing keys.
\<close>

section \<open>Origins\<close>

record ('o, 'a) origin_ops =
  is_root :: "'o \<Rightarrow> bool"                  \<comment> \<open>\<open>ensure_root(origin)\<close> succeeds\<close>
  signer_of :: "'o \<Rightarrow> 'a option"           \<comment> \<open>\<open>ensure_signed(origin)\<close>, \<open>None\<close>: \<open>BadOrigin\<close>\<close>

datatype 'e dispatch_error = Bad_Origin | Module_Error 'e

definition ensure_root :: "('o, 'a) origin_ops \<Rightarrow> 'o \<Rightarrow> 'e dispatch_error + unit" where
  "ensure_root Q origin = (if is_root Q origin then Inr () else Inl Bad_Origin)"

definition ensure_signed :: "('o, 'a) origin_ops \<Rightarrow> 'o \<Rightarrow> 'e dispatch_error + 'a" where
  "ensure_signed Q origin =
     (case signer_of Q origin of Some who \<Rightarrow> Inr who | None \<Rightarrow> Inl Bad_Origin)"

definition bind_result :: "'e + 'a \<Rightarrow> ('a \<Rightarrow> 'e + 'b) \<Rightarrow> 'e + 'b" where
  "bind_result r f = (case r of Inl e \<Rightarrow> Inl e | Inr x \<Rightarrow> f x)"

lemma bind_result_simps [simp]: "bind_result (Inl e) f = Inl e" "bind_result (Inr x) f = f x"
  by (simp_all add: bind_result_def)

lemma bind_result_Inr: "bind_result r f = Inr y \<longleftrightarrow> (\<exists>x. r = Inr x \<and> f x = Inr y)"
  by (simp add: bind_result_def split: sum.split)

text \<open>The origins of a test runtime.\<close>

datatype 'a raw_origin = Root | Signed 'a | Unsigned

definition raw_origin_ops :: "('a raw_origin, 'a) origin_ops" where
  "raw_origin_ops =
     \<lparr>is_root = (\<lambda>origin. case origin of Root \<Rightarrow> True | _ \<Rightarrow> False),
      signer_of = (\<lambda>origin. case origin of Signed who \<Rightarrow> Some who | _ \<Rightarrow> None)\<rparr>"

lemma raw_origin_ops_simps [simp]:
  "is_root raw_origin_ops Root" "\<not> is_root raw_origin_ops (Signed who)"
  "signer_of raw_origin_ops (Signed who) = Some who" "signer_of raw_origin_ops Root = None"
  by (simp_all add: raw_origin_ops_def)

section \<open>Currency\<close>

record ('a, 'c) currency_ops =
  minimum_balance :: u128
  free_balance :: "'c \<Rightarrow> 'a \<Rightarrow> u128"
  deposit_creating :: "'a \<Rightarrow> u128 \<Rightarrow> 'c \<Rightarrow> 'c"

text \<open>
  \<open>deposit_creating\<close> credits the account, creating it if need be, when the value is at least the
  minimum balance and the balance does not overflow; no other account changes.
\<close>

locale currency =
  fixes C :: "('a, 'c) currency_ops"
  assumes deposit_credits:
      "minimum_balance C \<le> v \<Longrightarrow> uint (free_balance C c who) + uint v < 2 ^ 128 \<Longrightarrow>
       free_balance C (deposit_creating C who v c) who = free_balance C c who + v"
    and deposit_others:
      "other \<noteq> who \<Longrightarrow> free_balance C (deposit_creating C who v c) other = free_balance C c other"
begin

lemma deposit_uint:
  assumes "minimum_balance C \<le> v" and "uint (free_balance C c who) + uint v < 2 ^ 128"
  shows "uint (free_balance C (deposit_creating C who v c) who) = uint (free_balance C c who) + uint v"
  using assms by (simp add: deposit_credits uint_plus_if')

end

definition balances_ops :: "u128 \<Rightarrow> ('a, 'a \<Rightarrow> u128) currency_ops" where
  "balances_ops existential_deposit =
     \<lparr>minimum_balance = existential_deposit,
      free_balance = (\<lambda>c who. c who),
      deposit_creating = (\<lambda>who v c.
        if existential_deposit \<le> v \<and> uint (c who) + uint v < 2 ^ 128 then c(who := c who + v) else c)\<rparr>"

interpretation balances: currency "balances_ops existential_deposit"
  by unfold_locales (simp_all add: balances_ops_def)

section \<open>Digests\<close>

datatype digest_item =
    Pre_Runtime bytes bytes
  | Consensus_Item bytes bytes
  | Seal_Item bytes bytes
  | Other_Item bytes

definition as_pre_runtime :: "digest_item \<Rightarrow> (bytes \<times> bytes) option" where
  "as_pre_runtime item = (case item of Pre_Runtime i d \<Rightarrow> Some (i, d) | _ \<Rightarrow> None)"

definition as_seal :: "digest_item \<Rightarrow> (bytes \<times> bytes) option" where
  "as_seal item = (case item of Seal_Item i d \<Rightarrow> Some (i, d) | _ \<Rightarrow> None)"

text \<open>\<open>POW_ENGINE_ID\<close>, the bytes of \<open>pow_\<close>.\<close>

definition POW_ENGINE_ID :: bytes where "POW_ENGINE_ID = [112, 111, 119, 95]"

fun first_some :: "('a \<Rightarrow> 'b option) \<Rightarrow> 'a list \<Rightarrow> 'b option" where
  "first_some f [] = None"
| "first_some f (x # xs) = (case f x of Some y \<Rightarrow> Some y | None \<Rightarrow> first_some f xs)"

section \<open>\<open>BTreeMap\<close>\<close>

type_synonym ('k, 'v) btree_map = "('k \<times> 'v) list"

fun btree_insert :: "'k :: linorder \<Rightarrow> 'v \<Rightarrow> ('k, 'v) btree_map \<Rightarrow> ('k, 'v) btree_map" where
  "btree_insert k v [] = [(k, v)]"
| "btree_insert k v ((k', v') # m) =
     (if k < k' then (k, v) # (k', v') # m
      else if k = k' then (k, v) # m
      else (k', v') # btree_insert k v m)"

definition btree_from_list :: "('k :: linorder \<times> 'v) list \<Rightarrow> ('k, 'v) btree_map" where
  "btree_from_list kvs = fold (\<lambda>(k, v) m. btree_insert k v m) kvs []"

definition btree_range_to :: "'k :: linorder \<Rightarrow> ('k, 'v) btree_map \<Rightarrow> ('k \<times> 'v) list" where
  "btree_range_to hi m = filter (\<lambda>(k, v). k \<le> hi) m"

definition btree_ok :: "('k :: linorder, 'v) btree_map \<Rightarrow> bool" where
  "btree_ok m \<longleftrightarrow> sorted_wrt (<) (map fst m)"

lemma btree_insert_keys: "set (map fst (btree_insert k v m)) = insert k (set (map fst m))"
  by (induction k v m rule: btree_insert.induct) auto

lemma btree_insert_ok: "btree_ok m \<Longrightarrow> btree_ok (btree_insert k v m)"
proof (induction k v m rule: btree_insert.induct)
  case (2 k v k' v' m)
  then show ?case
    using btree_insert_keys [of k v m] by (auto simp: btree_ok_def)
qed (simp add: btree_ok_def)

lemma btree_insert_lookup:
  "btree_ok m \<Longrightarrow> map_of (btree_insert k v m) = (map_of m)(k \<mapsto> v)"
proof (induction k v m rule: btree_insert.induct)
  case (2 k v k' v' m)
  then show ?case by (auto simp: btree_ok_def fun_eq_iff)
qed simp

lemma fold_insert_ok: "btree_ok m \<Longrightarrow> btree_ok (fold (\<lambda>(k, v) m. btree_insert k v m) kvs m)"
  by (induction kvs arbitrary: m) (auto simp: btree_insert_ok)

lemma fold_insert_lookup:
  "btree_ok m \<Longrightarrow> map_of (fold (\<lambda>(k, v) m. btree_insert k v m) kvs m) = map_of m ++ map_of (rev kvs)"
  by (induction kvs arbitrary: m)
    (auto simp: btree_insert_ok btree_insert_lookup map_add_def fun_eq_iff split: option.splits)

lemma btree_from_list_ok: "btree_ok (btree_from_list kvs)"
  unfolding btree_from_list_def by (rule fold_insert_ok) (simp add: btree_ok_def)

text \<open>Of several values for a key the last one stays.\<close>

lemma btree_from_list_lookup: "map_of (btree_from_list kvs) = map_of (rev kvs)"
  using fold_insert_lookup [of "[]" kvs] by (simp add: btree_from_list_def btree_ok_def)

section \<open>Weights\<close>

type_synonym weight = u64

record db_weight =
  db_read :: weight
  db_write :: weight

definition sat_mul :: "u64 \<Rightarrow> u64 \<Rightarrow> u64" where
  "sat_mul x y = (if 2 ^ 64 \<le> uint x * uint y then - 1 else x * y)"

definition db_reads :: "db_weight \<Rightarrow> u64 \<Rightarrow> weight" where "db_reads D n = sat_mul (db_read D) n"
definition db_writes :: "db_weight \<Rightarrow> u64 \<Rightarrow> weight" where "db_writes D n = sat_mul (db_write D) n"

end
