(* ===== verification/Mining.thy ===== *)
theory Mining
  imports Seal_Codec Frame
begin

text \<open>
  The mining thread of the node (\<open>node/src/service.rs\<close>), the seed it starts from
  (\<open>node/src/mining.rs\<close>), the choice of the author (\<open>decode_author\<close>) and the block import that
  stops the workers (\<open>consensus/trex-pow/src/distributed.rs\<close>).
\<close>

section \<open>The initial seed\<close>

fun pop_times :: "nat \<Rightarrow> 'a list \<Rightarrow> 'a list" where
  "pop_times 0 v = v"
| "pop_times (Suc k) v = pop_times k (butlast v)"

text \<open>\<open>peer_id\<close> is the result of \<open>into_keypair\<close> and the bytes of the peer id; \<open>len() - 32\<close> wraps.\<close>

definition generate_mining_seed :: "'e + bytes \<Rightarrow> ('e + u256) option" where
  "generate_mining_seed peer_id =
     (case peer_id of
        Inl e \<Rightarrow> Some (Inl e)
      | Inr local_peer_vec \<Rightarrow> do {
          let max_number = (of_nat (length local_peer_vec) - 32 :: u64);
          let local_peer_vec = pop_times (unat max_number) local_peer_vec;
          mining_key \<leftarrow> u256_from_le local_peer_vec;
          Some (Inr mining_key) })"

definition initial_seed :: "'e + bytes \<Rightarrow> u256 option" where
  "initial_seed peer_id = do {
     r \<leftarrow> generate_mining_seed peer_id;
     Some (case r of Inr seed \<Rightarrow> seed | Inl e \<Rightarrow> 1) }"

lemma pop_times_take: "pop_times k v = take (length v - k) v"
  by (induction k v rule: pop_times.induct) (auto simp: butlast_conv_take take_take)

lemma generate_mining_seed_ok:
  assumes "32 \<le> length v" and "length v < 2 ^ 64"
  shows "generate_mining_seed (Inr v) = Some (Inr (word_of_int (le_val (take 32 v))))"
proof -
  have "of_nat (length v) - 32 = (of_nat (length v - 32) :: u64)"
    using assms(1) by (simp add: of_nat_diff)
  then have "unat (of_nat (length v) - 32 :: u64) = length v - 32"
    using assms unat_of_nat_small [of "length v - 32", where 'a = 64] by (simp only:) simp
  then have "pop_times (unat (of_nat (length v) - 32 :: u64)) v = take 32 v"
    using assms(1) by (simp only: pop_times_take) simp
  then show ?thesis
    using assms(1) by (simp add: generate_mining_seed_def u256_from_le_def Let_def)
qed

section \<open>The seal of the best block\<close>

record 'h blockchain =
  bc_best_hash :: 'h
  bc_best_number :: u32
  bc_header :: "'h \<Rightarrow> digest_item list option option"   \<comment> \<open>\<open>None\<close>: the backend fails, \<open>.unwrap()\<close> panics\<close>

fun pop_seal ::
  "('r, 'z) trex_libs_scheme \<Rightarrow> digest_item list \<Rightarrow> seal option option" where
  "pop_seal L [] = Some None"
| "pop_seal L (item # items) =
     (case as_seal item of
        Some (engine, coded_seal) \<Rightarrow> do { s \<leftarrow> decode_seal L coded_seal; Some (Some s) }
      | None \<Rightarrow> pop_seal L items)"

definition find_seal ::
  "('r, 'z) trex_libs_scheme \<Rightarrow> 'h blockchain \<Rightarrow> (seal option \<times> u32) option" where
  "find_seal L bc =
     (if bc_best_number bc = 0 then Some (Some (genesis_seal INIT_DIFFICULTY), bc_best_number bc)
      else do {
        header \<leftarrow> bc_header bc (bc_best_hash bc);
        (case header of
           Some digest \<Rightarrow> do { s \<leftarrow> pop_seal L (rev digest); Some (s, bc_best_number bc) }
         | None \<Rightarrow> Some (None, bc_best_number bc)) })"

section \<open>The loop\<close>

record mining_state =
  mn_seed :: u256
  mn_number :: u32

text \<open>
  What an iteration finds outside: the metadata of the block being built, the chain, and how the
  workers and imports interleave while it mines.
\<close>

record 'h mining_env =
  env_metadata :: "(u128 \<times> h256) option"
  env_chain :: "'h blockchain"
  env_obs :: "nat \<Rightarrow> bool"
  env_sched :: "event list"

datatype mining_outcome = Slept | Failed | Submitted bytes

definition mining_init :: "'e + bytes \<Rightarrow> mining_state option" where
  "mining_init peer_id = do {
     seed \<leftarrow> initial_seed peer_id;
     Some \<lparr>mn_seed = seed, mn_number = 0\<rparr> }"

definition next_seed :: "u256 \<Rightarrow> u256" where
  "next_seed seed = (let seed = sat_add seed 1 in if seed = - 1 then 0 else seed)"

definition mining_step ::
  "('r, 'z) trex_libs_scheme \<Rightarrow> u8 option \<Rightarrow> 'h mining_env \<Rightarrow> mining_state \<Rightarrow>
     (mining_state \<times> mining_outcome) option" where
  "mining_step L cpus env st = do {
     (s, current_number) \<leftarrow> find_seal L (env_chain env);
     (case (env_metadata env, s) of
        (Some (difficulty, pre_hash), Some s) \<Rightarrow>
          if mn_number st \<noteq> 0 \<and> mn_number st = current_number then Some (st, Slept)
          else do {
            let compute = \<lparr>cmp_difficulty = difficulty, cmp_pre_hash = pre_hash, cmp_nonce = 1\<rparr>;
            let st = st\<lparr>mn_number := current_number\<rparr>;
            (r, compute) \<leftarrow> try_cpu_mining L s compute (mn_seed st) cpus (env_obs env) False (env_sched env);
            (case r of
               Some new \<Rightarrow> Some (st\<lparr>mn_seed := 1\<rparr>, Submitted (encode_seal L new))
             | None \<Rightarrow> Some (st\<lparr>mn_seed := next_seed (mn_seed st)\<rparr>, Failed)) }
      | _ \<Rightarrow> Some (st, Slept)) }"

fun mining_run ::
  "('r, 'z) trex_libs_scheme \<Rightarrow> u8 option \<Rightarrow> 'h mining_env list \<Rightarrow> mining_state \<Rightarrow>
     (mining_state \<times> mining_outcome list) option" where
  "mining_run L cpus [] st = Some (st, [])"
| "mining_run L cpus (env # envs) st = do {
     (st, out) \<leftarrow> mining_step L cpus env st;
     (st, outs) \<leftarrow> mining_run L cpus envs st;
     Some (st, out # outs) }"

section \<open>Block import\<close>

text \<open>\<open>inner\<close> is the wrapped import; the flag \<open>found\<close> is set before it runs.\<close>

record ('b, 'r, 'p, 'q) block_import_ops =
  inner_check :: "'p \<Rightarrow> 'q"
  inner_import :: "'b \<Rightarrow> 'r"

definition dist_check_block :: "('b, 'r, 'p, 'q) block_import_ops \<Rightarrow> 'p \<Rightarrow> bool \<Rightarrow> bool \<times> 'q" where
  "dist_check_block I block found = (found, inner_check I block)"

definition dist_import_block :: "('b, 'r, 'p, 'q) block_import_ops \<Rightarrow> 'b \<Rightarrow> bool \<Rightarrow> bool \<times> 'r" where
  "dist_import_block I block found = (True, inner_import I block)"

lemma import_event_is_dist_import:
  "par_event L H k grain Import ps =
     Some (ps\<lparr>ps_shared := (ps_shared ps)\<lparr>sh_found := fst (dist_import_block I block (sh_found (ps_shared ps)))\<rparr>\<rparr>)"
  by (simp add: dist_import_block_def)

section \<open>The author\<close>

record 'k author_ops =
  h256_from_str :: "string \<Rightarrow> h256 option"
  unchecked_from :: "h256 \<Rightarrow> 'k"
  from_ss58check :: "string \<Rightarrow> 'k option"
  generate_pair :: "'k \<times> string"                        \<comment> \<open>the public key and the seed phrase\<close>
  insert_unknown :: "string \<Rightarrow> 'k \<Rightarrow> (string + unit)"

definition decode_author :: "('k, 'z) author_ops_scheme \<Rightarrow> string option \<Rightarrow> string + 'k" where
  "decode_author A author =
     (case author of
        Some author \<Rightarrow>
          if take 2 author = ''0x'' then
            (case h256_from_str A (drop 2 author) of
               Some h \<Rightarrow> Inr (unchecked_from A h)
             | None \<Rightarrow> Inl ''Invalid author account'')
          else
            (case from_ss58check A author of
               Some address \<Rightarrow> Inr address
             | None \<Rightarrow> Inl ''Invalid author address'')
      | None \<Rightarrow>
          (let (pair, phrase) = generate_pair A
           in case insert_unknown A phrase pair of
                Inr _ \<Rightarrow> Inr pair
              | Inl e \<Rightarrow> Inl (''Registering mining key failed: '' @ e)))"

section \<open>Seals along the chain\<close>

lemma pop_seal_last:
  "decode_seal L coded = Some s \<Longrightarrow> find_seal L bc = Some (Some s, bc_best_number bc)"
  if "bc_best_number bc \<noteq> 0" and "bc_header bc (bc_best_hash bc) = Some (Some (logs @ [Seal_Item engine coded]))"
  using that by (simp add: find_seal_def as_seal_def)

text \<open>An iteration that mines, and one that rests.\<close>

definition rests :: "mining_state \<Rightarrow> u32 \<Rightarrow> bool" where
  "rests st num \<longleftrightarrow> mn_number st \<noteq> 0 \<and> mn_number st = num"

lemma mining_step_rests:
  "find_seal L (env_chain env) = Some (s, num) \<Longrightarrow> rests st num \<Longrightarrow>
   mining_step L cpus env st = Some (st, Slept)"
  by (auto simp: mining_step_def rests_def split: option.split)

lemma mining_step_mines:
  assumes "find_seal L (env_chain env) = Some (Some s, num)" and "\<not> rests st num"
    and "env_metadata env = Some (difficulty, pre_hash)"
  shows "mining_step L cpus env st = do {
      (r, c) \<leftarrow> try_cpu_mining L s \<lparr>cmp_difficulty = difficulty, cmp_pre_hash = pre_hash, cmp_nonce = 1\<rparr>
        (mn_seed st) cpus (env_obs env) False (env_sched env);
      (case r of
         Some new \<Rightarrow> Some (\<lparr>mn_seed = 1, mn_number = num\<rparr>, Submitted (encode_seal L new))
       | None \<Rightarrow> Some (\<lparr>mn_seed = next_seed (mn_seed st), mn_number = num\<rparr>, Failed)) }"
proof -
  have eq: "st\<lparr>mn_number := num, mn_seed := x\<rparr> = \<lparr>mn_seed = x, mn_number = num\<rparr>" for x
    by (cases st) simp
  have seed: "mn_seed (st\<lparr>mn_number := num\<rparr>) = mn_seed st"
    by (cases st) simp
  have nr: "\<not> (mn_number st \<noteq> 0 \<and> mn_number st = num)"
    using assms(2) by (simp add: rests_def)
  show ?thesis
    unfolding mining_step_def Let_def assms(1,3)
    by (simp only: Option.bind.simps prod.case option.case nr if_False eq seed)
qed

lemma mining_step_SubmittedE:
  assumes step: "mining_step L cpus env st = Some (st', Submitted coded)"
    and md: "env_metadata env = Some (difficulty, pre_hash)"
  obtains s num new c' where "find_seal L (env_chain env) = Some (Some s, num)"
    and "try_cpu_mining L s \<lparr>cmp_difficulty = difficulty, cmp_pre_hash = pre_hash, cmp_nonce = 1\<rparr>
      (mn_seed st) cpus (env_obs env) False (env_sched env) = Some (Some new, c')"
    and "coded = encode_seal L new" and "st' = \<lparr>mn_seed = 1, mn_number = num\<rparr>"
proof -
  obtain so num where fs: "find_seal L (env_chain env) = Some (so, num)"
    using step by (cases "find_seal L (env_chain env)") (auto simp: mining_step_def)
  then have nr: "\<not> rests st num"
    using step mining_step_rests [OF fs, of st cpus] by auto
  obtain s where s: "so = Some s"
    using step fs md by (cases so) (auto simp: mining_step_def)
  have fs': "find_seal L (env_chain env) = Some (Some s, num)"
    using fs s by simp
  show ?thesis
    using step mining_step_mines [OF fs' nr md, of cpus]
    by (auto simp: bind_eq_Some_conv split: option.splits intro: that [OF fs'])
qed

lemma mining_step_FailedD:
  assumes "mining_step L cpus env st = Some (st', Failed)"
  shows "\<exists>s. find_seal L (env_chain env) = Some (s, mn_number st') \<and> mn_seed st' = next_seed (mn_seed st)"
proof -
  obtain so num where fs: "find_seal L (env_chain env) = Some (so, num)"
    using assms by (cases "find_seal L (env_chain env)") (auto simp: mining_step_def)
  then have nr: "\<not> rests st num"
    using assms mining_step_rests [OF fs, of st cpus] by auto
  obtain s d h where s: "so = Some s" and md: "env_metadata env = Some (d, h)"
    using assms fs by (cases so; cases "env_metadata env") (auto simp: mining_step_def)
  have fs': "find_seal L (env_chain env) = Some (Some s, num)"
    using fs s by simp
  show ?thesis
    using assms fs mining_step_mines [OF fs' nr md, of cpus]
    by (auto simp: bind_eq_Some_conv split: option.splits)
qed

text \<open>
  After an attempt above height 0 that found nothing, the thread rests for as long as the best block
  has the same number: a node makes one attempt per height.
\<close>

lemma failed_then_rests:
  assumes "mining_step L cpus env st = Some (st', Failed)" and "mn_number st' \<noteq> 0"
    and "find_seal L (env_chain env') = Some (s, mn_number st')"
  shows "mining_step L cpus env' st' = Some (st', Slept)"
  using mining_step_rests [OF assms(3)] assms(2) by (simp add: rests_def)

lemma failed_rests_forever:
  assumes "mining_step L cpus env st = Some (st', Failed)" and "mn_number st' \<noteq> 0"
    and "\<forall>e \<in> set envs. \<exists>s. find_seal L (env_chain e) = Some (s, mn_number st')"
  shows "mining_run L cpus envs st' = Some (st', replicate (length envs) Slept)"
  using assms(3)
proof (induction envs)
  case Nil
  then show ?case by simp
next
  case (Cons e envs)
  then obtain s where "find_seal L (env_chain e) = Some (s, mn_number st')"
    by auto
  then have "mining_step L cpus e st' = Some (st', Slept)"
    by (rule failed_then_rests [OF assms(1,2)])
  then show ?case
    using Cons by simp
qed

context trex_node
begin

lemma pop_seal_seeds: "pop_seal L items = Some (Some s) \<Longrightarrow> length (seal_seeds s) = SEEDS_LEN"
  by (induction items) (auto simp: bind_eq_Some_conv decode_seal_seeds split: option.splits)

lemma find_seal_seeds: "find_seal L bc = Some (Some s, num) \<Longrightarrow> length (seal_seeds s) = SEEDS_LEN"
  by (auto simp: find_seal_def genesis_seal_seeds pop_seal_seeds bind_eq_Some_conv
      split: if_splits option.splits)

text \<open>Whatever the single-threaded node submits passes the verifier, and can be mined on.\<close>

lemma submitted_verifies:
  assumes step: "mining_step L cpus env st = Some (st', Submitted coded)"
    and md: "env_metadata env = Some (difficulty, pre_hash)" "difficulty_ok difficulty"
    and cpus: "cpus = None \<or> cpus = Some v \<and> v \<le> 1"
  shows "trex_verify L pre_hash coded difficulty = Some True"
    and "\<exists>new. decode_seal L coded = Some new \<and> length (seal_seeds new) = SEEDS_LEN"
proof -
  from step md(1) obtain s num new c' where s: "find_seal L (env_chain env) = Some (Some s, num)"
    and mine: "try_cpu_mining L s \<lparr>cmp_difficulty = difficulty, cmp_pre_hash = pre_hash, cmp_nonce = 1\<rparr>
      (mn_seed st) cpus (env_obs env) False (env_sched env) = Some (Some new, c')"
    and coded: "coded = encode_seal L new"
    by (rule mining_step_SubmittedE)
  have len: "length (seal_seeds s) = SEEDS_LEN"
    by (rule find_seal_seeds [OF s])
  note v = mined_seal_verifies [OF len _ mine, simplified, OF md(2)]
  have alone: "publishes_alone L (blake3_compute L) k c seed cpus False sched" for k c seed sched
    using cpus by (auto simp: publishes_alone_def)
  show "trex_verify L pre_hash coded difficulty = Some True"
    using v(1) alone by (simp add: coded)
  show "\<exists>new. decode_seal L coded = Some new \<and> length (seal_seeds new) = SEEDS_LEN"
    using v(3) alone decode_encode_seal by (auto simp: coded)
qed

end

end
