(* ===== verification/Key_Recovery.thy ===== *)
theory Key_Recovery
  imports Verifier
begin

text \<open>
  What a collision is worth: the linear congruence \<open>eqs_solvers\<close> solves, and the private key
  \<open>key_gen\<close> returns, over a key whose generator has full order. Also what the verifier's check of
  "distinct" solutions does not rule out.
\<close>

text \<open>\<open>x\<close> is the discrete logarithm of \<open>h\<close>, to a generator \<open>g\<close> of order \<open>p - 1\<close>.\<close>

definition full_order :: "public_key \<Rightarrow> bool" where
  "full_order k \<longleftrightarrow> (\<forall>e. key_g k ^ e mod key_p k = 1 \<longrightarrow> nat (key_p k - 1) dvd e)"

definition secret :: "public_key \<Rightarrow> int \<Rightarrow> bool" where
  "secret k x \<longleftrightarrow> 0 \<le> x \<and> key_h k = key_g k ^ nat x mod key_p k"

section \<open>Exponents of equal powers agree modulo the order\<close>

lemma power_cancel_mod:
  fixes g p :: int
  assumes unit: "g ^ m mod p = 1" and "1 < p" and "0 < m" and le: "i \<le> j"
    and eq: "g ^ i mod p = g ^ j mod p"
  shows "g ^ (j - i) mod p = 1"
proof -
  obtain q where q: "i \<le> m * q"
    using \<open>0 < m\<close> by (metis mult.commute mult.right_neutral mult_le_mono2 Suc_leI One_nat_def le_refl)
  have one: "g ^ (m * q) mod p = 1"
    using unit \<open>1 < p\<close> by (metis mod_pos_pos_trivial power_mod power_mult power_one zero_le_one)
  have "g ^ (m * q) * g ^ (j - i) mod p = g ^ (m * q - i) * g ^ j mod p"
    using q le by (simp flip: power_add)
  also have "\<dots> = g ^ (m * q - i) * g ^ i mod p"
    using eq by (metis mod_mult_right_eq)
  also have "\<dots> = 1"
    using q one by (simp flip: power_add)
  finally show ?thesis
    using one by (metis mod_mult_left_eq mult_1)
qed

lemma exponents_agree:
  assumes k: "key_ok k" and ord: "full_order k" and eq: "key_g k ^ i mod key_p k = key_g k ^ j mod key_p k"
  shows "int i mod (key_p k - 1) = int j mod (key_p k - 1)"
proof -
  have p: "2 < key_p k" and unit: "key_g k ^ nat (key_p k - 1) mod key_p k = 1"
    using k by (auto simp: key_ok_def)
  have half: "int u mod (key_p k - 1) = int v mod (key_p k - 1)"
    if "u \<le> v" and "key_g k ^ u mod key_p k = key_g k ^ v mod key_p k" for u v
  proof -
    have "key_g k ^ (v - u) mod key_p k = 1"
      by (rule power_cancel_mod [OF unit _ _ that]) (use p in auto)
    then have "nat (key_p k - 1) dvd v - u"
      using ord by (simp add: full_order_def)
    then obtain q where "v - u = nat (key_p k - 1) * q"
      by (elim dvdE)
    then have "int v = int u + int (nat (key_p k - 1)) * int q"
      using that(1) by (metis le_add_diff_inverse of_nat_add of_nat_mult)
    then show ?thesis
      using p by simp
  qed
  show ?thesis
  proof (cases "i \<le> j")
    case True
    then show ?thesis using eq by (rule half)
  next
    case False
    then have "j \<le> i" by simp
    then show ?thesis by (rule half [OF _ eq [symmetric], symmetric])
  qed
qed

lemma element_secret:
  assumes "secret k x" and "nonneg_exponents s"
  shows "element k s = key_g k ^ nat (sol_a s + x * sol_b s) mod key_p k"
proof -
  have "key_g k ^ nat (sol_a s) * key_h k ^ nat (sol_b s) mod key_p k
      = key_g k ^ nat (sol_a s) * (key_g k ^ nat x) ^ nat (sol_b s) mod key_p k"
    using assms by (simp add: secret_def power_mod mod_mult_right_eq [symmetric, of _ "_ ^ nat (sol_b s)"])
  also have "\<dots> = key_g k ^ (nat (sol_a s) + nat x * nat (sol_b s)) mod key_p k"
    by (simp add: power_add power_mult)
  also have "nat (sol_a s) + nat x * nat (sol_b s) = nat (sol_a s + x * sol_b s)"
    using assms by (simp add: secret_def nonneg_exponents_def nat_add_distrib nat_mult_distrib)
  finally show ?thesis
    by (simp add: element_def)
qed

text \<open>A collision is a linear congruence for the secret.\<close>

lemma collision_congruence:
  assumes "key_ok k" and "full_order k" and "secret k x"
    and "nonneg_exponents s" and "nonneg_exponents t" and "element k s = element k t"
  shows "(sol_b s - sol_b t) * x mod (key_p k - 1) = (sol_a t - sol_a s) mod (key_p k - 1)"
proof -
  have "0 \<le> sol_a s + x * sol_b s" and "0 \<le> sol_a t + x * sol_b t"
    using assms by (auto simp: secret_def nonneg_exponents_def)
  then have "(sol_a s + x * sol_b s) mod (key_p k - 1) = (sol_a t + x * sol_b t) mod (key_p k - 1)"
    using exponents_agree [OF assms(1,2)] assms(6)
    by (simp add: element_secret [OF assms(3,4)] element_secret [OF assms(3,5)] int_nat_eq) (metis int_nat_eq)
  then have "(sol_a s + x * sol_b s - (sol_a s + x * sol_b t)) mod (key_p k - 1)
      = (sol_a t + x * sol_b t - (sol_a s + x * sol_b t)) mod (key_p k - 1)"
    by (rule mod_diff_cong) simp
  then show ?thesis
    by (simp add: algebra_simps)
qed

section \<open>The congruence solver\<close>

lemma congruence_solution:
  fixes n :: int
  assumes inv: "r * y mod n = 1" and r: "r mod n = d mod n" and cong: "d * x mod n = e mod n"
  shows "y * e mod n = x mod n"
proof -
  have "y * e mod n = y * (d * x) mod n"
    using cong by (metis mod_mult_right_eq)
  also have "\<dots> = (d * y) * x mod n"
    by (simp add: ac_simps)
  also have "\<dots> = (r * y) * x mod n"
    using r by (intro mult_mod_cong) (auto intro: mult_mod_cong)
  also have "\<dots> = x mod n"
    using inv by (metis mod_mult_left_eq mult_1)
  finally show ?thesis .
qed

context rug_spec
begin

lemma eqs_solvers_unique:
  assumes n: "1 < n" and cop: "coprime (b1 - b2) n" and cong: "(b1 - b2) * x mod n = (a2 - a1) mod n"
  shows "eqs_solvers R a1 b1 a2 b2 n = Some (Some (x mod n))"
proof -
  let ?r = "(b1 - b2) mod n"
  have cop_r: "coprime ?r n"
    using cop n by (metis coprime_mod_left_iff less_irrefl not_one_less_zero)
  then have "?r \<noteq> 0"
    using n by auto
  obtain y where y: "invert R ?r n = Some y" "?r * y mod n = 1"
    using invert_coprime [OF n cop_r] by blast
  have "y * (a2 - a1) mod n = x mod n"
    by (rule congruence_solution [OF y(2) _ cong]) simp
  then show ?thesis
    using n \<open>?r \<noteq> 0\<close> y(1) by (simp add: eqs_solvers_def rem_euc_pos Let_def)
qed

text \<open>Equal \<open>b\<close> exponents carry no information.\<close>

lemma eqs_solvers_trivial:
  assumes "0 < n" and "(b1 - b2) mod n = 0"
  shows "eqs_solvers R a1 b1 a2 b2 n = Some None"
  using assms by (simp add: eqs_solvers_def rem_euc_pos)

text \<open>
  The branch for a difference that is not invertible computes \<open>a2 - a2\<close>, so its only possible
  answer is 0, whatever the collision was.
\<close>

lemma eqs_solvers_degenerate:
  assumes n: "1 < n" and not_cop: "\<not> coprime (b1 - b2) n"
    and result: "eqs_solvers R a1 b1 a2 b2 n = Some (Some key)"
  shows "key = 0"
proof -
  let ?r = "(b1 - b2) mod n"
  have r: "\<not> coprime ?r n"
    using not_cop n by (metis coprime_mod_left_iff less_irrefl not_one_less_zero)
  let ?p1 = "n sdiv gcd ?r n"
  have "0 < gcd ?r n"
    using n by (metis gcd_pos_int less_irrefl not_one_less_zero)
  then have p1: "?p1 = n div gcd ?r n" "0 < ?p1"
    using n by (auto simp: signed_divide_int_def pos_imp_zdiv_pos_iff zdvd_imp_le)
  show ?thesis
    using result r n p1(2) invert_not_coprime [OF n r]
    by (auto simp: eqs_solvers_def rem_euc_pos int_gcd_eq Let_def split: if_splits option.splits)
qed

end

section \<open>The recovered private key\<close>

lemma mod_of_mod_double: "y mod (2 * n) = z mod (2 * n) \<Longrightarrow> y mod n = z mod (n :: int)"
  using mod_mod_cancel [of n "2 * n" y] mod_mod_cancel [of n "2 * n" z] by simp

lemma mod_half_cases:
  fixes n x :: int
  assumes "0 < n"
  shows "x mod (2 * n) = x mod n \<or> x mod (2 * n) = x mod n + n"
proof -
  have "x mod (2 * n) = x mod n + n * (x div n mod 2)"
    using assms by (simp add: mult.commute [of 2 n] zmod_zmult2_eq)
  then show ?thesis
    by (cases "x div n mod 2 = 0") auto
qed

lemma secret_mod:
  assumes "key_ok k" and "secret k x"
  shows "key_h k = key_g k ^ nat (x mod (key_p k - 1)) mod key_p k"
  using assms power_mod_exponent_int [of "key_g k" "key_p k - 1" "key_p k" x]
  by (auto simp: secret_def key_ok_def)

context rug_spec
begin

lemma key_gen_recovers:
  assumes k: "key_ok k" and ord: "full_order k" and x: "secret k x"
    and n: "key_p k - 1 = 2 * n" "1 < n" "sol_n (snd sols) = n"
    and nonneg: "nonneg_exponents (fst sols)" "nonneg_exponents (snd sols)"
    and coll: "element k (fst sols) = element k (snd sols)"
    and cop: "coprime (sol_b (fst sols) - sol_b (snd sols)) n"
  shows "\<exists>key. key_gen R k sols = Some (Some \<lparr>prv_p = key_p k, prv_g = key_g k, prv_x = key, prv_bits = key_bits k\<rparr>)
    \<and> 0 \<le> key \<and> key_g k ^ nat key mod key_p k = key_h k"
proof -
  have "(sol_b (fst sols) - sol_b (snd sols)) * x mod (2 * n) = (sol_a (snd sols) - sol_a (fst sols)) mod (2 * n)"
    using collision_congruence [OF k ord x nonneg coll] n(1) by simp
  then have "(sol_b (fst sols) - sol_b (snd sols)) * x mod n = (sol_a (snd sols) - sol_a (fst sols)) mod n"
    by (rule mod_of_mod_double)
  then have eqs: "eqs_solvers R (sol_a (fst sols)) (sol_b (fst sols)) (sol_a (snd sols))
      (sol_b (snd sols)) n = Some (Some (x mod n))"
    using eqs_solvers_unique [OF n(2) cop] by blast
  have p: "0 < key_p k" and key: "0 \<le> x mod n"
    using k n(2) by (auto simp: key_ok_def)
  have h: "key_h k = key_g k ^ nat (x mod (2 * n)) mod key_p k"
    using secret_mod [OF k x] n(1) by simp
  show ?thesis
  proof (cases "key_g k ^ nat (x mod n) mod key_p k = key_h k")
    case True
    then show ?thesis
      using eqs p key n(3) by (simp add: key_gen_def pow_mod_pos)
  next
    case False
    then have "x mod (2 * n) = x mod n + n"
      using mod_half_cases [of n x] n(2) h by auto
    then show ?thesis
      using False eqs p key n(2,3) h by (simp add: key_gen_def pow_mod_pos)
  qed
qed

end

end
