(* ===== verification/Reference_Run.thy ===== *)
theory Reference_Run
  imports Mining Key_Recovery
begin

text \<open>
  Concrete runs of the reference node \<open>ref_trex_libs\<close> on its small key: the group of order 10 modulo
  11 with generator 2 and public element 7, whose secret is 7. The witnesses of the properties of the
  puzzle rest on these runs.
\<close>

abbreviation ref_trait :: "compute hash_trait" where "ref_trait \<equiv> blake3_compute ref_trex_libs"

definition ref_header :: "u128 \<Rightarrow> int \<Rightarrow> compute" where
  "ref_header d nonce =
     \<lparr>cmp_difficulty = d, cmp_pre_hash = replicate 32 0, cmp_nonce = word_of_int nonce\<rparr>"

definition ref_sol :: "int \<Rightarrow> int \<Rightarrow> int solution" where
  "ref_sol a b = \<lparr>sol_a = a, sol_b = b, sol_n = 5\<rparr>"

definition ref_state :: "u32 \<Rightarrow> int \<Rightarrow> int \<Rightarrow> int \<Rightarrow> int \<Rightarrow> rho_state" where
  "ref_state bits a b nonce work =
     \<lparr>st_solution = ref_sol a b, st_nonce = nonce, st_work = work, st_pubkey = ref_key bits\<rparr>"

lemma ref_state_simps [simp]:
  "st_work (ref_state bits a b m w) = w" "st_solution (ref_state bits a b m w) = ref_sol a b"
  "st_nonce (ref_state bits a b m w) = m" "st_pubkey (ref_state bits a b m w) = ref_key bits"
  by (simp_all add: ref_state_def)

lemma ref_sol_simps [simp]:
  "sol_a (ref_sol a b) = a" "sol_b (ref_sol a b) = b" "sol_n (ref_sol a b) = 5"
  "ref_sol a b = ref_sol a' b' \<longleftrightarrow> a = a' \<and> b = b'"
  by (simp_all add: ref_sol_def)

lemma ref_key_simps [simp]:
  "key_p (ref_key bits) = 11" "key_g (ref_key bits) = 2" "key_h (ref_key bits) = 7"
  "key_bits (ref_key bits) = bits"
  by (simp_all add: ref_key_def)

lemma ref_hash:
  assumes "0 \<le> w" and "w < 11"
  shows "hash_integer ref_trex_libs (ref_header d w) = 7 * w + 3"
proof -
  have "uint (word_of_int w :: u256) = w"
    using assms by (simp add: uint_word_of_int)
  then have "le_val (encode_compute ref_pow_libs (ref_header d w)) = w"
    using assms
    by (simp add: ref_pow_libs_def libs.defs ref_libs_def ref_header_def u256_to_le_def le_val_append le_val_le_digits)
  then show ?thesis
    using assms by (simp add: hash_integer_def ref_libs_def le_val_le_digits)
qed

lemma ref_set_nonce:
  assumes "0 \<le> w" and "w < 11"
  shows "tr_set_nonce ref_trait w (ref_header d m) = Some (ref_header d w)"
  using assms by (simp add: blake3_compute_def set_nonce_def ref_trex.bigint_u256_fits ref_header_def)

lemma ref_walk_hash:
  assumes "0 \<le> w" and "w < 11"
  shows "walk_hash ref_trait (ref_key bits) (ref_header d m) w = (7 * w + 3) mod 11"
  using ref_set_nonce [OF assms, of d m] ref_hash [OF assms, of d]
  by (simp add: walk_hash_def) (simp add: blake3_compute_def)

definition ref_next :: "int \<times> int \<times> int \<Rightarrow> int \<times> int \<times> int" where
  "ref_next abw = (case abw of (a, b, w) \<Rightarrow>
     let x = (7 * w + 3) mod 11
     in if x mod 3 = 0 then (a * x mod 10, b * x mod 10, w ^ nat x mod 11)
        else if x mod 3 = 1 then ((a + x) mod 10, b, 2 ^ nat x * w mod 11)
        else (a, (b + x) mod 10, 7 ^ nat x * w mod 11))"

lemma ref_next_state:
  assumes "0 \<le> w" and "w < 11" and "ref_next (a, b, w) = (a', b', w')"
  shows "next_state ref_trait (ref_header d m') (ref_state bits a b m w) = ref_state bits a' b' w w'"
  using assms
  by (auto simp: next_state_def ref_walk_hash next_solution_def next_work_def next_a_def next_b_def
      ref_next_def Let_def ref_state_def ref_sol_def mod_mult_left_eq split: if_splits)

lemma ref_step:
  assumes "walk_ok (ref_key bits) (ref_state bits a b m w)" and "ref_next (a, b, w) = (a', b', w')"
  shows "step ref_trex_libs ref_trait (ref_state bits a b m w) (ref_header d m') =
    Some (ref_state bits a' b' w w', ref_header d w)"
proof -
  have "0 \<le> w" "w < 11"
    using assms(1) walk_ok_work_bounds [OF ref_key_ok assms(1)] by simp_all
  then show ?thesis
    using ref_trex.node.step_eq [OF ref_key_ok assms(1)] ref_set_nonce ref_next_state [OF _ _ assms(2)]
    by simp
qed

text \<open>
  The run from seed 1: the collision after two iterations, and the distinguished point one step
  later.
\<close>

lemma ref_walk_ok:
  assumes "0 \<le> a" "a < 10" "0 \<le> b" "b < 10" and "w = 2 ^ nat a * 7 ^ nat b mod 11"
  shows "walk_ok (ref_key bits) (ref_state bits a b m w)"
  using assms by (simp add: walk_ok_def exponents_ok_def element_def)

lemmas ref_steps = ref_step [OF ref_walk_ok]

lemma sdiv_5: "0 \<le> x \<Longrightarrow> x sdiv 5 = x div 5" for x :: int
  by (cases "x = 0") (auto simp: signed_divide_int_def)

lemma ref_hash_encode:
  assumes "0 \<le> w" "w < 11" and "0 \<le> m" "m < 11"
  shows "\<exists>e. hash_encode ref_trex_libs (ref_state bits a b m w) = Some e \<and> uint e < 2 ^ 16"
proof -
  define t where "t = m sdiv 5 + w sdiv 5 + 11 sdiv 5 + 2 sdiv 5 + 7 sdiv 5"
  have t: "0 \<le> t" "t < 100"
    using assms by (simp_all add: t_def sdiv_5)
  have "hash_encode ref_trex_libs (ref_state bits a b m w) =
      u256_from_le (blake3 ref_trex_libs (to_digits ref_trex_libs t))"
    by (simp only: hash_encode_def Let_def ref_state_simps ref_key_simps t_def)
  also have "\<dots> = Some (word_of_int (7 * t + 3))"
    using t by (simp add: u256_from_le_def ref_libs_def le_val_le_digits min_digits_val)
  finally have "hash_encode ref_trex_libs (ref_state bits a b m w) = Some (word_of_int (7 * t + 3))" .
  moreover have "uint (word_of_int (7 * t + 3) :: u256) = 7 * t + 3"
    using t by (subst uint_word_of_int) simp
  then have "uint (word_of_int (7 * t + 3) :: u256) < 2 ^ 16"
    using t by simp
  ultimately show ?thesis
    by blast
qed

lemma ref_not_overflowed:
  assumes "0 \<le> w" "w < 11" and "0 \<le> m" "m < 11"
  shows "overflowed ref_trex_libs (ref_state 56 a b m w) (hash_diff (ref_key 56)) = Some False"
proof -
  have "hash_diff (ref_key 56) = 2 ^ 20"
    by (simp add: hash_diff_def POINT_DST_FACTOR_def push_bit_eq_mult)
  moreover obtain e where "hash_encode ref_trex_libs (ref_state 56 a b m w) = Some e" "uint e < 2 ^ 16"
    using ref_hash_encode [OF assms] by blast
  ultimately show ?thesis
    by (simp add: overflowed_def overflowing_mul_def)
qed

lemma ref_from_pub_key:
  "from_pub_key ref_trex_libs (ref_key bits) 1 = Some (ref_state bits 1 2 1 10)"
  by (simp add: from_pub_key_def new_random_def gen_bigint_range_def ref_libs_def ref_key_def Let_def
      signed_divide_int_def ref_state_def ref_sol_def)

lemma ref_search_len: "search_len ref_trex_libs (ref_key bits) = 24"
proof -
  have "sqrt_upto 11 11 = 3"
    by code_simp
  then show ?thesis
    by (simp add: search_len_def SEARCH_LEN_FACTOR_def ref_libs_def)
qed

lemma ref_run_steps:
  "step ref_trex_libs ref_trait (ref_state bits 1 2 1 10) (ref_header d m) =
     Some (ref_state bits 8 2 10 4, ref_header d 10)"
  "step ref_trex_libs ref_trait (ref_state bits 8 2 10 4) (ref_header d m) =
     Some (ref_state bits 2 8 4 3, ref_header d 4)"
  "step ref_trex_libs ref_trait (ref_state bits 2 8 4 3) (ref_header d m) =
     Some (ref_state bits 2 0 3 4, ref_header d 3)"
  "step ref_trex_libs ref_trait (ref_state bits 2 0 3 4) (ref_header d m) =
     Some (ref_state bits 8 0 4 3, ref_header d 4)"
  "step ref_trex_libs ref_trait (ref_state bits 8 0 4 3) (ref_header d m) =
     Some (ref_state bits 8 2 3 4, ref_header d 3)"
  by (rule ref_steps; simp add: ref_next_def)+

lemma ref_search_24: "\<exists>k. search_len ref_trex_libs (ref_key bits) = Suc (Suc k)"
  by (simp add: ref_search_len)

lemma ref_solve:
  "solve ref_trex_libs ref_trait (ref_key 56) (ref_header d 1) 1 =
     Some (Some (ref_sol 2 0, ref_sol 8 2), ref_header d 3)"
proof -
  obtain k where "search_len ref_trex_libs (ref_key 56) = Suc (Suc k)"
    using ref_search_24 by blast
  then show ?thesis
    by (simp add: solve_def ref_from_pub_key ref_run_steps ref_not_overflowed)
qed

lemma ref_solve_dist:
  "solve_dist ref_trex_libs ref_trait (ref_key 56) (ref_header d 1) 1 MINING_GRAIN (\<lambda>i. False) =
     Some (Some (ref_sol 2 0, ref_sol 8 2), ref_header d 3, True)"
proof -
  obtain k where "search_len ref_trex_libs (ref_key 56) = Suc (Suc k)"
    using ref_search_24 by blast
  then show ?thesis
    by (simp add: solve_dist_def ref_from_pub_key ref_run_steps ref_not_overflowed MINING_GRAIN_def)
qed

text \<open>Mining on the genesis seal submits a seal.\<close>

definition ref_env :: "nat mining_env" where
  "ref_env = \<lparr>env_metadata = Some (56, replicate 32 0),
     env_chain = \<lparr>bc_best_hash = 0, bc_best_number = 0, bc_header = (\<lambda>h. Some None)\<rparr>,
     env_obs = (\<lambda>i. False), env_sched = []\<rparr>"

definition ref_mining :: mining_state where "ref_mining = \<lparr>mn_seed = 1, mn_number = 0\<rparr>"

lemma ref_difficulty_ok: "difficulty_ok 56"
  by (simp add: difficulty_ok_def)

lemma ref_puzzle:
  "length (seal_seeds s) = SEEDS_LEN \<Longrightarrow> puzzle_of ref_trex_libs s 56 = Some (ref_key 56)"
  by (simp add: puzzle_of_def key_index_def MIN_DIFFICULTY_def nth_yield_pub_keys)

lemma ref_try_cpu_mining:
  assumes "length (seal_seeds s) = SEEDS_LEN"
  shows "\<exists>new. try_cpu_mining ref_trex_libs s (ref_header 56 1) 1 None (\<lambda>i. False) flag sched =
    Some (Some new, ref_header 56 3)"
proof -
  have "to_u256 ref_trex_libs (ref_sol 2 0) \<noteq> None" "to_u256 ref_trex_libs (ref_sol 8 2) \<noteq> None"
    by (simp_all add: to_u256_def ref_trex.bigint_u256_fits)
  then show ?thesis
    using ref_trex.keychain_seeds_total [OF assms] ref_puzzle [OF assms] ref_solve_dist [of 56]
    by (auto simp: try_cpu_mining_def solve_on_def ref_header_def ref_trex.u256_bigint_uint Let_def)
qed

text \<open>What the verifier checks of that run.\<close>

lemma ref_accepts_data:
  "element (ref_key bits) (ref_sol 2 0) = 4" "element (ref_key bits) (ref_sol 8 2) = 4"
  "hash_integer ref_trex_libs (ref_header d 3) = 24"
  "cmp_nonce (ref_header d 3) = 3"
  "next_work (ref_key bits) 2 3 = 4"
  "overflowed ref_trex_libs (claimed_state ref_trex_libs (ref_key 56) (ref_sol 2 0, ref_sol 8 2) (ref_header d 3))
     (hash_diff (ref_key 56)) = Some False"
  using ref_hash [of 3 d] ref_not_overflowed [of 4 3 2 0]
  by (simp_all add: element_def next_work_def claimed_state_def ref_header_def ref_state_def)

section \<open>Two workers\<close>

text \<open>
  The second worker starts from seed 11. After two iterations each, both stand before a collision.
  In the orderly schedule the first one publishes before the second one polls the flag; in the racy
  one both read the flag before either sets it.
\<close>

lemma ref_from_pub_key_11:
  "from_pub_key ref_trex_libs (ref_key bits) 11 = Some (ref_state bits 2 3 1 8)"
  by (simp add: from_pub_key_def new_random_def gen_bigint_range_def ref_libs_def ref_key_def Let_def
      signed_divide_int_def ref_state_def ref_sol_def)

lemma ref_run_steps_11:
  "step ref_trex_libs ref_trait (ref_state bits 2 3 1 8) (ref_header d m) =
     Some (ref_state bits 6 3 8 7, ref_header d 8)"
  "step ref_trex_libs ref_trait (ref_state bits 6 3 8 7) (ref_header d m) =
     Some (ref_state bits 6 1 7 8, ref_header d 7)"
  "step ref_trex_libs ref_trait (ref_state bits 6 1 7 8) (ref_header d m) =
     Some (ref_state bits 0 1 8 7, ref_header d 8)"
  by (rule ref_steps; simp add: ref_next_def)+

definition ref_worker ::
  "pc \<Rightarrow> int \<Rightarrow> int \<Rightarrow> int \<Rightarrow> int \<Rightarrow> u128 \<Rightarrow> int \<Rightarrow> int \<Rightarrow> nat \<Rightarrow> compute worker" where
  "ref_worker p a b m w d c seed i =
    \<lparr>w_pc = p, w_state = ref_state 56 a b m w, w_compute = ref_header d c, w_seed = seed, w_i = i,
     w_counter = of_nat i, w_j = 0\<rparr>"

lemma ref_par_init:
  "par_init ref_trex_libs (ref_key 56) (ref_header d 1) 1 False 2 =
     Some \<lparr>ps_shared = \<lparr>sh_map = Map.empty, sh_found = False, sh_nonce = 1, sh_res = None\<rparr>,
       ps_workers = [ref_worker Loop 1 2 1 10 d 1 1 0, ref_worker Loop 2 3 1 8 d 1 11 0]\<rparr>"
  by (simp add: par_init_def init_worker_def max_try_def ref_from_pub_key ref_from_pub_key_11 upt_rec ref_worker_def)

lemmas ref_par_simps = par_action_def worker_action_def loop_action_def check_action_def grain_action_def
  read_locked_def reading_def ref_search_len ref_run_steps ref_run_steps_11 ref_not_overflowed MINING_GRAIN_def
  ref_worker_def

definition two_iterations :: "nat \<Rightarrow> event list" where
  "two_iterations i = [Act i, Act i, Act i, Act i, Act i, Act i, Act i, Act i]"

definition orderly_schedule :: "event list" where
  "orderly_schedule = two_iterations 0 @ two_iterations 1
     @ [Act 0, Act 0, Act 0, Act 0, Act 0, Act 0, Act 1, Act 1, Act 1]"

definition racing_start :: "event list" where
  "racing_start = two_iterations 0 @ two_iterations 1 @ [Act 0, Act 0, Act 1, Act 1]"

definition racy_schedule :: "event list" where
  "racy_schedule = racing_start @ race 0 1"

lemma ref_orderly:
  "solve_parallel ref_trex_libs ref_trait (ref_key 56) (ref_header d 1) 1 MINING_GRAIN False 2 orderly_schedule =
     Some (Some (ref_sol 2 0, ref_sol 8 2), ref_header d 3)"
  using ref_par_init [of d] ref_set_nonce [of 3 d 1]
  by (simp add: solve_parallel_def orderly_schedule_def two_iterations_def ref_par_simps joined_def par_result_def)

lemma ref_racy:
  "solve_parallel ref_trex_libs ref_trait (ref_key 56) (ref_header d 1) 1 MINING_GRAIN False 2 racy_schedule =
     Some (Some (ref_sol 2 0, ref_sol 8 2), ref_header d 8)"
  using ref_par_init [of d] ref_set_nonce [of 8 d 1]
  by (simp add: solve_parallel_def racy_schedule_def racing_start_def race_def two_iterations_def ref_par_simps joined_def par_result_def)

lemma ref_racing:
  assumes "par_init ref_trex_libs (ref_key 56) (ref_header d 1) 1 False 2 = Some ps"
  obtains ps' t where "par_run ref_trex_libs ref_trait (ref_key 56) MINING_GRAIN racing_start ps = Some ps'"
    and "length (ps_workers ps') = 2" and "w_pc (ps_workers ps' ! 0) = Poll (ref_sol 8 2)"
    and "w_pc (ps_workers ps' ! 1) = Poll t" and "\<not> sh_found (ps_shared ps')"
    and "st_work (w_state (ps_workers ps' ! 0)) \<noteq> st_work (w_state (ps_workers ps' ! 1))"
proof -
  have ps: "ps = \<lparr>ps_shared = \<lparr>sh_map = Map.empty, sh_found = False, sh_nonce = 1, sh_res = None\<rparr>,
       ps_workers = [ref_worker Loop 1 2 1 10 d 1 1 0, ref_worker Loop 2 3 1 8 d 1 11 0]\<rparr>"
    using assms ref_par_init [of d] by simp
  show thesis
    by (rule that, simp add: ps racing_start_def two_iterations_def ref_par_simps) simp_all
qed

lemma ref_orderly_exclusive:
  assumes "par_init ref_trex_libs (ref_key 56) (ref_header d 1) 1 False 2 = Some ps"
  shows "exclusive_run ref_trex_libs ref_trait (ref_key 56) MINING_GRAIN orderly_schedule ps"
proof -
  have two: "exclusive \<lparr>ps_shared = sh, ps_workers = [v, w]\<rparr> \<longleftrightarrow>
      \<not> (publishing (w_pc v) \<and> publishing (w_pc w))" for sh and v w :: "compute worker"
    by (auto simp: exclusive_def less_Suc_eq numeral_2_eq_2)
  have ps: "ps = \<lparr>ps_shared = \<lparr>sh_map = Map.empty, sh_found = False, sh_nonce = 1, sh_res = None\<rparr>,
       ps_workers = [ref_worker Loop 1 2 1 10 d 1 1 0, ref_worker Loop 2 3 1 8 d 1 11 0]\<rparr>"
    using assms ref_par_init [of d] by simp
  show ?thesis
    unfolding ps by (simp add: orderly_schedule_def two_iterations_def ref_par_simps two)
qed

text \<open>The pair of the racy run does not belong to the nonce 8.\<close>

lemma ref_racy_rejected:
  "verify ref_trex_libs (ref_key 56) (ref_sol 2 0, ref_sol 8 2) (ref_header d 8) = Some False"
proof -
  have nonneg: "nonneg_exponents (ref_sol 2 0)" "nonneg_exponents (ref_sol 8 2)"
    by (simp_all add: nonneg_exponents_def)
  have "hash_integer ref_trex_libs (ref_header d 8) = 59"
    using ref_hash [of 8 d] by simp
  then have "\<not> accepts ref_trex_libs (ref_key 56) (ref_sol 2 0, ref_sol 8 2) (ref_header d 8)"
    by (simp add: accepts_def claimed_state_def next_work_def ref_accepts_data ref_header_def)
  then show ?thesis
    using ref_trex.verify_accepts [OF ref_key_ok, of "(ref_sol 2 0, ref_sol 8 2)" 56 "ref_header d 8"] nonneg
    by simp
qed

end
