(* ===== verification/Puzzle_Properties.thy ===== *)
theory Puzzle_Properties
  imports Reference_Run
begin

text \<open>
  The properties of the mining puzzle and its verifier (crate \<open>consensus/trex-pow\<close>), each with a
  witness on the reference node. The laws of the external functions enter as the locale predicates
  \<open>rug_spec\<close>, \<open>pow_node\<close> and \<open>trex_node\<close>; a property about the walk or the solvers holds for every
  header type whose trait satisfies \<open>header_hash\<close>.
\<close>

section \<open>The verifier\<close>

text \<open>
  C5. The verifier never panics on a well-formed key and non-negative exponents, and it accepts exactly
  when the two solutions differ, stand for one group element, that element is the image of the header
  under the walk's mapping, and the rebuilt state is a distinguished point.
\<close>

theorem verify_decides:
  assumes "pow_node L" and "key_ok k" and "nonneg_exponents (fst sols)" and "nonneg_exponents (snd sols)"
  shows "verify L k sols c = Some (fst sols \<noteq> snd sols
     \<and> element k (fst sols) = element k (snd sols)
     \<and> element k (fst sols) = next_work k (hash_integer L c mod key_p k) (uint (cmp_nonce c))
     \<and> overflowed L (claimed_state L k sols c) (hash_diff k) = Some False)"
  using pow_node.verify_accepts [OF assms] by (simp add: accepts_def claimed_state_def)

theorem verify_decides_witness:
  "verify ref_trex_libs (ref_key 56) (ref_sol 2 0, ref_sol 8 2) (ref_header 56 3) = Some True"
  using verify_decides [OF ref_trex.pow_node_axioms ref_key_ok, of "(ref_sol 2 0, ref_sol 8 2)" 56 "ref_header 56 3"]
  by (simp add: ref_accepts_data nonneg_exponents_def)

section \<open>The single-threaded solvers\<close>

text \<open>
  C6. On a well-formed key \<open>solve\<close> returns without a panic for every header and seed, changes nothing
  of the header but its nonce, and whatever pair it finds passes the verifier with that header.
\<close>

theorem solve_returns_verified:
  assumes "pow_node L" and "key_ok k"
  shows "\<exists>r c'. solve L (blake3_compute L) k c seed = Some (r, c') \<and> same_header (blake3_compute L) c' c
    \<and> (\<forall>sols. r = Some sols \<longrightarrow> verify L k sols c' = Some True)"
proof -
  have "rho_walk L (blake3_compute L)"
    using assms(1) by (rule pow_node_rho_walk)
  then obtain r c' where "solve L (blake3_compute L) k c seed = Some (r, c')"
      "same_header (blake3_compute L) c' c"
    using rho_walk.solve_ok [OF _ assms(2), of L "blake3_compute L" c seed] by blast
  then show ?thesis
    using pow_node.solve_verified [OF assms(1,2)] by blast
qed

theorem solve_returns_verified_witness:
  "solve ref_trex_libs ref_trait (ref_key 56) (ref_header 56 1) 1 =
     Some (Some (ref_sol 2 0, ref_sol 8 2), ref_header 56 3)
   \<and> verify ref_trex_libs (ref_key 56) (ref_sol 2 0, ref_sol 8 2) (ref_header 56 3) = Some True"
  using solve_returns_verified [OF ref_trex.pow_node_axioms ref_key_ok [of 56], of "ref_header 56 1" 1]
  by (simp add: ref_solve)

text \<open>
  C27. Whatever values \<open>solve_dist\<close> reads from the shared flag it returns without a panic, and all they
  can do to it is to make it give up: a pair it returns is the pair \<open>solve\<close> returns, with the same header,
  and passes the verifier; as long as every load reads false its result is that of \<open>solve\<close>, with or
  without a pair. It sets the flag exactly when it returns a pair.
\<close>

theorem solve_dist_returns_verified:
  assumes "pow_node L" and "key_ok k"
  shows "\<exists>r c' stored. solve_dist L (blake3_compute L) k c seed grain obs = Some (r, c', stored)
    \<and> same_header (blake3_compute L) c' c \<and> (stored \<longleftrightarrow> r \<noteq> None)
    \<and> (\<forall>sols. r = Some sols \<longrightarrow> solve L (blake3_compute L) k c seed = Some (Some sols, c') \<and> verify L k sols c' = Some True)
    \<and> ((\<forall>i. \<not> obs i) \<longrightarrow> solve L (blake3_compute L) k c seed = Some (r, c'))"
proof -
  have "rho_walk L (blake3_compute L)"
    using assms(1) by (rule pow_node_rho_walk)
  then obtain r c' stored where run: "solve_dist L (blake3_compute L) k c seed grain obs = Some (r, c', stored)"
      and r: "same_header (blake3_compute L) c' c" "stored \<longleftrightarrow> r \<noteq> None"
    using rho_walk.solve_dist_ok [OF _ assms(2), of L "blake3_compute L" c seed grain obs] by blast
  have silent: "solve L (blake3_compute L) k c seed = Some (r, c')" if "\<forall>i. \<not> obs i"
  proof -
    have "obs = (\<lambda>i. False)"
      using that by auto
    then show ?thesis
      using run solve_dist_silent [of L "blake3_compute L" k c seed grain] by simp
  qed
  have pair: "solve L (blake3_compute L) k c seed = Some (Some sols, c') \<and> verify L k sols c' = Some True" if "r = Some sols" for sols
    using run solve_dist_pair pow_node.solve_dist_verified [OF assms(1,2)] unfolding that by (intro conjI)
  show ?thesis
    by (intro exI conjI; (rule run r)?) (use pair silent in simp_all)
qed

theorem solve_dist_returns_verified_witness:
  "solve_dist ref_trex_libs ref_trait (ref_key 56) (ref_header 56 1) 1 MINING_GRAIN (\<lambda>i. False) =
     Some (Some (ref_sol 2 0, ref_sol 8 2), ref_header 56 3, True)
   \<and> solve ref_trex_libs ref_trait (ref_key 56) (ref_header 56 1) 1 = Some (Some (ref_sol 2 0, ref_sol 8 2), ref_header 56 3)
   \<and> verify ref_trex_libs (ref_key 56) (ref_sol 2 0, ref_sol 8 2) (ref_header 56 3) = Some True"
  using solve_dist_returns_verified [OF ref_trex.pow_node_axioms ref_key_ok [of 56],
      of "ref_header 56 1" 1 MINING_GRAIN "\<lambda>i. False"]
  by (simp add: ref_solve_dist)

section \<open>The parallel solver\<close>



text \<open>
  C8. The published nonce belongs to the published pair, so that the pair passes the verifier, in every
  schedule in which no two workers are between the flag test and the update of the result at a time.
\<close>

theorem parallel_orderly_verifies:
  assumes "pow_node L" and "key_ok k"
    and "solve_parallel L (blake3_compute L) k c seed grain flag cpus sched = Some (Some sols, c')"
    and "\<And>ps. par_init L k c seed flag cpus = Some ps \<Longrightarrow>
           exclusive_run L (blake3_compute L) k grain sched ps"
  shows "verify L k sols c' = Some True"
  using rho_walk.solve_parallel_mined [OF pow_node_rho_walk [OF assms(1)] assms(2,3)] assms(4)
  by (intro pow_node.mined_verifies [OF assms(1,2)]) (cases sols; blast)

theorem parallel_orderly_verifies_witness:
  "verify ref_trex_libs (ref_key 56) (ref_sol 2 0, ref_sol 8 2) (ref_header 56 3) = Some True"
  by (rule parallel_orderly_verifies
      [OF ref_trex.pow_node_axioms ref_key_ok ref_orderly [of 56] ref_orderly_exclusive])

text \<open>
  C7. Without that exclusion the result may be useless. Whenever two workers have a collision in hand at
  different elements and the flag is not set, there is a continuation in which both load the flag
  before either stores it (\<open>race\<close>): it ends with the nonce of the one beside the pair of the other, which
  the verifier rejects; and if no other worker is running, this is what \<open>solve_parallel\<close> returns.
\<close>

theorem parallel_race_rejected:
  assumes "pow_node L" and "key_ok k" and init: "par_init L k c seed flag cpus = Some ps0"
    and run: "par_run L (blake3_compute L) k grain sched ps0 = Some ps"
    and "i < length (ps_workers ps)" and "j < length (ps_workers ps)" and "i \<noteq> j"
    and "w_pc (ps_workers ps ! i) = Poll s" and "w_pc (ps_workers ps ! j) = Poll t" and "\<not> sh_found (ps_shared ps)"
    and "st_work (w_state (ps_workers ps ! i)) \<noteq> st_work (w_state (ps_workers ps ! j))"
  shows "\<exists>ps' c'. par_run L (blake3_compute L) k grain (sched @ race i j) ps0 = Some ps'
    \<and> par_result (blake3_compute L) ps' c = Some (Some (st_solution (w_state (ps_workers ps ! i)), s), c')
    \<and> uint (cmp_nonce c') = st_nonce (w_state (ps_workers ps ! j))
    \<and> verify L k (st_solution (w_state (ps_workers ps ! i)), s) c' = Some False
    \<and> (list_all (\<lambda>m. m = i \<or> m = j \<or> w_pc (ps_workers ps ! m) = Returned) [0..<length (ps_workers ps)] \<longrightarrow>
        solve_parallel L (blake3_compute L) k c seed grain flag cpus (sched @ race i j)
          = Some (Some (st_solution (w_state (ps_workers ps ! i)), s), c'))"
proof -
  let ?v = "ps_workers ps ! i" and ?w = "ps_workers ps ! j" and ?H = "blake3_compute L"
  have walk: "rho_walk L ?H"
    using assms(1) by (rule pow_node_rho_walk)
  have "par_ok L ?H k c ps"
    using rho_walk.par_init_ok [OF walk assms(2), of c seed flag cpus] init
      rho_walk.par_steps_ok [OF walk par_run_steps [OF run] assms(2)] by auto
  then have "worker_ok L ?H k c ?v" "worker_ok L ?H k c ?w"
    using assms(5,6) by (simp_all add: par_ok_def)
  then have v: "walk_ok k (w_state ?v)" "collision k (st_solution (w_state ?v)) s"
    and w: "walk_ok k (w_state ?w)" "at_point L ?H k c ?w"
    using assms(8,9) by (simp_all add: worker_ok_def)
  have c': "tr_set_nonce ?H (st_nonce (w_state ?w)) c = Some (w_compute ?w)"
    and linked: "linked L ?H (w_compute ?w) (w_state ?w)"
    using w(2) by (simp_all add: at_point_def)
  have "nonneg_exponents (st_solution (w_state ?v))" "nonneg_exponents s"
    using v(2) exponents_nonneg unfolding collision_def sol_ok_def by blast+
  then have rejected: "verify L k (st_solution (w_state ?v), s) (w_compute ?w) = Some False"
    using pow_node.unlinked_rejected [OF assms(1,2) _ linked] w(1) v(1) assms(11) by (simp add: walk_ok_def)
  have nonce: "uint (cmp_nonce (w_compute ?w)) = st_nonce (w_state ?w)"
    using linked by (simp add: linked_def blake3_compute_def get_nonce_def)
  note raced = race_run [OF assms(5-10), of L ?H k grain]
  note ends = race_joined [OF assms(5-7)]
  show ?thesis
    using init run raced c' rejected nonce ends
    by (intro exI [of _ "the (par_run L ?H k grain (race i j) ps)"] exI [of _ "w_compute ?w"])
      (simp add: par_run_append par_result_def solve_parallel_def joined_def)
qed

theorem parallel_race_rejected_witness:
  "\<exists>sched s c'. solve_parallel ref_trex_libs ref_trait (ref_key 56) (ref_header 56 1) 1 MINING_GRAIN False 2 (sched @ race 0 1)
      = Some (Some s, c')
    \<and> verify ref_trex_libs (ref_key 56) s c' = Some False"
proof -
  obtain ps t where ps: "par_run ref_trex_libs ref_trait (ref_key 56) MINING_GRAIN racing_start
        \<lparr>ps_shared = \<lparr>sh_map = Map.empty, sh_found = False, sh_nonce = 1, sh_res = None\<rparr>,
          ps_workers = [ref_worker Loop 1 2 1 10 56 1 1 0, ref_worker Loop 2 3 1 8 56 1 11 0]\<rparr> = Some ps"
      "length (ps_workers ps) = 2" "w_pc (ps_workers ps ! 0) = Poll (ref_sol 8 2)" "w_pc (ps_workers ps ! 1) = Poll t"
      "\<not> sh_found (ps_shared ps)" "st_work (w_state (ps_workers ps ! 0)) \<noteq> st_work (w_state (ps_workers ps ! 1))"
    by (rule ref_racing [OF ref_par_init])
  have two: "0 < length (ps_workers ps)" "1 < length (ps_workers ps)" "(0 :: nat) \<noteq> 1"
    by (simp_all add: ps(2))
  have "list_all (\<lambda>m. m = 0 \<or> m = 1 \<or> w_pc (ps_workers ps ! m) = Returned) [0..<length (ps_workers ps)]"
    by (auto simp: list_all_iff ps(2))
  then show ?thesis
    using parallel_race_rejected [OF ref_trex.pow_node_axioms ref_key_ok ref_par_init ps(1) two ps(3-6)] by blast
qed

text \<open>
  C9. The workers always end: a run has at most \<open>cpus * (88 * n + 87) + 1\<close> actions, where \<open>n\<close> is the
  search length, and as long as one of them has not returned some worker can act (the read lock held
  across the publication never blocks all of them).
\<close>

theorem parallel_terminates:
  assumes "rho_walk L H" and "key_ok k" and "par_init L k c seed flag cpus = Some ps"
    and "(par_step L H k grain ^^ m) ps ps'"
  shows "m \<le> unat cpus * (88 * search_len L k + 87) + 1
    \<and> (joined ps' \<or> (\<exists>i ps''. par_action L H k grain i ps' = Some ps''))"
proof -
  have start: "par_ok L H k c ps" "length (ps_workers ps) = unat cpus"
      "\<forall>w \<in> set (ps_workers ps). w_pc w = Loop \<and> w_i w = 0 \<and> w_j w = 0"
    using rho_walk.par_init_ok [OF assms(1,2), of c seed flag cpus] assms(3) by auto
  then have "\<forall>w \<in> set (ps_workers ps). counts_ok (search_len L k) w"
    by (simp add: counts_ok_def)
  then have "m \<le> par_measure (search_len L k) ps"
    using par_steps_bounded [OF assms(4)] by simp
  moreover have "par_measure (search_len L k) ps \<le> unat cpus * (88 * search_len L k + 87) + 1"
    using par_measure_start [OF start(3)] start(2) by simp
  moreover have "par_ok L H k c ps'"
    using rho_walk.par_steps_ok [OF assms(1) relpowp_imp_rtranclp [OF assms(4)] assms(2) start(1)] .
  then have "\<forall>w \<in> set (ps_workers ps'). w_pc w \<noteq> Crashed"
    by (auto simp: par_ok_def worker_ok_def)
  ultimately show ?thesis
    using par_progress [of ps' L H k grain] by fastforce
qed

theorem parallel_terminates_witness:
  "\<exists>ps. par_init ref_trex_libs (ref_key 56) (ref_header 56 1) 1 False 2 = Some ps
    \<and> (joined ps \<or> (\<exists>i ps'. par_action ref_trex_libs ref_trait (ref_key 56) MINING_GRAIN i ps = Some ps'))"
  using parallel_terminates [OF ref_trex.node.rho_walk_axioms ref_key_ok [of 56] ref_par_init [of 56],
      of 0 MINING_GRAIN] ref_par_init [of 56]
  by simp

end
