(* ===== verification/Walk_Properties.thy ===== *)
theory Walk_Properties
  imports Reference_Run
begin

text \<open>
  The properties of the walk underneath the solvers, of the distinguished points, of the key that a
  collision gives away, and of the attacks the verifier leaves open.
\<close>

section \<open>The walk\<close>

lemma transit_of_step:
  assumes "step R H s c = Some (s', c')"
  shows "transit R H s c = Some (Inr s', c')"
proof (cases "transit R H s c")
  case None
  then show ?thesis using assms by (simp add: step_def)
next
  case (Some rc)
  obtain r d where rc: "rc = (r, d)" by (cases rc)
  then show ?thesis using assms Some by (cases r) (simp_all add: step_def)
qed

text \<open>
  C12. A step of the walk never fails on a well-formed state: the new exponents again stand for the new
  group element, the old element becomes the nonce of the header, and the header is otherwise the same.
\<close>

theorem transit_keeps_walk:
  assumes "rho_walk L H" and "key_ok k" and "walk_ok k s"
  shows "\<exists>s' c'. transit L H s c = Some (Inr s', c') \<and> walk_ok k s' \<and> linked L H c' s'
    \<and> same_header H c' c \<and> st_nonce s' = st_work s"
proof -
  obtain c' where "step L H s c = Some (next_state H c s, c')" "same_header H c' c"
      "linked L H c' (next_state H c s)" "walk_ok k (next_state H c s)"
    by (rule rho_walk.step_total [OF assms])
  moreover from this have "transit L H s c = Some (Inr (next_state H c s), c')"
    by (intro transit_of_step)
  ultimately show ?thesis by auto
qed

theorem transit_keeps_walk_witness:
  "walk_ok (ref_key 56) (ref_state 56 8 2 10 4)
   \<and> linked ref_trex_libs ref_trait (ref_header 56 10) (ref_state 56 8 2 10 4)"
proof -
  have start: "walk_ok (ref_key 56) (ref_state 56 1 2 1 10)"
    by (rule ref_walk_ok) simp_all
  show ?thesis
    using transit_keeps_walk [OF ref_trex.node.rho_walk_axioms ref_key_ok start, of "ref_header 56 1"]
      transit_of_step [OF ref_run_steps(1) [of 56 56 1]]
    by auto
qed

text \<open>
  C29. The first loop of the solvers is Floyd's cycle finding on the sequence of states the walk visits:
  it stops at the first index whose element is also that of the doubled index, and gives up when the
  exponents agree as well.
\<close>

theorem find_collision_is_floyd:
  assumes "rho_walk L H" and "key_ok k" and "walk_ok k s"
  shows "map_option search_states (find_collision L H n s s c c) = Some (floyd (walk_state H c s) 0 n)"
  using rho_walk.find_collision_floyd [OF assms same_header_refl same_header_refl,
      where m = n and i = 0 and c = c] by simp

theorem find_collision_is_floyd_witness:
  "find_collision ref_trex_libs ref_trait 2 (ref_state 56 1 2 1 10) (ref_state 56 1 2 1 10)
      (ref_header 56 1) (ref_header 56 1) =
     Some (Proceed (ref_state 56 2 8 4 3) (ref_state 56 8 0 4 3) (ref_header 56 4) (ref_header 56 4))
   \<and> floyd (walk_state ref_trait (ref_header 56 1) (ref_state 56 1 2 1 10)) 0 2 =
     Some (ref_state 56 2 8 4 3, ref_state 56 8 0 4 3)"
proof -
  have start: "walk_ok (ref_key 56) (ref_state 56 1 2 1 10)"
    by (rule ref_walk_ok) simp_all
  have run: "find_collision ref_trex_libs ref_trait (Suc (Suc 0)) (ref_state 56 1 2 1 10) (ref_state 56 1 2 1 10)
      (ref_header 56 1) (ref_header 56 1) =
     Some (Proceed (ref_state 56 2 8 4 3) (ref_state 56 8 0 4 3) (ref_header 56 4) (ref_header 56 4))"
    by (simp add: ref_run_steps)
  then show ?thesis
    using find_collision_is_floyd [OF ref_trex.node.rho_walk_axioms ref_key_ok start,
        where n = "Suc (Suc 0)" and c = "ref_header 56 1"]
    unfolding numeral_2_eq_2 by (simp only: run option.map search_states.simps option.inject simp_thms eq_commute)
qed

text \<open>
  C30. The search succeeds whenever the walk is long enough: if it visits an element twice by step
  \<open>j \<le> n\<close>, the first loop meets a collision by step \<open>j\<close>, which it keeps unless the exponents agree.
\<close>

theorem collision_found:
  assumes "rho_walk L H" and "key_ok k" and "walk_ok k s"
    and "st_work (walk_state H c s i) = st_work (walk_state H c s j)" and "i < j" and "j \<le> n"
  shows "\<exists>l c1 c2. 0 < l \<and> l \<le> j \<and> st_work (walk_state H c s l) = st_work (walk_state H c s (2 * l))
    \<and> find_collision L H n s s c c =
        Some (if st_solution (walk_state H c s l) \<noteq> st_solution (walk_state H c s (2 * l))
              then Proceed (walk_state H c s l) (walk_state H c s (2 * l)) c1 c2 else Drop c1)"
proof -
  let ?s = "walk_state H c s" and ?w = "\<lambda>l. st_work (walk_state H c s l)"
  obtain m where m: "0 < m" "m \<le> j" "?w m = ?w (2 * m)"
    using iterates_meet [OF walk_state_work assms(4,5)] by blast
  then have "meet ?w 0 n \<noteq> None"
    using assms(6) by (auto simp: meet_None_iff)
  then obtain l where l: "meet ?w 0 n = Some l"
    by blast
  then have l': "0 < l" "?w l = ?w (2 * l)" "l \<le> j"
    using meet_SomeD [OF l] m by (auto simp: not_less [symmetric])
  have "map_option search_states (find_collision L H n s s c c) =
      Some (if st_solution (?s l) \<noteq> st_solution (?s (2 * l)) then Some (?s l, ?s (2 * l)) else None)"
    using rho_walk.find_collision_floyd [OF assms(1-3) same_header_refl same_header_refl,
      where m = n and i = 0 and c = c] l
    by (simp add: floyd_def)
  then obtain r where r: "find_collision L H n s s c c = Some r" "search_states r =
      (if st_solution (?s l) \<noteq> st_solution (?s (2 * l)) then Some (?s l, ?s (2 * l)) else None)"
    by auto
  have "\<exists>c1 c2. r = (if st_solution (?s l) \<noteq> st_solution (?s (2 * l))
      then Proceed (?s l) (?s (2 * l)) c1 c2 else Drop c1)"
    using r(2) by (cases r) (auto split: if_splits)
  then show ?thesis
    using l' r(1) by blast
qed

lemma ref_walk:
  "walk_state ref_trait (ref_header 56 1) (ref_state 56 1 2 1 10) (Suc 0) = ref_state 56 8 2 10 4"
  "walk_state ref_trait (ref_header 56 1) (ref_state 56 1 2 1 10) (Suc (Suc (Suc 0))) = ref_state 56 2 0 3 4"
  by (simp_all add: ref_next_state ref_next_def)

theorem collision_found_witness:
  "\<exists>l. 0 < l \<and> l \<le> Suc (Suc (Suc 0))
     \<and> st_work (walk_state ref_trait (ref_header 56 1) (ref_state 56 1 2 1 10) l) =
       st_work (walk_state ref_trait (ref_header 56 1) (ref_state 56 1 2 1 10) (2 * l))"
proof -
  have start: "walk_ok (ref_key 56) (ref_state 56 1 2 1 10)"
    by (rule ref_walk_ok) simp_all
  show ?thesis
    using collision_found [OF ref_trex.node.rho_walk_axioms ref_key_ok start, of "ref_header 56 1" "Suc 0"
        "Suc (Suc (Suc 0))" 24]
    by (simp only: ref_walk ref_state_simps) auto
qed

section \<open>Distinguished points\<close>

lemma hash_diff_shift:
  assumes "16 \<le> uint b"
  shows "unat (b div 2 - 8 :: u32) = nat (uint b div 2 - 8)"
proof -
  have "uint (b div 2 - 8) = uint b div 2 - 8"
    using assms by (simp add: uint_sub_if' uint_div)
  then show ?thesis
    by (simp only: unat_eq_nat_uint)
qed

lemma uint_2_power_u256: "m < 256 \<Longrightarrow> uint (2 ^ m :: u256) = 2 ^ m"
proof -
  assume "m < 256"
  then have "uint (push_bit m 1 :: u256) = push_bit m 1"
    by (subst unsigned_push_bit_eq) (simp add: take_bit_push_bit push_bit_eq_mult)
  then show ?thesis by simp
qed

lemma uint_hash_diff:
  assumes "18 \<le> uint (key_bits k)" and "uint (key_bits k) < 224"
  shows "2 * uint (hash_diff k) =
      (if even (uint (key_bits k)) then 2 else 3) * 2 ^ nat (uint (key_bits k) div 2 - 8)"
proof -
  let ?b = "key_bits k"
  define m where "m = nat (uint ?b div 2 - 8)"
  have m: "1 \<le> m" "m < 112"
    using assms by (auto simp: m_def)
  have shift: "unat (?b div 2 - 8) = m"
    using hash_diff_shift [of ?b] assms(1) by (simp add: m_def)
  have "?b div 2 - 8 \<noteq> 0"
    using shift m by (intro notI) simp
  then have pred: "unat (?b div 2 - 8 - 1) = m - 1"
    using shift unat_minus_one by metis
  have odd: "?b mod 2 \<noteq> 0 \<longleftrightarrow> odd (uint ?b)"
    by (simp add: word_uint_eq_iff uint_mod odd_iff_mod_2_eq_one)
  have double: "2 * 2 ^ (m - 1) = (2 :: int) ^ m"
    using m(1) by (cases m) simp_all
  have small: "(2 :: int) ^ m \<le> 2 ^ 112"
    using m(2) by (intro power_increasing) simp_all
  have "uint (push_bit m 1 + push_bit (m - 1) 1 :: u256) = 2 ^ m + 2 ^ (m - 1)"
    using m double small by (simp add: uint_plus_if' uint_2_power_u256)
  moreover have "hash_diff k = (if odd (uint ?b) then push_bit m 1 + push_bit (m - 1) 1 else push_bit m 1)"
    unfolding hash_diff_def Let_def POINT_DST_FACTOR_def odd shift pred by simp
  ultimately show ?thesis
    using m double by (simp add: uint_2_power_u256 m_def [symmetric])
qed

text \<open>
  C38. For every key of 18 to 223 bits, which the difficulties of the chain are among, the factor \<open>hash_diff\<close> is \<open>2 ^ (bits / 2 - 8)\<close>, half as much
  again when \<open>bits\<close> is odd, and a state is a distinguished point exactly when its hash times the
  factor stays below \<open>2 ^ 256\<close>.
\<close>

theorem distinguished_point_bound:
  assumes "18 \<le> uint (key_bits k)" and "uint (key_bits k) < 224"
  shows "2 * uint (hash_diff k) =
      (if even (uint (key_bits k)) then 2 else 3) * 2 ^ nat (uint (key_bits k) div 2 - 8)
    \<and> (overflowed L s (hash_diff k) = Some False \<longleftrightarrow>
      (\<exists>e. hash_encode L s = Some e \<and> uint e * uint (hash_diff k) < 2 ^ 256))"
  using uint_hash_diff [OF assms] by (auto simp: overflowed_def overflowing_mul_def bind_eq_Some_conv)

theorem distinguished_point_bound_witness:
  "2 * uint (hash_diff (ref_key 57)) = 3 * 2 ^ 20"
  using distinguished_point_bound [of "ref_key 57" ref_trex_libs "ref_state 57 1 2 1 10"] by simp

section \<open>What the verifier leaves open\<close>

text \<open>
  C24. A pair need not be a collision: at one linked state at a distinguished point, the solution paired
  with itself under another \<open>n\<close> counts as two different solutions and is accepted.
\<close>

theorem forged_pair_accepted:
  assumes "pow_node L" and "key_ok k" and "walk_ok k s" and "linked L (blake3_compute L) c s"
    and "overflowed L s (hash_diff k) = Some False" and "m \<noteq> sol_n (st_solution s)"
  shows "verify L k (st_solution s, st_solution s\<lparr>sol_n := m\<rparr>) c = Some True"
  by (rule pow_node.forged_verifies [OF assms])

theorem forged_pair_accepted_witness:
  "verify ref_trex_libs (ref_key 56) (ref_sol 2 0, ref_sol 2 0\<lparr>sol_n := 6\<rparr>) (ref_header 56 3) = Some True"
proof -
  have start: "walk_ok (ref_key 56) (ref_state 56 2 8 4 3)"
    by (rule ref_walk_ok) simp_all
  have s: "walk_ok (ref_key 56) (ref_state 56 2 0 3 4)"
      "linked ref_trex_libs ref_trait (ref_header 56 3) (ref_state 56 2 0 3 4)"
    using ref_trex.node.step_SomeD [OF ref_key_ok start ref_run_steps(3) [of 56 56 4]] by blast+
  show ?thesis
    using forged_pair_accepted [OF ref_trex.pow_node_axioms ref_key_ok s ref_not_overflowed, of 6] by simp
qed

text \<open>
  C16. The key of a seal is not checked before it is used: for every parent and every difficulty that fits
  the key's bit length there is a seal on which the verifier panics. The proof gives one with the modulus 1.
\<close>

lemma verify_panics_mod_1:
  assumes "pow_node L" and "key_p k = 1" and "fst sols \<noteq> snd sols"
    and "nonneg_exponents (fst sols)" and "nonneg_exponents (snd sols)"
  shows "verify L k sols c = None"
proof -
  have "rug_spec L" and "rho_walk L (blake3_compute L)"
    using assms(1) pow_node_rho_walk
    by (auto simp: pow_node_def blake_spec_def rand_spec_def)
  then have "derive L k (fst sols) = Some 0" "derive L k (snd sols) = Some 0"
      "from_pub_key L k 1 = None"
    using rug_spec.derive_eq [of L k] rho_walk.from_pub_key_small [of L "blake3_compute L" k 1] assms
    by (simp_all add: element_def)
  then show ?thesis
    using assms(3) by (cases "rem_euc L (hash_integer L c) (key_p k)") (simp_all add: verify_def Let_def)
qed

theorem crafted_seal_panics:
  assumes "trex_node L" and "uint difficulty < 2 ^ 32"
  shows "\<exists>raw_seal. trex_verify L pre_hash raw_seal difficulty = None"
proof -
  define k where "k = \<lparr>key_p = 1, key_g = 1, key_h = 1, key_bits = ucast difficulty\<rparr>"
  define s where "s = (genesis_seal difficulty)\<lparr>seal_pubkey := to_raw L k,
    seal_solutions := (\<lparr>sol_a = 1, sol_b = 1, sol_n = 1\<rparr>, \<lparr>sol_a = 0, sol_b = 1, sol_n = 1\<rparr>)\<rparr>"
  have node: "pow_node L" "rug_spec L"
    using assms(1) by (auto simp: trex_node_def pow_node_def blake_spec_def rand_spec_def)
  have key: "from_raw L (to_raw L k) = k" "raw_bits (to_raw L k) = ucast difficulty"
    using trex_node.from_to_raw [OF assms(1), of k] trex_node.to_raw_bits [OF assms(1), of k]
    by (simp_all add: k_def key_fits_def)
  have "length (seal_seeds s) = SEEDS_LEN"
    using genesis_seal_seeds [of difficulty] by (simp add: s_def)
  then have dec: "decode_seal L (encode_seal L s) = Some s"
    by (rule trex_node.decode_encode_seal [OF assms(1)])
  have bits: "ucast (ucast difficulty :: u32) = difficulty"
    using assms(2) by (intro word_uint_eqI) (simp add: unsigned_ucast_eq unsigned_take_bit_eq take_bit_int_eq_self)
  have fields: "seal_difficulty s = difficulty" "seal_pubkey s = to_raw L k"
    by (simp_all add: s_def genesis_seal_def Let_def)
  have mod_1: "key_p k = 1"
    by (simp add: k_def)
  have "verify_seal L pre_hash s difficulty = None"
    using verify_panics_mod_1 [OF node(1) mod_1]
    by (simp add: verify_seal_def s_def key(1) from_u256_def rug_spec.u256_bigint_uint [OF node(2)]
        nonneg_exponents_def)
  then have "trex_verify L pre_hash (encode_seal L s) difficulty = None"
    using fields by (simp add: trex_verify_def dec hash_meets_difficulty_def key(2) bits)
  then show ?thesis by blast
qed

theorem crafted_seal_panics_witness:
  "\<exists>raw_seal. trex_verify ref_trex_libs (replicate 32 0) raw_seal 56 = None"
  using crafted_seal_panics [OF ref_trex.trex_node_axioms, of 56] by simp

section \<open>The key a collision gives away\<close>

text \<open>
  When the difference of the \<open>b\<close> exponents is invertible modulo the group order, \<open>eqs_solvers\<close>
  returns the one solution of the congruence.
\<close>

theorem eqs_solvers_solves:
  assumes "rug_spec R" and "1 < n" and "coprime (b1 - b2) n"
    and "(b1 - b2) * x mod n = (a2 - a1) mod n"
  shows "eqs_solvers R a1 b1 a2 b2 n = Some (Some (x mod n))"
  by (rule rug_spec.eqs_solvers_unique [OF assms])

theorem eqs_solvers_solves_witness: "eqs_solvers ref_libs 2 0 8 2 5 = Some (Some 2)"
  using eqs_solvers_solves [OF ref_rug.rug_spec_axioms, of 5 0 2 2 8 2] by simp

text \<open>
  In the other case, the one the source handles with the greatest common divisor, it can only
  return 0: the difference it divides is \<open>a2 - a2\<close>.
\<close>

theorem eqs_solvers_loses_key:
  assumes "rug_spec R" and "1 < n" and "\<not> coprime (b1 - b2) n"
    and "eqs_solvers R a1 b1 a2 b2 n = Some (Some key)"
  shows "key = 0"
  by (rule rug_spec.eqs_solvers_degenerate [OF assms])

theorem eqs_solvers_loses_key_witness:
  "eqs_solvers ref_libs 0 2 2 0 4 = Some (Some 0) \<and> (2 - 0) * 0 mod 4 \<noteq> (2 - 0) mod (4 :: int)
   \<and> (2 - 0) * 1 mod 4 = (2 - 0) mod (4 :: int)"
proof -
  have "\<exists>key. eqs_solvers ref_libs 0 2 2 0 4 = Some (Some key)"
    by (simp add: eqs_solvers_def ref_libs_def upto.simps signed_divide_int_def)
  then obtain key where "eqs_solvers ref_libs 0 2 2 0 4 = Some (Some key)"
    by blast
  moreover from this have "key = 0"
    by (rule eqs_solvers_loses_key [OF ref_rug.rug_spec_axioms, rotated 2]) simp_all
  ultimately show ?thesis by simp
qed

text \<open>
  C31. \<open>key_gen\<close> recovers a private key from a collision: over a generator of full order \<open>2 n\<close>, with an
  invertible difference modulo \<open>n\<close>, the returned exponent of \<open>g\<close> gives \<open>h\<close>.
\<close>

theorem key_gen_recovers_key:
  assumes "rug_spec R" and "key_ok k" and "full_order k" and "secret k x"
    and "key_p k - 1 = 2 * n" and "1 < n" and "sol_n (snd sols) = n"
    and "nonneg_exponents (fst sols)" and "nonneg_exponents (snd sols)"
    and "element k (fst sols) = element k (snd sols)"
    and "coprime (sol_b (fst sols) - sol_b (snd sols)) n"
  shows "\<exists>key. key_gen R k sols =
      Some (Some \<lparr>prv_p = key_p k, prv_g = key_g k, prv_x = key, prv_bits = key_bits k\<rparr>)
    \<and> 0 \<le> key \<and> key_g k ^ nat key mod key_p k = key_h k"
  by (rule rug_spec.key_gen_recovers [OF assms])

lemma ref_full_order: "full_order (ref_key bits)"
  unfolding full_order_def
proof (intro allI impI)
  fix e :: nat
  assume one: "key_g (ref_key bits) ^ e mod key_p (ref_key bits) = 1"
  have "(2 :: int) ^ e = (2 ^ 10) ^ (e div 10) * 2 ^ (e mod 10)"
    by (metis mult_div_mod_eq power_add power_mult)
  then have "(2 :: int) ^ e mod 11 = ((2 ^ 10) mod 11) ^ (e div 10) * 2 ^ (e mod 10) mod 11"
    by (metis mod_mult_left_eq power_mod)
  then have "(2 :: int) ^ (e mod 10) mod 11 = 1"
    using one by simp
  moreover have "\<forall>r < 10. (2 :: int) ^ r mod 11 = 1 \<longrightarrow> r = 0"
    by code_simp
  ultimately have "e mod 10 = 0"
    by simp
  then show "nat (key_p (ref_key bits) - 1) dvd e"
    by auto
qed

theorem key_gen_recovers_key_witness:
  "\<exists>key. key_gen ref_libs (ref_key 56) (ref_sol 2 0, ref_sol 8 2) =
      Some (Some \<lparr>prv_p = 11, prv_g = 2, prv_x = key, prv_bits = 56\<rparr>) \<and> 2 ^ nat key mod 11 = (7 :: int)"
  using key_gen_recovers_key [OF ref_rug.rug_spec_axioms ref_key_ok ref_full_order, of 56 7 5
      "(ref_sol 2 0, ref_sol 8 2)"]
  by (auto simp: secret_def nonneg_exponents_def ref_accepts_data)

section \<open>Words and integers\<close>

text \<open>
  C39. The 256-bit form of a solution loses nothing: converting non-negative exponents below \<open>2 ^ 256\<close>
  to words and back gives them again, and so does the way from words to integers and back.
\<close>

theorem solution_word_roundtrip:
  assumes "rug_spec R"
    and "sol_a s \<in> {0..<2 ^ 256}" and "sol_b s \<in> {0..<2 ^ 256}" and "sol_n s \<in> {0..<2 ^ 256}"
  shows "map_option (from_u256 R) (to_u256 R s) = Some s \<and> to_u256 R (from_u256 R t) = Some t"
  using assms(2-)
  by (simp add: to_u256_def from_u256_def rug_spec.bigint_u256_fits [OF assms(1)]
      rug_spec.u256_bigint_uint [OF assms(1)] rug_spec.u256_bigint_roundtrip [OF assms(1), simplified
        rug_spec.u256_bigint_uint [OF assms(1)]] uint_word_of_int)

theorem solution_word_roundtrip_witness:
  "map_option (from_u256 ref_libs) (to_u256 ref_libs (ref_sol 8 2)) = Some (ref_sol 8 2)"
  using solution_word_roundtrip [OF ref_rug.rug_spec_axioms, of "ref_sol 8 2"] by simp

end
