(* ===== verification/Chain_Properties.thy ===== *)
theory Chain_Properties
  imports Reference_Run
begin

text \<open>
  The properties of seals and of the mining thread: the key chain and the seeds it hands on, what the
  two verifiers check, and what the loop of the node does with a result.
\<close>

section \<open>The key chain\<close>

text \<open>
  C37. For every difficulty of the chain below the maximum a seal yields one puzzle: a well-formed key
  that fits the words of a seal and has as many bits as the difficulty says.
\<close>

theorem puzzle_matches_difficulty:
  assumes "trex_node L" and "length (seal_seeds s) = SEEDS_LEN" and "difficulty_ok d"
  shows "\<exists>k. puzzle_of L s d = Some k \<and> key_ok k \<and> key_fits k \<and> uint (key_bits k) = uint d"
  by (rule trex_node.puzzle_of_ok [OF assms])

theorem puzzle_matches_difficulty_witness:
  "\<exists>k. puzzle_of ref_trex_libs (genesis_seal 56) 56 = Some k \<and> key_bits k = 56"
  using puzzle_matches_difficulty [OF ref_trex.trex_node_axioms genesis_seal_seeds ref_difficulty_ok, of 56]
  by (auto simp: word_uint_eq_iff)

text \<open>
  C36. The seeds a new seal hands on: entry \<open>i\<close> is the seed that key \<open>i\<close> of the current chain yields,
  as 128 bits for the first 80 keys, where a larger seed becomes 0, and as 256 bits for the rest.
\<close>

lemma new_seeds_nth:
  assumes "new_seeds L idx keys seeds = Some seeds'" and "j < length seeds"
  shows "seeds' ! j =
    (if idx \<le> j \<and> j < idx + length keys
     then (if j < 80 then U128 (bigint_u128 L (yield_seed L (keys ! (j - idx))))
           else U256 (the (bigint_u256 L (yield_seed L (keys ! (j - idx))))))
     else seeds ! j)"
  using assms
proof (induction keys arbitrary: idx seeds)
  case Nil
  then show ?case by auto
next
  case (Cons key keys)
  let ?seed = "if idx < 80 then U128 (bigint_u128 L (yield_seed L key))
    else U256 (the (bigint_u256 L (yield_seed L key)))"
  have 80: "unat (128 - MIN_DIFFICULTY) = 80"
    by (simp add: difficulty_consts)
  have idx: "idx < length seeds" and rest: "new_seeds L (Suc idx) keys (seeds[idx := ?seed]) = Some seeds'"
    using Cons.prems(1) unfolding new_seeds.simps 80 by (auto simp: bind_eq_Some_conv split: if_splits)
  note IH = Cons.IH [OF rest, simplified, OF Cons.prems(2)]
  consider "j = idx" | "Suc idx \<le> j" | "j < idx"
    by linarith
  then show ?case
  proof cases
    case 2
    then have "j - idx = Suc (j - Suc idx)"
      by simp
    then show ?thesis
      using 2 IH idx by simp
  qed (use IH idx in simp_all)
qed

theorem next_seeds_content:
  assumes "trex_node L" and "try_cpu_mining L s c mining_seed cpus obs flag sched = Some (Some new, c')"
    and "length (seal_seeds s) = SEEDS_LEN" and "i < 176"
  shows "length (seal_seeds new) = 176 \<and> seal_seeds new ! i =
    (let seed = yield_seed L (yield_pub_keys L (seal_seeds s) ! i)
     in if i < 80 then U128 (if seed < 2 ^ 128 then word_of_int seed else 0) else U256 (word_of_int seed))"
proof -
  let ?keys = "yield_pub_keys L (seal_seeds s)"
  obtain seeds where new: "seal_seeds new = seeds"
    "new_seeds L 0 ?keys (replicate SEEDS_LEN (U128 1)) = Some seeds"
    by (rule trex_node.try_cpu_mining_SomeE [OF assms(1,2)]) simp
  have rug: "rug_spec L"
    using assms(1) by (auto simp: trex_node_def pow_node_def blake_spec_def rand_spec_def)
  have i: "i < SEEDS_LEN"
    using assms(4) by simp
  have fits: "0 \<le> yield_seed L (?keys ! i)" "yield_seed L (?keys ! i) < 2 ^ 256"
    using trex_node.yield_seed_fits [OF assms(1) trex_node.yield_pub_keys_ok(2) [OF assms(1,3) i]] by simp_all
  have "seeds ! i = (if i < 80 then U128 (bigint_u128 L (yield_seed L (?keys ! i)))
      else U256 (the (bigint_u256 L (yield_seed L (?keys ! i)))))"
    using new_seeds_nth [OF new(2), of i] assms(3,4) by simp
  then show ?thesis
    using new_seeds_length [OF new(2)] fits
    by (simp add: new(1) rug_spec.bigint_u128_eq [OF rug] rug_spec.bigint_u256_fits [OF rug])
qed

theorem next_seeds_content_witness:
  "\<exists>new c'. try_cpu_mining ref_trex_libs (genesis_seal 56) (ref_header 56 1) 1 None (\<lambda>i. False) False [] = Some (Some new, c')
     \<and> seal_seeds new ! 0 = U128 (word_of_int (yield_seed ref_trex_libs (ref_key 48)))"
proof -
  obtain new where new: "try_cpu_mining ref_trex_libs (genesis_seal 56) (ref_header 56 1) 1 None (\<lambda>i. False) False []
      = Some (Some new, ref_header 56 3)"
    using ref_try_cpu_mining [OF genesis_seal_seeds] by blast
  have key: "yield_pub_keys ref_trex_libs (seal_seeds (genesis_seal 56)) ! 0 = ref_key 48"
    using genesis_seal_seeds [of 56] by (simp add: nth_yield_pub_keys)
  show ?thesis
    using next_seeds_content [OF ref_trex.trex_node_axioms new genesis_seal_seeds, of 0] new
    by (simp add: key Let_def)
qed

section \<open>The verifiers of the two algorithms\<close>

text \<open>
  \<open>TREXAlgo\<close> accepts no more than \<open>MinTREXAlgo\<close>: what it accepts carries the difficulty asked for
  in the seal and in the key, and passes the solution check of the minimal algorithm.
\<close>

theorem trex_verify_strengthens_min:
  assumes "trex_verify L pre_hash raw_seal difficulty = Some True"
  shows "min_verify L pre_hash raw_seal difficulty = Some True
    \<and> (\<exists>s. decode_seal L raw_seal = Some s \<and> seal_difficulty s = difficulty
        \<and> ucast (raw_bits (seal_pubkey s)) = difficulty)"
  using assms
  by (auto simp: trex_verify_def min_verify_def hash_meets_difficulty_def split: option.splits if_splits)

lemma ref_mined_seal:
  "\<exists>new. trex_verify ref_trex_libs (replicate 32 0) (encode_seal ref_trex_libs new) 56 = Some True"
proof -
  obtain new where new: "try_cpu_mining ref_trex_libs (genesis_seal 56) (ref_header 56 1) 1 None (\<lambda>i. False) False []
      = Some (Some new, ref_header 56 3)"
    using ref_try_cpu_mining [OF genesis_seal_seeds] by blast
  have "trex_verify ref_trex_libs (cmp_pre_hash (ref_header 56 1)) (encode_seal ref_trex_libs new)
      (cmp_difficulty (ref_header 56 1)) = Some True"
    by (rule ref_trex.mined_seal_verifies(1) [OF genesis_seal_seeds _ new])
      (simp_all add: ref_header_def ref_difficulty_ok publishes_alone_def)
  then show ?thesis
    by (auto simp: ref_header_def)
qed

theorem trex_verify_strengthens_min_witness:
  "\<exists>raw_seal. min_verify ref_trex_libs (replicate 32 0) raw_seal 56 = Some True"
  using ref_mined_seal trex_verify_strengthens_min by blast

section \<open>Mining\<close>

text \<open>
  A found flag stops the search: a solver that reads true at every load returns nothing and does not
  touch the flag.
\<close>

theorem found_flag_stops:
  assumes "rho_walk L H" and "key_ok k" and "\<forall>i. obs i"
  shows "\<exists>c'. solve_dist L H k c seed grain obs = Some (None, c', False) \<and> same_header H c' c"
proof -
  obtain r c' stored where run: "solve_dist L H k c seed grain obs = Some (r, c', stored)"
      "same_header H c' c" "stored \<longleftrightarrow> r \<noteq> None" "\<forall>sols. r = Some sols \<longrightarrow> (\<exists>i. \<not> obs i)"
    using rho_walk.solve_dist_ok [OF assms(1,2), of c seed grain obs] by blast
  then have "r = None"
    using assms(3) by (cases r) simp_all
  then show ?thesis
    using run by simp
qed

theorem found_flag_stops_witness:
  "\<exists>c'. solve_dist ref_trex_libs ref_trait (ref_key 56) (ref_header 56 1) 1 MINING_GRAIN (\<lambda>i. True) =
     Some (None, c', False)"
  using found_flag_stops [OF ref_trex.node.rho_walk_axioms ref_key_ok, of "\<lambda>i. True"] by blast

section \<open>The mining loop\<close>

text \<open>
  The loop of the node never panics while the best block carries a seal that decodes and the
  difficulty stays below the maximum, however the best block and the metadata change in between.
\<close>

lemma mining_step_returns:
  assumes L: "trex_node L" and cpus: "cpus = None \<or> cpus = Some v \<and> v \<le> 1"
    and seal: "find_seal L (env_chain env) \<noteq> None"
    and md: "\<And>d h. env_metadata env = Some (d, h) \<Longrightarrow> difficulty_ok d"
  shows "\<exists>st' out. mining_step L cpus env st = Some (st', out)"
proof -
  obtain so num where fs: "find_seal L (env_chain env) = Some (so, num)"
    using seal by auto
  consider "rests st num" | "so = None \<or> env_metadata env = None"
    | s d h where "so = Some s" "env_metadata env = Some (d, h)" "\<not> rests st num"
    by (cases so; cases "env_metadata env") auto
  then show ?thesis
  proof cases
    case 1
    then show ?thesis using mining_step_rests [OF fs] by blast
  next
    case 2
    then show ?thesis using fs by (auto simp: mining_step_def split: option.split)
  next
    case 3
    let ?c = "\<lparr>cmp_difficulty = d, cmp_pre_hash = h, cmp_nonce = 1\<rparr>"
    have "length (seal_seeds s) = SEEDS_LEN"
      using trex_node.find_seal_seeds [OF L] fs 3(1) by blast
    then obtain r c' where "try_cpu_mining L s ?c (mn_seed st) cpus (env_obs env) False (env_sched env) = Some (r, c')"
      using trex_node.try_cpu_mining_total [OF L _ _ cpus, of s ?c] md [OF 3(2)] by fastforce
    then show ?thesis
      using mining_step_mines [OF fs [unfolded 3(1)] 3(3,2), of cpus] by (cases r) auto
  qed
qed

theorem mining_loop_never_panics:
  assumes "trex_node L" and "cpus = None \<or> cpus = Some v \<and> v \<le> 1"
    and "\<forall>env \<in> set envs. find_seal L (env_chain env) \<noteq> None
          \<and> (\<forall>d h. env_metadata env = Some (d, h) \<longrightarrow> difficulty_ok d)"
  shows "\<exists>st' outs. mining_run L cpus envs st = Some (st', outs) \<and> length outs = length envs"
  using assms(3)
proof (induction envs arbitrary: st)
  case Nil
  then show ?case by simp
next
  case (Cons env envs)
  obtain st1 out where "mining_step L cpus env st = Some (st1, out)"
    using mining_step_returns [OF assms(1,2), of env st] Cons.prems by auto
  then show ?case
    using Cons.IH [of st1] Cons.prems by fastforce
qed

lemma ref_find_seal: "find_seal ref_trex_libs (env_chain ref_env) = Some (Some (genesis_seal 56), 0)"
  by (simp add: find_seal_def ref_env_def INIT_DIFFICULTY_def)

lemma ref_env_metadata: "env_metadata ref_env = Some (56, replicate 32 0)"
  by (simp add: ref_env_def)

theorem mining_loop_never_panics_witness:
  "\<exists>st' outs. mining_run ref_trex_libs None [ref_env, ref_env] ref_mining = Some (st', outs) \<and> length outs = Suc (Suc 0)"
  using mining_loop_never_panics [OF ref_trex.trex_node_axioms, of None 0 "[ref_env, ref_env]" ref_mining]
  by (simp add: ref_find_seal ref_env_metadata ref_difficulty_ok)

text \<open>
  One attempt per height: after an attempt above height 0 that found nothing, the loop sleeps in
  every iteration until the number of the best block changes, and does not try the next seed.
\<close>

theorem one_attempt_per_height:
  assumes "mining_step L cpus env st = Some (st', Failed)" and "mn_number st' \<noteq> 0"
    and "\<forall>e \<in> set envs. \<exists>s. find_seal L (env_chain e) = Some (s, mn_number st')"
  shows "mining_run L cpus envs st' = Some (st', replicate (length envs) Slept)"
  by (rule failed_rests_forever [OF assms])

definition ref_env_1 :: "nat mining_env" where
  "ref_env_1 = \<lparr>env_metadata = Some (56, replicate 32 0),
     env_chain = \<lparr>bc_best_hash = 0, bc_best_number = 1,
       bc_header = (\<lambda>h. Some (Some [Seal_Item POW_ENGINE_ID (encode_seal ref_trex_libs (genesis_seal 56))]))\<rparr>,
     env_obs = (\<lambda>i. True), env_sched = []\<rparr>"

lemma ref_find_seal_1: "find_seal ref_trex_libs (env_chain ref_env_1) = Some (Some (genesis_seal 56), 1)"
proof -
  have "decode_seal ref_trex_libs (encode_seal ref_trex_libs (genesis_seal 56)) = Some (genesis_seal 56)"
    by (rule ref_trex.decode_encode_seal [OF genesis_seal_seeds])
  then show ?thesis
    by (simp add: find_seal_def ref_env_1_def as_seal_def)
qed

lemma ref_solve_dist_stopped:
  "solve_dist ref_trex_libs ref_trait (ref_key 56) (ref_header d 1) 1 MINING_GRAIN (\<lambda>i. True) =
     Some (None, ref_header d 3, False)"
proof -
  obtain k where "search_len ref_trex_libs (ref_key 56) = Suc (Suc k)"
    using ref_search_24 by blast
  then show ?thesis
    by (simp add: solve_dist_def ref_from_pub_key ref_run_steps ref_not_overflowed MINING_GRAIN_def word_le_def)
qed

lemma ref_mining_fails:
  "mining_step ref_trex_libs None ref_env_1 ref_mining = Some (\<lparr>mn_seed = 2, mn_number = 1\<rparr>, Failed)"
proof -
  have "try_cpu_mining ref_trex_libs (genesis_seal 56) (ref_header 56 1) 1 None (\<lambda>i. True) False [] =
      Some (None, ref_header 56 3)"
    using ref_trex.keychain_seeds_total [OF genesis_seal_seeds [of 56]] ref_puzzle [OF genesis_seal_seeds [of 56]]
      ref_solve_dist_stopped [of 56]
    by (auto simp: try_cpu_mining_def solve_on_def ref_header_def ref_trex.u256_bigint_uint Let_def)
  moreover have "next_seed 1 = 2"
    by code_simp
  ultimately show ?thesis
    using mining_step_mines [OF ref_find_seal_1, of ref_mining 56 "replicate 32 0" None]
    by (simp add: rests_def ref_mining_def ref_env_1_def ref_header_def)
qed

theorem one_attempt_per_height_witness:
  "mining_run ref_trex_libs None [ref_env_1, ref_env_1] \<lparr>mn_seed = 2, mn_number = 1\<rparr> =
     Some (\<lparr>mn_seed = 2, mn_number = 1\<rparr>, [Slept, Slept])"
  using one_attempt_per_height [OF ref_mining_fails, of "[ref_env_1, ref_env_1]"] ref_find_seal_1
  by simp

text \<open>
  The seed the loop starts from: the first 32 bytes of the peer id as a little-endian number; a
  shorter id makes the count of bytes to drop wrap around, and everything is dropped.
\<close>

theorem mining_seed_value:
  assumes "length v < 2 ^ 64"
  shows "generate_mining_seed (Inr v) =
    Some (Inr (if 32 \<le> length v then word_of_int (le_val (take 32 v)) else 0))"
proof (cases "32 \<le> length v")
  case True
  then show ?thesis using generate_mining_seed_ok assms by simp
next
  case False
  define n where "n = (of_nat (length v) :: u64)"
  have n: "unat n = length v"
    unfolding n_def using assms by (intro unat_of_nat_small) simp
  have "length v \<le> unat (n - 32)"
    using False n by (simp add: unat_sub_if' word_le_nat_alt)
  then show ?thesis
    using False by (simp add: generate_mining_seed_def Let_def n_def pop_times_take u256_from_le_def)
qed

theorem mining_seed_value_witness:
  "generate_mining_seed (Inr (replicate 38 1) :: unit + bytes) = Some (Inr (word_of_int (le_val (replicate 32 1))))"
  using mining_seed_value [of "replicate 38 1"] by simp

end
