(* ===== verification/Clamp.thy ===== *)
theory Clamp
  imports Constants
begin

text \<open>
  \<open>clamp\<close> of \<open>pallets/difficulty/src/lib.rs\<close>: the step of the difficulty adjustment, computed in
  \<open>f32\<close>. The operations on \<open>f32\<close> and the crate \<open>fast_math\<close> are the record \<open>f32_ops\<close>; the locale
  \<open>f32_spec\<close> states how far each is from the exact operation: a relative error of \<open>2 ^ -20\<close> for the
  conversion, the quotient and the square (IEEE single precision has \<open>2 ^ -24\<close>), as long as the
  result is far from overflow and underflow, an absolute error of \<open>0.01\<close> for \<open>fast_math::log2\<close>
  (its documentation gives \<open>0.009\<close>), and a half for rounding to an integer.
\<close>

record 'f f32_ops =
  f_of_u128 :: "u128 \<Rightarrow> 'f"
  f_div :: "'f \<Rightarrow> 'f \<Rightarrow> 'f"
  f_powi2 :: "'f \<Rightarrow> 'f"
  f_log2 :: "'f \<Rightarrow> 'f"
  f_round_i128 :: "'f \<Rightarrow> int"           \<comment> \<open>\<open>.round() as i128\<close>\<close>

definition clamp :: "('f, 'z) f32_ops_scheme \<Rightarrow> u128 \<Rightarrow> u128 \<Rightarrow> int" where
  "clamp F block_time_target measured_block_time =
     (let adjustment =
        f_log2 F (f_powi2 F (f_div F (f_of_u128 F block_time_target) (f_of_u128 F measured_block_time)))
      in max (min (f_round_i128 F adjustment) (uint CLAMP_FACTOR)) (- uint CLAMP_FACTOR))"

definition near :: "real \<Rightarrow> real \<Rightarrow> bool" where
  "near x y \<longleftrightarrow> y * (1 - 1 / 2 ^ 20) \<le> x \<and> x \<le> y * (1 + 1 / 2 ^ 20)"

definition in_range :: "real \<Rightarrow> bool" where
  "in_range x \<longleftrightarrow> 1 / 2 ^ 125 \<le> x \<and> x \<le> 2 ^ 125"

locale f32_spec =
  fixes F :: "('f, 'z) f32_ops_scheme" and val :: "'f \<Rightarrow> real"
  assumes of_u128: "0 < uint n \<Longrightarrow> uint n < 2 ^ 62 \<Longrightarrow>
          near (val (f_of_u128 F n)) (real_of_int (uint n))"
    and div: "0 < val y \<Longrightarrow> in_range (val x / val y) \<Longrightarrow> near (val (f_div F x y)) (val x / val y)"
    and powi2: "in_range (val x * val x) \<Longrightarrow> near (val (f_powi2 F x)) (val x * val x)"
    and log2_close: "in_range (val x) \<Longrightarrow> \<bar>val (f_log2 F x) - log 2 (val x)\<bar> \<le> 1 / 100"
    and round_close: "\<bar>val x\<bar> < 2 ^ 100 \<Longrightarrow> \<bar>of_int (f_round_i128 F x) - val x\<bar> \<le> 1 / 2"

lemma clamp_range: "clamp F t m \<in> {- 1, 0, 1}"
  by (auto simp: clamp_def CLAMP_FACTOR_def Let_def max_def min_def)

lemma near_le: "near x y \<Longrightarrow> 0 < y \<Longrightarrow> y * (1 - 1 / 2 ^ 20) \<le> x \<and> x \<le> y * (1 + 1 / 2 ^ 20) \<and> 0 < x"
proof -
  assume *: "near x y" "0 < y"
  then have "0 < y * (1 - 1 / 2 ^ 20)" by simp
  with * show ?thesis unfolding near_def by (intro conjI; linarith)
qed

text \<open>The relative error of a quotient whose operands have the relative error \<open>e\<close>.\<close>

lemma quotient_error:
  fixes x y a b :: real
  assumes "0 < x" and "0 < y" and "near a x" and "near b y"
  shows "x / y * (1 - 3 / 2 ^ 20) \<le> a / b" and "a / b \<le> x / y * (1 + 3 / 2 ^ 20)"
proof -
  have a: "x * (1 - 1 / 2 ^ 20) \<le> a" "a \<le> x * (1 + 1 / 2 ^ 20)" "0 < a"
    and b: "y * (1 - 1 / 2 ^ 20) \<le> b" "b \<le> y * (1 + 1 / 2 ^ 20)" "0 < b"
    using near_le [OF assms(3,1)] near_le [OF assms(4,2)] by blast+
  have "x / y * (1 - 3 / 2 ^ 20) \<le> (x * (1 - 1 / 2 ^ 20)) / (y * (1 + 1 / 2 ^ 20))"
    using assms(1,2) by (simp add: field_simps)
  also have "\<dots> \<le> a / b"
    using a b assms(1) by (intro frac_le) auto
  finally show "x / y * (1 - 3 / 2 ^ 20) \<le> a / b" .
  have "a / b \<le> (x * (1 + 1 / 2 ^ 20)) / (y * (1 - 1 / 2 ^ 20))"
    using a b assms(2) by (intro frac_le) auto
  also have "\<dots> \<le> x / y * (1 + 3 / 2 ^ 20)"
    using assms(1,2) by (simp add: field_simps)
  finally show "a / b \<le> x / y * (1 + 3 / 2 ^ 20)" .
qed

lemma ratio_range:
  fixes x y :: real
  assumes "1 \<le> x" and "x < 2 ^ 60" and "1 \<le> y" and "y < 2 ^ 60"
  shows "1 / 2 ^ 60 \<le> x / y" and "x / y \<le> 2 ^ 60"
  using assms by (simp_all add: field_simps)

lemma square_mono_bounds:
  fixes a q :: real
  assumes "0 < q" and "q * (1 - 4 / 2 ^ 20) \<le> a" and "a \<le> q * (1 + 5 / 2 ^ 20)"
  shows "q * q * (1 - 8 / 2 ^ 20) \<le> a * a" and "a * a \<le> q * q * (1 + 11 / 2 ^ 20)"
proof -
  have a: "0 < a"
    using assms(1,2) by (simp add: field_simps)
  have "q * q * (1 - 8 / 2 ^ 20) \<le> (q * (1 - 4 / 2 ^ 20)) * (q * (1 - 4 / 2 ^ 20))"
    using assms(1) by (simp add: field_simps)
  also have "\<dots> \<le> a * a"
    using assms(1,2) by (intro mult_mono) auto
  finally show "q * q * (1 - 8 / 2 ^ 20) \<le> a * a" .
  have "a * a \<le> (q * (1 + 5 / 2 ^ 20)) * (q * (1 + 5 / 2 ^ 20))"
    using assms(1,3) a by (intro mult_mono) auto
  also have "\<dots> \<le> q * q * (1 + 11 / 2 ^ 20)"
    using assms(1) by (simp add: field_simps)
  finally show "a * a \<le> q * q * (1 + 11 / 2 ^ 20)" .
qed

lemma range_mono:
  assumes "q * (1 - 3 / 2 ^ 20) \<le> r" and "r \<le> q * (1 + 3 / 2 ^ 20)"
    and "1 / 2 ^ 60 \<le> q" and "q \<le> 2 ^ 60"
  shows "in_range r"
  using assms by (simp add: in_range_def)

context f32_spec
begin

lemma ratio_close:
  assumes t: "1 \<le> uint t" "uint t < 2 ^ 60" and m: "1 \<le> uint m" "uint m < 2 ^ 60"
  defines "q \<equiv> real_of_int (uint t) / real_of_int (uint m)"
    and "a \<equiv> val (f_div F (f_of_u128 F t) (f_of_u128 F m))"
  shows "q * (1 - 4 / 2 ^ 20) \<le> a" and "a \<le> q * (1 + 5 / 2 ^ 20)"
    and "1 / 2 ^ 60 \<le> q" and "q \<le> 2 ^ 60"
proof -
  let ?x = "real_of_int (uint t)" and ?y = "real_of_int (uint m)"
  let ?r = "val (f_of_u128 F t) / val (f_of_u128 F m)"
  have r: "1 \<le> ?x" "?x < 2 ^ 60" "1 \<le> ?y" "?y < 2 ^ 60"
    using t m of_int_less_iff [of "uint t" "2 ^ 60", where 'a = real]
      of_int_less_iff [of "uint m" "2 ^ 60", where 'a = real]
      of_int_le_iff [of 1 "uint t", where 'a = real] of_int_le_iff [of 1 "uint m", where 'a = real]
    by simp_all
  have n: "near (val (f_of_u128 F t)) ?x" "near (val (f_of_u128 F m)) ?y"
    using t m of_u128 [of t] of_u128 [of m] by simp_all
  show q: "1 / 2 ^ 60 \<le> q" "q \<le> 2 ^ 60"
    using ratio_range [OF r] by (simp_all only: q_def)
  have e: "q * (1 - 3 / 2 ^ 20) \<le> ?r" "?r \<le> q * (1 + 3 / 2 ^ 20)"
    using quotient_error [of ?x ?y] r n by (simp_all add: q_def)
  have "in_range ?r"
    using range_mono [OF e] q by simp
  then have "near a ?r"
    unfolding a_def using near_le [OF n(2)] r by (intro div) auto
  then have a: "?r * (1 - 1 / 2 ^ 20) \<le> a" "a \<le> ?r * (1 + 1 / 2 ^ 20)"
    by (simp_all only: near_def)
  have "q * (1 - 4 / 2 ^ 20) \<le> q * (1 - 3 / 2 ^ 20) * (1 - 1 / 2 ^ 20)"
    using q(1) by (simp add: field_simps)
  also have "\<dots> \<le> ?r * (1 - 1 / 2 ^ 20)"
    using e(1) by (intro mult_right_mono) auto
  finally show "q * (1 - 4 / 2 ^ 20) \<le> a"
    using a(1) by linarith
  have "?r * (1 + 1 / 2 ^ 20) \<le> q * (1 + 3 / 2 ^ 20) * (1 + 1 / 2 ^ 20)"
    using e(2) by (intro mult_right_mono) auto
  also have "\<dots> \<le> q * (1 + 5 / 2 ^ 20)"
    using q(1) by (simp add: field_simps)
  finally show "a \<le> q * (1 + 5 / 2 ^ 20)"
    using a(2) by linarith
qed

lemma square_close:
  assumes "1 \<le> uint t" "uint t < 2 ^ 60" and "1 \<le> uint m" "uint m < 2 ^ 60"
  defines "q \<equiv> real_of_int (uint t) / real_of_int (uint m)"
    and "v \<equiv> val (f_powi2 F (f_div F (f_of_u128 F t) (f_of_u128 F m)))"
  shows "q * q * (1 - 9 / 2 ^ 20) \<le> v" and "v \<le> q * q * (1 + 13 / 2 ^ 20)" and "in_range v"
proof -
  let ?a = "val (f_div F (f_of_u128 F t) (f_of_u128 F m))"
  have b: "q * (1 - 4 / 2 ^ 20) \<le> ?a" "?a \<le> q * (1 + 5 / 2 ^ 20)" and q: "1 / 2 ^ 60 \<le> q" "q \<le> 2 ^ 60"
    using ratio_close [OF assms(1-4)] by (simp_all only: q_def)
  have qpos: "0 < q"
    using q(1) by (rule less_le_trans [rotated]) simp
  note s = square_mono_bounds [OF qpos b]
  have qq: "1 / 2 ^ 120 \<le> q * q" "q * q \<le> 2 ^ 120"
    using mult_mono [OF q(1) q(1)] mult_mono [OF q(2) q(2)] qpos by simp_all
  have "in_range (?a * ?a)"
    using s qq by (simp add: in_range_def)
  then have n: "?a * ?a * (1 - 1 / 2 ^ 20) \<le> v" "v \<le> ?a * ?a * (1 + 1 / 2 ^ 20)"
    using powi2 by (simp_all add: v_def near_def)
  have "q * q * (1 - 9 / 2 ^ 20) \<le> q * q * (1 - 8 / 2 ^ 20) * (1 - 1 / 2 ^ 20)"
    using qpos by (simp add: field_simps)
  also have "\<dots> \<le> ?a * ?a * (1 - 1 / 2 ^ 20)"
    using s(1) by (intro mult_right_mono) auto
  finally show lo: "q * q * (1 - 9 / 2 ^ 20) \<le> v"
    using n(1) by linarith
  have "?a * ?a * (1 + 1 / 2 ^ 20) \<le> q * q * (1 + 11 / 2 ^ 20) * (1 + 1 / 2 ^ 20)"
    using s(2) by (intro mult_right_mono) auto
  also have "\<dots> \<le> q * q * (1 + 13 / 2 ^ 20)"
    using qpos by (simp add: field_simps)
  finally show hi: "v \<le> q * q * (1 + 13 / 2 ^ 20)"
    using n(2) by linarith
  show "in_range v"
    using lo hi qq by (simp add: in_range_def)
qed

end

lemma log2_lower:
  assumes "0 < v" and "2 ^ j \<le> v ^ 100"
  shows "real j / 100 \<le> log 2 v"
proof -
  have "real j = log 2 (2 ^ j)"
    by simp
  also have "\<dots> \<le> log 2 (v ^ 100)"
    using assms by (subst log_le_cancel_iff) auto
  also have "\<dots> = 100 * log 2 v"
    using assms(1) by (simp add: log_nat_power)
  finally show ?thesis by simp
qed

lemma log2_upper:
  assumes "0 < v" and "v ^ 100 \<le> 2 ^ j"
  shows "log 2 v \<le> real j / 100"
proof -
  have "100 * log 2 v = log 2 (v ^ 100)"
    using assms(1) by (simp add: log_nat_power)
  also have "\<dots> \<le> log 2 (2 ^ j)"
    using assms by (subst log_le_cancel_iff) auto
  also have "\<dots> = real j"
    by simp
  finally show ?thesis by simp
qed

lemma log2_ge_052:
  assumes "144 / 100 \<le> v"
  shows "52 / 100 \<le> log 2 v"
proof -
  have "(2 :: real) ^ 52 \<le> (144 / 100) ^ 100"
    by (simp add: power_divide)
  also have "\<dots> \<le> v ^ 100"
    using assms by (intro power_mono) auto
  finally have "real 52 / 100 \<le> log 2 v"
    using assms by (intro log2_lower) auto
  then show ?thesis by simp
qed

lemma log2_le_048:
  assumes "0 < v" and "v \<le> 139 / 100"
  shows "log 2 v \<le> 48 / 100"
proof -
  have "v ^ 100 \<le> (139 / 100) ^ 100"
    using assms by (intro power_mono) auto
  also have "\<dots> \<le> (2 :: real) ^ 48"
    by (simp add: power_divide)
  finally have "log 2 v \<le> real 48 / 100"
    using assms by (intro log2_upper) auto
  then show ?thesis by simp
qed

lemma log2_le_m052: "0 < v \<Longrightarrow> v \<le> 100 / 144 \<Longrightarrow> log 2 v \<le> - (52 / 100)"
  using log2_ge_052 [of "1 / v"] by (simp add: log_divide field_simps)

lemma log2_ge_m048: "100 / 139 \<le> v \<Longrightarrow> - (48 / 100) \<le> log 2 v"
  using log2_le_048 [of "1 / v"] by (simp add: log_divide field_simps)

definition ratio4 :: "u128 \<Rightarrow> u128 \<Rightarrow> real" where
  "ratio4 t m = (real_of_int (uint t) / real_of_int (uint m)) ^ 4"

lemma int_ratio4:
  fixes a b t m :: int
  assumes "1 \<le> m" and "0 < b"
  shows "a * m ^ 4 \<le> b * t ^ 4 \<Longrightarrow> real_of_int a / real_of_int b \<le> (real_of_int t / real_of_int m) ^ 4"
    and "b * t ^ 4 \<le> a * m ^ 4 \<Longrightarrow> (real_of_int t / real_of_int m) ^ 4 \<le> real_of_int a / real_of_int b"
proof -
  have pos: "0 < real_of_int m ^ 4" "0 < real_of_int b"
    using assms by simp_all
  {
    assume "a * m ^ 4 \<le> b * t ^ 4"
    then have "real_of_int a * real_of_int m ^ 4 \<le> real_of_int b * real_of_int t ^ 4"
      using of_int_le_iff [of "a * m ^ 4" "b * t ^ 4", where 'a = real] by simp
    then show "real_of_int a / real_of_int b \<le> (real_of_int t / real_of_int m) ^ 4"
      using pos by (simp add: field_simps power_divide)
  next
    assume "b * t ^ 4 \<le> a * m ^ 4"
    then have "real_of_int b * real_of_int t ^ 4 \<le> real_of_int a * real_of_int m ^ 4"
      using of_int_le_iff [of "b * t ^ 4" "a * m ^ 4", where 'a = real] by simp
    then show "(real_of_int t / real_of_int m) ^ 4 \<le> real_of_int a / real_of_int b"
      using pos by (simp add: field_simps power_divide)
  }
qed

lemmas ratio4_ge = int_ratio4(1) [where t = "uint t" and m = "uint m" for t m :: u128, folded ratio4_def]
lemmas ratio4_le = int_ratio4(2) [where t = "uint t" and m = "uint m" for t m :: u128, folded ratio4_def]

lemma fourth_power_bounds:
  fixes q :: real
  shows "q ^ 4 * (999 / 1000) \<le> (q * q * (1 - 9 / 2 ^ 20)) * (q * q * (1 - 9 / 2 ^ 20))"
    and "(q * q * (1 + 13 / 2 ^ 20)) * (q * q * (1 + 13 / 2 ^ 20)) \<le> q ^ 4 * (1001 / 1000)"
proof -
  have scale: "(q * q * c) * (q * q * c) = q ^ 4 * (c * c)" for c
    by (simp add: power4_eq_xxxx)
  show "q ^ 4 * (999 / 1000) \<le> (q * q * (1 - 9 / 2 ^ 20)) * (q * q * (1 - 9 / 2 ^ 20))"
    unfolding scale by (intro mult_left_mono) auto
  show "(q * q * (1 + 13 / 2 ^ 20)) * (q * q * (1 + 13 / 2 ^ 20)) \<le> q ^ 4 * (1001 / 1000)"
    unfolding scale by (intro mult_left_mono) auto
qed

lemma square_le_imp: "0 \<le> (y :: real) \<Longrightarrow> x * x \<le> y * y \<Longrightarrow> x \<le> y"
  by (metis abs_le_square_iff abs_of_nonneg abs_ge_self order_trans power2_eq_square)

context f32_spec
begin

text \<open>The logarithm that is rounded, up to the error of \<open>log2\<close> and of the square.\<close>

lemma round_log:
  assumes "in_range (val x)"
  shows "\<bar>of_int (f_round_i128 F (f_log2 F x)) - log 2 (val x)\<bar> \<le> 51 / 100"
proof -
  have pos: "0 < val x"
    using assms by (auto simp: in_range_def intro: less_le_trans [rotated])
  have "log 2 (val x) \<le> log 2 (2 ^ 125)" "log 2 (1 / 2 ^ 125) \<le> log 2 (val x)"
    using assms pos by (subst log_le_cancel_iff; simp add: in_range_def)+
  moreover have "log 2 (2 ^ 125) = 125" "log 2 (1 / 2 ^ 125) = - 125"
    by (simp_all only: log_recip log_pow_cancel)
  ultimately have "\<bar>log 2 (val x)\<bar> \<le> 125"
    by linarith
  then have "\<bar>val (f_log2 F x)\<bar> \<le> 126"
    using log2_close [OF assms] by linarith
  then have "\<bar>val (f_log2 F x)\<bar> < 2 ^ 100"
    by simp
  then show ?thesis
    using log2_close [OF assms] round_close [of "f_log2 F x"] by linarith
qed

lemma clamp_value:
  assumes "1 \<le> uint t" "uint t < 2 ^ 60" and "1 \<le> uint m" "uint m < 2 ^ 60"
  obtains v where "0 < v" and "ratio4 t m * (999 / 1000) \<le> v * v" and "v * v \<le> ratio4 t m * (1001 / 1000)"
    and "52 / 100 \<le> log 2 v \<Longrightarrow> clamp F t m = 1"
    and "log 2 v \<le> - (52 / 100) \<Longrightarrow> clamp F t m = - 1"
    and "\<bar>log 2 v\<bar> \<le> 48 / 100 \<Longrightarrow> clamp F t m = 0"
proof -
  let ?q = "real_of_int (uint t) / real_of_int (uint m)"
  let ?x = "f_powi2 F (f_div F (f_of_u128 F t) (f_of_u128 F m))"
  let ?v = "val ?x"
  note c = square_close [OF assms]
  have pos: "0 < ?v"
    using c(3) by (auto simp: in_range_def intro: less_le_trans [rotated])
  have q0: "0 \<le> ?q * ?q * (1 - 9 / 2 ^ 20)"
    by simp
  have "ratio4 t m * (999 / 1000) \<le> (?q * ?q * (1 - 9 / 2 ^ 20)) * (?q * ?q * (1 - 9 / 2 ^ 20))"
    unfolding ratio4_def by (rule fourth_power_bounds(1))
  also have "\<dots> \<le> ?v * ?v"
    using c(1) q0 pos by (intro mult_mono) auto
  finally have lo: "ratio4 t m * (999 / 1000) \<le> ?v * ?v" .
  have "?v * ?v \<le> (?q * ?q * (1 + 13 / 2 ^ 20)) * (?q * ?q * (1 + 13 / 2 ^ 20))"
    using c(2) pos by (intro mult_mono) auto
  also have "\<dots> \<le> ratio4 t m * (1001 / 1000)"
    unfolding ratio4_def by (rule fourth_power_bounds(2))
  finally have hi: "?v * ?v \<le> ratio4 t m * (1001 / 1000)" .
  let ?r = "f_round_i128 F (f_log2 F ?x)"
  have clamp: "clamp F t m = max (min ?r 1) (- 1)"
    by (simp add: clamp_def CLAMP_FACTOR_def Let_def)
  note r = round_log [OF c(3)]
  have up: "clamp F t m = 1" if "52 / 100 \<le> log 2 ?v"
  proof -
    have "0 < real_of_int ?r"
      using r that by linarith
    then show ?thesis
      by (simp add: clamp)
  qed
  have down: "clamp F t m = - 1" if "log 2 ?v \<le> - (52 / 100)"
  proof -
    have "real_of_int ?r < 0"
      using r that by linarith
    then show ?thesis
      by (simp add: clamp)
  qed
  have stay: "clamp F t m = 0" if "\<bar>log 2 ?v\<bar> \<le> 48 / 100"
  proof -
    have "\<bar>real_of_int ?r\<bar> < 1"
      using r that by linarith
    then have "?r = 0"
      by linarith
    then show ?thesis
      by (simp add: clamp)
  qed
  show ?thesis
    by (rule that [OF pos lo hi up down stay])
qed

text \<open>
  The step on integers: up when the target is longer than the measured time by a factor of about
  \<open>2 powr (1 / 4)\<close>, down when it is shorter by that factor, and none in between.
\<close>

lemma clamp_up:
  assumes "1 \<le> uint t" "uint t < 2 ^ 60" and "1 \<le> uint m" "uint m < 2 ^ 60"
    and "21 * uint m ^ 4 \<le> 10 * uint t ^ 4"
  shows "clamp F t m = 1"
proof (rule clamp_value [OF assms(1-4)])
  fix v
  assume v: "0 < v" "ratio4 t m * (999 / 1000) \<le> v * v" "52 / 100 \<le> log 2 v \<Longrightarrow> clamp F t m = 1"
  have "21 / 10 \<le> ratio4 t m"
    using ratio4_ge [of m 10 21 t] assms by simp
  then have "(144 / 100) * (144 / 100) \<le> v * v"
    using v(2) by simp
  then have "144 / 100 \<le> v"
    using v(1) square_le_imp [of v "144 / 100"] by linarith
  then show ?thesis
    by (intro v(3) log2_ge_052)
qed

lemma clamp_down:
  assumes "1 \<le> uint t" "uint t < 2 ^ 60" and "1 \<le> uint m" "uint m < 2 ^ 60"
    and "21 * uint t ^ 4 \<le> 10 * uint m ^ 4"
  shows "clamp F t m = - 1"
proof (rule clamp_value [OF assms(1-4)])
  fix v
  assume v: "0 < v" "v * v \<le> ratio4 t m * (1001 / 1000)" "log 2 v \<le> - (52 / 100) \<Longrightarrow> clamp F t m = - 1"
  have "ratio4 t m \<le> 10 / 21"
    using ratio4_le [of m 21 t 10] assms by simp
  then have "v * v \<le> (100 / 144) * (100 / 144)"
    using v(2) by simp
  then have "v \<le> 100 / 144"
    by (rule square_le_imp [rotated]) simp
  then show ?thesis
    by (intro v(3) log2_le_m052 v(1))
qed

lemma clamp_stay:
  assumes "1 \<le> uint t" "uint t < 2 ^ 60" and "1 \<le> uint m" "uint m < 2 ^ 60"
    and "10 * uint t ^ 4 \<le> 19 * uint m ^ 4" and "10 * uint m ^ 4 \<le> 19 * uint t ^ 4"
  shows "clamp F t m = 0"
proof (rule clamp_value [OF assms(1-4)])
  fix v
  assume v: "0 < v" "ratio4 t m * (999 / 1000) \<le> v * v" "v * v \<le> ratio4 t m * (1001 / 1000)"
    "\<bar>log 2 v\<bar> \<le> 48 / 100 \<Longrightarrow> clamp F t m = 0"
  have "ratio4 t m \<le> 19 / 10" "10 / 19 \<le> ratio4 t m"
    using ratio4_le [of m 10 t 19] ratio4_ge [of m 19 10 t] assms by simp_all
  then have "v * v \<le> (139 / 100) * (139 / 100)" "(100 / 139) * (100 / 139) \<le> v * v"
    using v(2,3) by simp_all
  then have "v \<le> 139 / 100" "100 / 139 \<le> v"
    using v(1) square_le_imp [of "139 / 100" v] square_le_imp [of v "100 / 139"] by linarith+
  then have "log 2 v \<le> 48 / 100" "- (48 / 100) \<le> log 2 v"
    using log2_le_048 [OF v(1)] log2_ge_m048 by blast+
  then show ?thesis
    by (intro v(4)) linarith
qed

end

text \<open>Exact real arithmetic is an instance.\<close>

definition exact_f32 :: "real f32_ops" where
  "exact_f32 = \<lparr>f_of_u128 = (\<lambda>n. real_of_int (uint n)), f_div = (/), f_powi2 = (\<lambda>x. x * x),
     f_log2 = log 2, f_round_i128 = round\<rparr>"

lemma near_refl: "0 \<le> x \<Longrightarrow> near x x"
  by (simp add: near_def mult_left_le algebra_simps)

lemma in_range_pos: "in_range x \<Longrightarrow> 0 \<le> x"
  by (auto simp: in_range_def intro: order_trans [rotated])

interpretation exact: f32_spec exact_f32 "\<lambda>x. x"
proof (unfold_locales, goal_cases)
  case (1 n)
  then show ?case using near_refl [of "real_of_int (uint n)"]
    by (simp only: exact_f32_def f32_ops.simps of_int_0_le_iff uint_ge_0 simp_thms)
next
  case (2 y x)
  then show ?case by (simp add: exact_f32_def near_refl in_range_pos)
next
  case (3 x)
  then show ?case by (simp add: exact_f32_def near_refl)
next
  case (4 x)
  then show ?case by (simp add: exact_f32_def)
next
  case (5 x)
  then show ?case using of_int_round_abs_le [of x] by (simp add: exact_f32_def)
qed

end
