(* ===== verification/Pallet_Difficulty.thy ===== *)
theory Pallet_Difficulty
  imports Clamp
begin

text \<open>
  The pallet \<open>pallets/difficulty\<close>: every block records its timestamp in a window of
  \<open>DIFFICULTY_ADJUST_WINDOW\<close> entries; the last one of a window moves the difficulty by one step
  towards the target block time. The runtime's \<open>Moment\<close> is \<open>u64\<close>; \<open>target\<close> is the configured
  \<open>TargetBlockTime\<close>. \<open>None\<close> is the panic of \<open>on_timestamp_set\<close>.
\<close>

section \<open>Storage\<close>

record difficulty_and_timestamp =
  dt_difficulty :: u128
  dt_timestamp :: u64

type_synonym difficulties = "difficulty_and_timestamp option list"

record difficulty_storage =
  past_difficulties :: difficulties
  current_height :: "u32 option"
  current_difficulty :: "u128 option"
  initial_difficulty :: "u128 option"

definition past_difficulties_empty :: difficulties where
  "past_difficulties_empty = replicate DIFFICULTY_ADJUST_WINDOW None"

definition difficulty_storage_empty :: difficulty_storage where
  "difficulty_storage_empty =
     \<lparr>past_difficulties = past_difficulties_empty, current_height = None, current_difficulty = None,
      initial_difficulty = None\<rparr>"

definition genesis_config_default :: u128 where "genesis_config_default = MIN_DIFFICULTY"

definition difficulty_genesis_build :: "u128 \<Rightarrow> difficulty_storage \<Rightarrow> difficulty_storage" where
  "difficulty_genesis_build config_difficulty s = s\<lparr>current_difficulty := Some config_difficulty\<rparr>"

definition difficulty_or_default :: "difficulty_storage \<Rightarrow> u128" where
  "difficulty_or_default s =
     (case current_difficulty s of Some d \<Rightarrow> d | None \<Rightarrow> INIT_DIFFICULTY)"

section \<open>The measured time of a window\<close>

definition interval :: "u128 \<Rightarrow> difficulties \<Rightarrow> nat \<Rightarrow> u128" where
  "interval block_time data i =
     (let prev = map_option (\<lambda>d. ucast (dt_timestamp d)) (data ! (i - 1));
          cur = map_option (\<lambda>d. ucast (dt_timestamp d)) (data ! i)
      in case (prev, cur) of
           (Some prev, Some cur) \<Rightarrow> sat_sub cur prev div 1000
         | _ \<Rightarrow> block_time)"

definition window_delta :: "u128 \<Rightarrow> difficulties \<Rightarrow> u128" where
  "window_delta block_time data =
     fold (\<lambda>i ts_delta. sat_add ts_delta (interval block_time data i)) [1..<DIFFICULTY_ADJUST_WINDOW] 0"

definition get_avg_blocktime :: "u64 \<Rightarrow> difficulty_storage \<Rightarrow> u32" where
  "get_avg_blocktime target s =
     ucast (window_delta (ucast target) (past_difficulties s) div of_nat DIFFICULTY_ADJUST_WINDOW)"

section \<open>\<open>on_timestamp_set\<close>\<close>

definition adjust_difficulty :: "u128 \<Rightarrow> int \<Rightarrow> u128" where
  "adjust_difficulty difficulty adj_ts =
     (let difficulty = (if 0 < adj_ts then difficulty + CLAMP_FACTOR
                        else if adj_ts < 0 then difficulty - CLAMP_FACTOR else difficulty)
      in if difficulty < MIN_DIFFICULTY then MIN_DIFFICULTY
         else if MAX_DIFFICULTY < difficulty then MAX_DIFFICULTY
         else difficulty)"

definition on_timestamp_set ::
  "('f, 'z) f32_ops_scheme \<Rightarrow> u64 \<Rightarrow> u64 \<Rightarrow> difficulty_storage \<Rightarrow> difficulty_storage option" where
  "on_timestamp_set F target moment s =
     (let block_time = ucast target;
          block_time_window = block_time * of_nat DIFFICULTY_ADJUST_WINDOW;
          data = past_difficulties s;
          height = (case current_height s of Some h \<Rightarrow> h | None \<Rightarrow> 0);
          entry = Some \<lparr>dt_difficulty = difficulty_or_default s, dt_timestamp = moment\<rparr>
      in if of_nat DIFFICULTY_ADJUST_WINDOW \<le> height then None
         else if height = of_nat (DIFFICULTY_ADJUST_WINDOW - 1) then
           (let data = data[unat height := entry];
                ts_delta = window_delta block_time data;
                ts_delta = (if ts_delta = 0 then 1 else ts_delta);
                adj_ts = clamp F block_time_window ts_delta
            in Some (s\<lparr>past_difficulties := data,
                       current_difficulty := Some (adjust_difficulty (difficulty_or_default s) adj_ts),
                       current_height := Some 0\<rparr>))
         else
           (let data = data[unat height := entry]
            in Some (s\<lparr>past_difficulties := data, current_height := Some (sat_add height 1)\<rparr>)))"

fun set_timestamps ::
  "('f, 'z) f32_ops_scheme \<Rightarrow> u64 \<Rightarrow> u64 list \<Rightarrow> difficulty_storage \<Rightarrow> difficulty_storage option" where
  "set_timestamps F target [] s = Some s"
| "set_timestamps F target (m # ms) s = do {
     s' \<leftarrow> on_timestamp_set F target m s;
     set_timestamps F target ms s' }"

section \<open>Invariant\<close>

definition height_of :: "difficulty_storage \<Rightarrow> nat" where
  "height_of s = (case current_height s of Some h \<Rightarrow> unat h | None \<Rightarrow> 0)"

definition difficulty_inv :: "difficulty_storage \<Rightarrow> bool" where
  "difficulty_inv s \<longleftrightarrow> length (past_difficulties s) = 60 \<and> height_of s < 60
     \<and> MIN_DIFFICULTY \<le> difficulty_or_default s \<and> difficulty_or_default s \<le> MAX_DIFFICULTY"

lemma genesis_inv:
  "MIN_DIFFICULTY \<le> d \<Longrightarrow> d \<le> MAX_DIFFICULTY \<Longrightarrow>
   difficulty_inv (difficulty_genesis_build d difficulty_storage_empty)"
  by (simp add: difficulty_inv_def difficulty_genesis_build_def difficulty_storage_empty_def
      past_difficulties_empty_def height_of_def difficulty_or_default_def)

lemma adjust_difficulty_bounds:
  "MIN_DIFFICULTY \<le> adjust_difficulty d adj \<and> adjust_difficulty d adj \<le> MAX_DIFFICULTY"
  by (auto simp: adjust_difficulty_def Let_def difficulty_consts not_less)

lemma adjust_difficulty_uint:
  assumes "48 \<le> uint d" and "uint d \<le> 224" and "adj \<in> {- 1, 0, 1}"
  shows "uint (adjust_difficulty d adj) = max 48 (min 224 (uint d + adj))"
proof -
  have "uint (d + 1) = uint d + 1" "uint (d - 1) = uint d - 1"
    using assms(1,2) by (simp_all add: uint_plus_if' uint_sub_if')
  then show ?thesis
    using assms
    by (auto simp: adjust_difficulty_def Let_def difficulty_consts word_less_def max_def min_def)
qed

lemma unat_eq_59: "unat (h :: u32) = 59 \<longleftrightarrow> h = 59"
  using word_unat_eq_iff [of h 59] by simp

lemma unat_sat_add_1:
  assumes "unat (h :: u32) < 60"
  shows "unat (sat_add h 1) = Suc (unat h)"
proof -
  have "uint h < 60"
    using assms nat_less_iff [OF uint_ge_0, of h 60] by (simp only: unat_eq_nat_uint of_nat_numeral)
  then have "uint (sat_add h 1) = uint h + 1"
    by (simp add: uint_sat_add)
  then have "nat (uint (sat_add h 1)) = Suc (nat (uint h))"
    using uint_ge_0 [of h] by linarith
  then show ?thesis
    by (simp only: unat_eq_nat_uint)
qed

lemma on_timestamp_set_step:
  assumes "difficulty_inv s"
  shows "\<exists>s'. on_timestamp_set F target moment s = Some s' \<and> difficulty_inv s'
    \<and> height_of s' = Suc (height_of s) mod 60
    \<and> past_difficulties s' = (past_difficulties s)[height_of s :=
        Some \<lparr>dt_difficulty = difficulty_or_default s, dt_timestamp = moment\<rparr>]
    \<and> (height_of s \<noteq> 59 \<longrightarrow> current_difficulty s' = current_difficulty s)
    \<and> (height_of s = 59 \<longrightarrow> current_difficulty s' = Some (adjust_difficulty (difficulty_or_default s)
        (clamp F (ucast target * 60)
          (let delta = window_delta (ucast target) (past_difficulties s')
           in if delta = 0 then 1 else delta))))"
proof -
  obtain h where h: "h = (case current_height s of Some h \<Rightarrow> h | None \<Rightarrow> 0)"
    by blast
  have hs: "height_of s = unat h" and h60: "unat h < 60" and len: "length (past_difficulties s) = 60"
    using assms by (auto simp: difficulty_inv_def height_of_def h split: option.splits)
  have panic: "\<not> (60 :: u32) \<le> h"
    using h60 by (simp add: word_le_nat_alt)
  let ?data = "(past_difficulties s)[unat h :=
    Some \<lparr>dt_difficulty = difficulty_or_default s, dt_timestamp = moment\<rparr>]"
  show ?thesis
  proof (cases "h = 59")
    case True
    let ?delta = "let delta = window_delta (ucast target) ?data in if delta = 0 then 1 else delta"
    let ?s' = "s\<lparr>past_difficulties := ?data,
      current_difficulty := Some (adjust_difficulty (difficulty_or_default s)
        (clamp F (ucast target * 60) ?delta)), current_height := Some 0\<rparr>"
    have "on_timestamp_set F target moment s = Some ?s'"
      using True by (simp add: on_timestamp_set_def Let_def flip: h)
    moreover have "difficulty_inv ?s'"
      using len adjust_difficulty_bounds by (simp add: difficulty_inv_def height_of_def difficulty_or_default_def)
    moreover have "height_of ?s' = 0" "height_of s = 59"
      using True hs by (simp_all add: height_of_def)
    ultimately show ?thesis
      using True by (intro exI [of _ ?s']) simp
  next
    case False
    let ?s' = "s\<lparr>past_difficulties := ?data, current_height := Some (sat_add h 1)\<rparr>"
    have "unat h \<noteq> 59"
      using False by (metis unat_eq_59)
    then have up: "unat (sat_add h 1) = Suc (unat h) mod 60" "unat (sat_add h 1) < 60"
      using h60 unat_sat_add_1 [OF h60] by simp_all
    have "on_timestamp_set F target moment s = Some ?s'"
      using False panic by (simp add: on_timestamp_set_def Let_def flip: h)
    moreover have "difficulty_inv ?s'"
      using assms len up by (simp add: difficulty_inv_def height_of_def difficulty_or_default_def)
    moreover have "height_of ?s' = Suc (height_of s) mod 60"
      using up(1) hs by (simp add: height_of_def)
    ultimately show ?thesis
      using hs \<open>unat h \<noteq> 59\<close> by (intro exI [of _ ?s']) simp
  qed
qed

section \<open>A whole window\<close>

text \<open>The seconds between the timestamps of a window, each interval truncated to whole seconds.\<close>

definition elapsed_seconds :: "u64 list \<Rightarrow> int" where
  "elapsed_seconds ms =
     (\<Sum>i\<leftarrow>[1..<length ms]. max 0 (uint (ms ! i) - uint (ms ! (i - 1))) div 1000)"

lemma fold_sat_add:
  fixes a :: u128
  assumes "uint a + (\<Sum>i\<leftarrow>xs. uint (f i)) < 2 ^ 128"
  shows "uint (fold (\<lambda>i acc. sat_add acc (f i)) xs a) = uint a + (\<Sum>i\<leftarrow>xs. uint (f i))"
  using assms
proof (induction xs arbitrary: a)
  case Nil
  then show ?case by simp
next
  case (Cons x xs)
  have "0 \<le> (\<Sum>i\<leftarrow>xs. uint (f i))"
    by (induction xs) auto
  then have "uint (sat_add a (f x)) = uint a + uint (f x)"
    using Cons.prems by (simp add: uint_sat_add)
  then show ?case
    using Cons.IH [of "sat_add a (f x)"] Cons.prems by simp
qed

definition filled :: "difficulties \<Rightarrow> u64 list \<Rightarrow> bool" where
  "filled data ms \<longleftrightarrow> length ms = 60 \<and> (\<forall>i < 60. \<exists>d. data ! i = Some d \<and> dt_timestamp d = ms ! i)"

lemma uint_interval:
  assumes "filled data ms" and "0 < i" and "i < 60"
  shows "uint (interval bt data i) = max 0 (uint (ms ! i) - uint (ms ! (i - 1))) div 1000"
proof -
  obtain d e where "data ! i = Some d" "dt_timestamp d = ms ! i"
      "data ! (i - 1) = Some e" "dt_timestamp e = ms ! (i - 1)"
    using assms unfolding filled_def by (metis less_imp_diff_less)
  moreover have "uint (ucast x :: u128) = uint x" for x :: u64
    using uint_lt2p [of x] by (simp add: unsigned_ucast_eq take_bit_int_eq_self)
  ultimately show ?thesis
    by (simp add: interval_def uint_div uint_sat_sub)
qed

lemma window_delta_filled:
  assumes "filled data ms"
  shows "uint (window_delta bt data) = elapsed_seconds ms" and "elapsed_seconds ms < 2 ^ 60"
    and "0 \<le> elapsed_seconds ms"
proof -
  have len: "length ms = 60"
    using assms by (simp add: filled_def)
  have i: "uint (interval bt data i) = max 0 (uint (ms ! i) - uint (ms ! (i - 1))) div 1000"
    if "i \<in> set [1..<60]" for i
    using uint_interval [OF assms] that by simp
  have sum: "(\<Sum>i\<leftarrow>[1..<60]. uint (interval bt data i)) = elapsed_seconds ms"
    unfolding elapsed_seconds_def len by (intro arg_cong [where f = sum_list] map_cong refl i)
  have diff: "uint x - uint y \<le> 2 ^ 64" for x y :: u64
  proof -
    have "uint x < 2 ^ 64" "0 \<le> uint y"
      using uint_lt2p [of x] by simp_all
    then show ?thesis by linarith
  qed
  have b: "max 0 (uint (ms ! i) - uint (ms ! (i - 1))) div 1000 \<le> 2 ^ 64 div 1000" for i
    using diff [of "ms ! i" "ms ! (i - 1)"] by (intro zdiv_mono1 max.boundedI) simp_all
  have "elapsed_seconds ms \<le> (\<Sum>i\<leftarrow>[1..<60]. 2 ^ 64 div 1000)"
    unfolding elapsed_seconds_def len by (intro sum_list_mono b)
  also have "\<dots> < 2 ^ 60"
    by (simp add: sum_list_triv)
  finally show lt: "elapsed_seconds ms < 2 ^ 60" .
  show "uint (window_delta bt data) = elapsed_seconds ms"
    using fold_sat_add [where a = 0 and xs = "[1..<60]" and f = "interval bt data"] sum lt
    by (simp add: window_delta_def)
  show "0 \<le> elapsed_seconds ms"
    unfolding elapsed_seconds_def by (intro sum_list_nonneg) (auto simp: pos_imp_zdiv_nonneg_iff)
qed

text \<open>Truncation loses less than a second per interval.\<close>

lemma div_1000_bounds: "1000 * (x div 1000) \<le> x \<and> x \<le> 1000 * (x div 1000) + 999" for x :: int
  by presburger

lemma elapsed_seconds_bounds:
  assumes "\<And>i. Suc i < length ms \<Longrightarrow> ms ! i \<le> ms ! Suc i" and "0 < length ms"
  shows "1000 * elapsed_seconds ms \<le> uint (last ms) - uint (hd ms)"
    and "uint (last ms) - uint (hd ms) \<le> 1000 * elapsed_seconds ms + 999 * (int (length ms) - 1)"
proof -
  let ?f = "\<lambda>i. max 0 (uint (ms ! i) - uint (ms ! (i - 1))) div 1000"
  have f: "1000 * ?f i \<le> uint (ms ! i) - uint (ms ! (i - 1))
      \<and> uint (ms ! i) - uint (ms ! (i - 1)) \<le> 1000 * ?f i + 999"
    if "0 < i" "i < length ms" for i
  proof -
    have "0 \<le> uint (ms ! i) - uint (ms ! (i - 1))"
      using assms(1) [of "i - 1"] that by (simp add: word_le_def)
    then show ?thesis
      using div_1000_bounds [of "uint (ms ! i) - uint (ms ! (i - 1))"] by (simp only: max_absorb2)
  qed
  have "1000 * (\<Sum>i\<leftarrow>[1..<k]. ?f i) \<le> uint (ms ! (k - 1)) - uint (ms ! 0)
      \<and> uint (ms ! (k - 1)) - uint (ms ! 0) \<le> 1000 * (\<Sum>i\<leftarrow>[1..<k]. ?f i) + 999 * (int k - 1)"
    if "0 < k" "k \<le> length ms" for k
    using that
  proof (induction k rule: nat_induct_non_zero)
    case 1
    then show ?case by simp
  next
    case (Suc k)
    then show ?case
      using f [of k] by (simp add: algebra_simps)
  qed
  from this [of "length ms"] assms(2)
  show "1000 * elapsed_seconds ms \<le> uint (last ms) - uint (hd ms)"
    "uint (last ms) - uint (hd ms) \<le> 1000 * elapsed_seconds ms + 999 * (int (length ms) - 1)"
    by (simp_all add: elapsed_seconds_def last_conv_nth hd_conv_nth)
qed

section \<open>Runs\<close>

lemma set_timestamps_append:
  "set_timestamps F target (ms @ ms') s =
     set_timestamps F target ms s \<bind> set_timestamps F target ms'"
  by (induction ms arbitrary: s) (auto split: bind_splits)

lemma set_timestamps_total:
  assumes "difficulty_inv s"
  shows "\<exists>s'. set_timestamps F target ms s = Some s' \<and> difficulty_inv s'
    \<and> height_of s' = (height_of s + length ms) mod 60"
  using assms
proof (induction ms arbitrary: s)
  case Nil
  then show ?case by (simp add: difficulty_inv_def)
next
  case (Cons m ms)
  obtain s1 where s1: "on_timestamp_set F target m s = Some s1" "difficulty_inv s1"
      "height_of s1 = Suc (height_of s) mod 60"
    using on_timestamp_set_step [OF Cons.prems] by blast
  then show ?case
    using Cons.IH [OF s1(2)] by (simp add: mod_simps)
qed

text \<open>Inside a window the difficulty stays and the entries are recorded in order.\<close>

lemma set_timestamps_inside:
  assumes "difficulty_inv s" and "height_of s + length ms < 60"
  shows "\<exists>s'. set_timestamps F target ms s = Some s' \<and> difficulty_inv s'
    \<and> height_of s' = height_of s + length ms \<and> current_difficulty s' = current_difficulty s
    \<and> (\<forall>i < height_of s. past_difficulties s' ! i = past_difficulties s ! i)
    \<and> (\<forall>i < length ms. past_difficulties s' ! (height_of s + i) =
         Some \<lparr>dt_difficulty = difficulty_or_default s, dt_timestamp = ms ! i\<rparr>)"
  using assms
proof (induction ms arbitrary: s)
  case Nil
  then show ?case by simp
next
  case (Cons m ms)
  have "height_of s < 59"
    using Cons.prems(2) by simp
  then obtain s1 where s1: "on_timestamp_set F target m s = Some s1" "difficulty_inv s1"
      "height_of s1 = Suc (height_of s)" "current_difficulty s1 = current_difficulty s"
      "past_difficulties s1 = (past_difficulties s)[height_of s :=
         Some \<lparr>dt_difficulty = difficulty_or_default s, dt_timestamp = m\<rparr>]"
    using on_timestamp_set_step [OF Cons.prems(1), of F target m] by auto
  have d: "difficulty_or_default s1 = difficulty_or_default s"
    by (simp add: difficulty_or_default_def s1(4))
  have len: "height_of s < length (past_difficulties s)"
    using Cons.prems(1) by (simp add: difficulty_inv_def)
  obtain s' where s': "set_timestamps F target ms s1 = Some s'" "difficulty_inv s'"
      "height_of s' = Suc (height_of s) + length ms" "current_difficulty s' = current_difficulty s"
      "\<forall>i < Suc (height_of s). past_difficulties s' ! i = past_difficulties s1 ! i"
      "\<forall>i < length ms. past_difficulties s' ! (Suc (height_of s) + i) =
         Some \<lparr>dt_difficulty = difficulty_or_default s, dt_timestamp = ms ! i\<rparr>"
    using Cons.IH [OF s1(2)] Cons.prems(2) s1(3,4) d by auto
  have "past_difficulties s' ! (height_of s + i) =
      Some \<lparr>dt_difficulty = difficulty_or_default s, dt_timestamp = (m # ms) ! i\<rparr>"
    if "i < Suc (length ms)" for i
    using that s'(5,6) s1(5) len by (cases i) auto
  then show ?case
    using s1(1) s'(1-5) s1(5) by (intro exI [of _ s']) auto
qed

text \<open>A full window from height 0: one adjustment, from the seconds measured over its timestamps.\<close>

definition measured :: "u64 list \<Rightarrow> u128" where
  "measured ms = word_of_int (max 1 (elapsed_seconds ms))"

lemma set_timestamps_window:
  assumes inv: "difficulty_inv s" and h: "height_of s = 0" and len: "length ms = 60"
  shows "\<exists>s'. set_timestamps F target ms s = Some s' \<and> difficulty_inv s' \<and> height_of s' = 0
    \<and> filled (past_difficulties s') ms
    \<and> current_difficulty s' = Some (adjust_difficulty (difficulty_or_default s)
        (clamp F (ucast target * 60) (measured ms)))"
proof -
  let ?d = "difficulty_or_default s"
  obtain ns n where ms: "ms = ns @ [n]" "length ns = 59"
    using len by (cases ms rule: rev_cases) auto
  obtain s1 where s1: "set_timestamps F target ns s = Some s1" "difficulty_inv s1" "height_of s1 = 59"
      "current_difficulty s1 = current_difficulty s"
      "\<forall>i < 59. past_difficulties s1 ! i = Some \<lparr>dt_difficulty = ?d, dt_timestamp = ns ! i\<rparr>"
    using set_timestamps_inside [OF inv, of ns F target] h ms by auto
  have d: "difficulty_or_default s1 = ?d"
    by (simp add: difficulty_or_default_def s1(4))
  have len1: "length (past_difficulties s1) = 60"
    using s1(2) by (simp add: difficulty_inv_def)
  obtain s2 where s2: "on_timestamp_set F target n s1 = Some s2" "difficulty_inv s2" "height_of s2 = 0"
      "past_difficulties s2 = (past_difficulties s1)[59 := Some \<lparr>dt_difficulty = ?d, dt_timestamp = n\<rparr>]"
      "current_difficulty s2 = Some (adjust_difficulty ?d (clamp F (ucast target * 60)
          (let delta = window_delta (ucast target) (past_difficulties s2)
           in if delta = 0 then 1 else delta)))"
    using on_timestamp_set_step [OF s1(2), of F target n] s1(3) d by auto
  have fill: "filled (past_difficulties s2) ms"
    unfolding filled_def using s2(4) s1(5) len1 ms by (auto simp: nth_append nth_list_update less_Suc_eq numeral_eq_Suc)
  note w = window_delta_filled [OF fill]
  have "(let delta = window_delta (ucast target) (past_difficulties s2) in if delta = 0 then 1 else delta)
      = measured ms"
    using w by (simp add: measured_def Let_def word_uint_eq_iff uint_word_of_int max_def)
  then show ?thesis
    using s1(1) s2 fill ms(1) by (simp add: set_timestamps_append)
qed

lemma uint_measured:
  assumes "length ms = 60"
  shows "uint (measured ms) = max 1 (elapsed_seconds ms)" and "elapsed_seconds ms < 2 ^ 60"
proof -
  have "filled (map (\<lambda>m. Some \<lparr>dt_difficulty = 0, dt_timestamp = m\<rparr>) ms) ms"
    using assms by (simp add: filled_def)
  then show "elapsed_seconds ms < 2 ^ 60"
    by (rule window_delta_filled)
  then show "uint (measured ms) = max 1 (elapsed_seconds ms)"
    by (simp add: measured_def uint_word_of_int max_def)
qed

lemma uint_window:
  assumes "uint target < 2 ^ 54"
  shows "uint (ucast target * 60 :: u128) = 60 * uint (target :: u64)"
proof -
  have "uint (ucast target :: u128) = uint target"
    using assms by (simp add: unsigned_ucast_eq take_bit_int_eq_self)
  then show ?thesis
    using assms by (simp add: uint_word_ariths)
qed

context f32_spec
begin

text \<open>
  The direction of the adjustment, from the measured seconds \<open>m\<close> and the target \<open>t\<close> of a window,
  both positive: up by one when \<open>m\<close> is clearly below \<open>t\<close>, down by one when it is clearly above,
  and no change when the fourth powers differ by less than a factor \<open>1.9\<close>.
\<close>

lemma window_adjusts:
  assumes "difficulty_inv s" and "height_of s = 0" and "length ms = 60"
    and t: "0 < uint target" "uint target < 2 ^ 54"
    and run: "set_timestamps F target ms s = Some s'"
  defines "T \<equiv> 60 * uint target" and "M \<equiv> max 1 (elapsed_seconds ms)"
    and "d \<equiv> uint (difficulty_or_default s)" and "d' \<equiv> uint (difficulty_or_default s')"
  shows "21 * M ^ 4 \<le> 10 * T ^ 4 \<Longrightarrow> d' = min 224 (d + 1)"
    and "21 * T ^ 4 \<le> 10 * M ^ 4 \<Longrightarrow> d' = max 48 (d - 1)"
    and "10 * T ^ 4 \<le> 19 * M ^ 4 \<Longrightarrow> 10 * M ^ 4 \<le> 19 * T ^ 4 \<Longrightarrow> d' = d"
proof -
  let ?c = "clamp F (ucast target * 60) (measured ms)"
  have cur: "current_difficulty s' = Some (adjust_difficulty (difficulty_or_default s) ?c)"
    using set_timestamps_window [OF assms(1-3), of F target] run by auto
  have "48 \<le> uint (difficulty_or_default s)" "uint (difficulty_or_default s) \<le> 224"
    using assms(1) by (simp_all add: difficulty_inv_def word_le_def difficulty_consts)
  then have d: "48 \<le> d" "d \<le> 224" and d': "d' = max 48 (min 224 (d + ?c))"
    using cur adjust_difficulty_uint [OF _ _ clamp_range]
    by (simp_all add: d_def d'_def difficulty_or_default_def [of s'])
  have T: "uint (ucast target * 60 :: u128) = T" "1 \<le> T" "T < 2 ^ 60"
    using uint_window [OF t(2)] t by (simp_all add: T_def)
  have M: "uint (measured ms) = M" "1 \<le> M" "M < 2 ^ 60"
    using uint_measured [OF assms(3)] by (simp_all add: M_def)
  show "d' = min 224 (d + 1)" if "21 * M ^ 4 \<le> 10 * T ^ 4"
    using clamp_up [of "ucast target * 60" "measured ms"] that T M d d' by simp
  show "d' = max 48 (d - 1)" if "21 * T ^ 4 \<le> 10 * M ^ 4"
    using clamp_down [of "ucast target * 60" "measured ms"] that T M d d' by simp
  show "d' = d" if "10 * T ^ 4 \<le> 19 * M ^ 4" "10 * M ^ 4 \<le> 19 * T ^ 4"
    using clamp_stay [of "ucast target * 60" "measured ms"] that T M d d' by simp
qed

end

end
