(* ===== verification/Pallet_Rewards.thy ===== *)
theory Pallet_Rewards
  imports Frame
begin

text \<open>
  The pallet \<open>pallets/rewards\<close>: the author of a block, taken from its digest, receives the current
  reward when the block is finalised; root sets the reward and a schedule of changes. Events are
  kept in the order they are deposited.
\<close>

section \<open>Storage and calls\<close>

datatype 'a rewards_event = ScheduleSet | Rewarded 'a u128 | RewardChanged u128

datatype rewards_error = RewardTooLow | NotSorted

record 'a rewards_storage =
  rw_author :: "'a option"
  rw_reward :: "u128 option"
  rw_changes :: "(u32, u128) btree_map option"
  rw_events :: "'a rewards_event list"

definition rewards_storage_empty :: "'a rewards_storage" where
  "rewards_storage_empty = \<lparr>rw_author = None, rw_reward = None, rw_changes = None, rw_events = []\<rparr>"

definition rewards_genesis_build :: "u128 \<Rightarrow> 'a rewards_storage \<Rightarrow> 'a rewards_storage" where
  "rewards_genesis_build rewards s = s\<lparr>rw_reward := Some rewards\<rparr>"

definition deposit_event :: "'a rewards_event \<Rightarrow> 'a rewards_storage \<Rightarrow> 'a rewards_storage" where
  "deposit_event e s = s\<lparr>rw_events := rw_events s @ [e]\<rparr>"

definition set_schedule ::
  "('o, 'a) origin_ops \<Rightarrow> ('a, 'c) currency_ops \<Rightarrow> 'o \<Rightarrow> u128 \<Rightarrow> (u32 \<times> u128) list \<Rightarrow>
     'a rewards_storage \<Rightarrow> rewards_error dispatch_error + 'a rewards_storage" where
  "set_schedule Q C origin reward reward_changes s =
     bind_result (ensure_root Q origin) (\<lambda>_.
     let reward_changes = btree_from_list reward_changes in
     if \<not> minimum_balance C \<le> reward then Inl (Module_Error RewardTooLow)
     else if \<not> list_all (\<lambda>(_, reward_change). minimum_balance C \<le> reward_change) reward_changes
     then Inl (Module_Error RewardTooLow)
     else
       (let s = s\<lparr>rw_reward := Some reward\<rparr>;
            s = deposit_event (RewardChanged reward) s;
            s = s\<lparr>rw_changes := Some reward_changes\<rparr>
        in Inr (deposit_event ScheduleSet s)))"

definition do_reward ::
  "('a, 'c) currency_ops \<Rightarrow> 'a \<Rightarrow> u128 \<Rightarrow> 'c \<Rightarrow> 'c" where
  "do_reward C author reward balances = (let miner_total = reward in deposit_creating C author miner_total balances)"

section \<open>Hooks\<close>

definition on_finalize ::
  "('a, 'c) currency_ops \<Rightarrow> 'a rewards_storage \<times> 'c \<Rightarrow> 'a rewards_storage \<times> 'c" where
  "on_finalize C sc =
     (let (s, balances) = sc;
          balances = (case rw_author s of
             Some author \<Rightarrow>
               (let reward = (case rw_reward s of Some r \<Rightarrow> r | None \<Rightarrow> 0)
                in do_reward C author reward balances)
           | None \<Rightarrow> balances)
      in (s\<lparr>rw_author := None\<rparr>, balances))"

definition digest_author :: "(bytes \<Rightarrow> 'a option) \<Rightarrow> digest_item list \<Rightarrow> 'a option" where
  "digest_author decode logs =
     first_some (\<lambda>item. case as_pre_runtime item of
         Some (engine, data) \<Rightarrow> if engine = POW_ENGINE_ID then decode data else None
       | None \<Rightarrow> None) logs"

definition apply_change :: "u32 \<times> u128 \<Rightarrow> 'a rewards_storage \<Rightarrow> 'a rewards_storage" where
  "apply_change change s =
     (let (block_number, reward) = change
      in deposit_event (RewardChanged reward) (s\<lparr>rw_reward := Some reward\<rparr>))"

text \<open>
  The closure given to \<open>RewardChanges::mutate\<close>. The removal works on a clone of the map, which is
  dropped, so the stored map stays as it is.
\<close>

definition due_changes :: "u32 \<Rightarrow> 'a rewards_storage \<Rightarrow> (u32 \<times> u128) list" where
  "due_changes now s =
     btree_range_to now (case rw_changes s of Some changes \<Rightarrow> changes | None \<Rightarrow> [])"

definition mutate_changes :: "u32 \<Rightarrow> 'a rewards_storage \<Rightarrow> 'a rewards_storage" where
  "mutate_changes now s = fold apply_change (due_changes now s) s"

definition on_initialize ::
  "(bytes \<Rightarrow> 'a option) \<Rightarrow> digest_item list \<Rightarrow> u32 \<Rightarrow> 'a rewards_storage \<Rightarrow> 'a rewards_storage" where
  "on_initialize decode logs now s =
     (let s = (case digest_author decode logs of Some author \<Rightarrow> s\<lparr>rw_author := Some author\<rparr> | None \<Rightarrow> s)
      in mutate_changes now s)"

section \<open>Functional behaviour\<close>

lemma deposit_event_simps [simp]:
  "rw_author (deposit_event e s) = rw_author s" "rw_reward (deposit_event e s) = rw_reward s"
  "rw_changes (deposit_event e s) = rw_changes s" "rw_events (deposit_event e s) = rw_events s @ [e]"
  by (simp_all add: deposit_event_def)

lemma set_schedule_Inr:
  "set_schedule Q C origin reward changes s = Inr s' \<longleftrightarrow>
     is_root Q origin \<and> minimum_balance C \<le> reward
     \<and> (\<forall>(b, r) \<in> set (btree_from_list changes). minimum_balance C \<le> r)
     \<and> s' = s\<lparr>rw_reward := Some reward, rw_changes := Some (btree_from_list changes),
         rw_events := rw_events s @ [RewardChanged reward, ScheduleSet]\<rparr>"
  by (auto simp: set_schedule_def ensure_root_def Let_def deposit_event_def list_all_iff)

lemma set_schedule_Inl:
  "set_schedule Q C origin reward changes s = Inl e \<longleftrightarrow>
     (\<not> is_root Q origin \<and> e = Bad_Origin)
     \<or> (is_root Q origin \<and> e = Module_Error RewardTooLow
        \<and> (reward < minimum_balance C
           \<or> (\<exists>(b, r) \<in> set (btree_from_list changes). r < minimum_balance C)))"
  by (auto simp: set_schedule_def ensure_root_def Let_def list_all_iff not_le Bex_def)

text \<open>The reward after a list of changes is that of the last one.\<close>

definition last_reward :: "(u32 \<times> u128) list \<Rightarrow> u128 option \<Rightarrow> u128 option" where
  "last_reward due r = (if due = [] then r else Some (snd (last due)))"

lemma fold_apply_change:
  "fold apply_change due s =
     s\<lparr>rw_reward := last_reward due (rw_reward s),
       rw_events := rw_events s @ map (\<lambda>(b, r). RewardChanged r) due\<rparr>"
  by (induction due arbitrary: s)
    (auto simp: apply_change_def deposit_event_def last_reward_def split: prod.splits)

lemma mutate_changes_eq:
  "mutate_changes now s =
     s\<lparr>rw_reward := last_reward (due_changes now s) (rw_reward s),
       rw_events := rw_events s @ map (\<lambda>(b, r). RewardChanged r) (due_changes now s)\<rparr>"
  by (simp add: mutate_changes_def fold_apply_change)

lemma due_changes_author [simp]: "due_changes now (s\<lparr>rw_author := a\<rparr>) = due_changes now s"
  by (simp add: due_changes_def)

lemma on_initialize_eq:
  "on_initialize decode logs now s =
     s\<lparr>rw_author := (case digest_author decode logs of Some a \<Rightarrow> Some a | None \<Rightarrow> rw_author s),
       rw_reward := last_reward (due_changes now s) (rw_reward s),
       rw_events := rw_events s @ map (\<lambda>(b, r). RewardChanged r) (due_changes now s)\<rparr>"
  by (simp add: on_initialize_def mutate_changes_eq split: option.split)

section \<open>The schedule\<close>

text \<open>
  What the schedule promises: once changes are applied up to block \<open>now\<close>, the reward is the value of
  the latest change at or before \<open>now\<close>, if there is one.
\<close>

definition scheduled :: "(u32, u128) btree_map \<Rightarrow> u32 \<Rightarrow> u128 option \<Rightarrow> bool" where
  "scheduled changes now r \<longleftrightarrow>
     (\<forall>b v. (b, v) \<in> set changes \<and> b \<le> now \<and> (\<forall>(b', v') \<in> set changes. b' \<le> now \<longrightarrow> b' \<le> b) \<longrightarrow>
       r = Some v)"

lemma last_of_sorted:
  assumes "sorted_wrt (<) (map fst m)" and "m \<noteq> []" and "(b, v) \<in> set m"
    and "\<forall>(b', v') \<in> set m. b' \<le> (b :: 'k :: linorder)"
  shows "last m = (b, v)"
proof -
  obtain ms x where m: "m = ms @ [x]"
    using assms(2) by (cases m rule: rev_cases) auto
  then have "fst x \<le> b" "\<forall>y \<in> set ms. fst y < fst x"
    using assms(1,4) by (auto simp: sorted_wrt_append)
  then show ?thesis
    using assms(3) m by fastforce
qed

lemma mutate_changes_scheduled:
  assumes "rw_changes s = Some changes" and "btree_ok changes"
  shows "scheduled changes now (rw_reward (mutate_changes now s))"
  unfolding scheduled_def
proof (intro allI impI)
  fix b v
  assume *: "(b, v) \<in> set changes \<and> b \<le> now \<and> (\<forall>(b', v') \<in> set changes. b' \<le> now \<longrightarrow> b' \<le> b)"
  let ?due = "due_changes now s"
  have due: "?due = filter (\<lambda>(k, v). k \<le> now) changes"
    by (simp add: due_changes_def btree_range_to_def assms(1))
  have "sorted_wrt (<) (map fst ?due)"
    using assms(2) by (auto simp: due btree_ok_def sorted_wrt_map sorted_wrt_filter)
  moreover have "(b, v) \<in> set ?due" "\<forall>(b', v') \<in> set ?due. b' \<le> b"
    using * by (auto simp: due)
  moreover have ne: "?due \<noteq> []"
    using calculation(2) by auto
  ultimately have "last ?due = (b, v)"
    by (intro last_of_sorted)
  then show "rw_reward (mutate_changes now s) = Some v"
    using ne by (simp add: mutate_changes_eq last_reward_def)
qed

section \<open>Pruning\<close>

text \<open>
  What the hook sets out to do: apply the changes that are due, then drop them from the schedule. The
  stored reward is the same block by block; what differs is that the code's schedule never shrinks
  and that a change is announced again in every later block.
\<close>

definition prune :: "u32 \<Rightarrow> 'a rewards_storage \<Rightarrow> 'a rewards_storage" where
  "prune now s = s\<lparr>rw_changes := map_option (filter (\<lambda>(b, r). now < b)) (rw_changes s)\<rparr>"

definition on_initialize_pruned ::
  "(bytes \<Rightarrow> 'a option) \<Rightarrow> digest_item list \<Rightarrow> u32 \<Rightarrow> 'a rewards_storage \<Rightarrow> 'a rewards_storage" where
  "on_initialize_pruned decode logs now s = prune now (on_initialize decode logs now s)"

definition settled :: "u32 \<Rightarrow> 'a rewards_storage \<Rightarrow> bool" where
  "settled now s \<longleftrightarrow> last_reward (due_changes now s) (rw_reward s) = rw_reward s"

definition pruned_rel :: "u32 \<Rightarrow> 'a rewards_storage \<Rightarrow> 'a rewards_storage \<Rightarrow> bool" where
  "pruned_rel now s t \<longleftrightarrow> rw_author t = rw_author s \<and> rw_reward t = rw_reward s
     \<and> rw_changes t = map_option (filter (\<lambda>(b, r). now < b)) (rw_changes s)
     \<and> settled now s \<and> (\<forall>m. rw_changes s = Some m \<longrightarrow> btree_ok m)"

lemma sorted_split:
  assumes "sorted_wrt (<) (map fst m)" and "prev \<le> (now :: 'k :: linorder)"
  shows "filter (\<lambda>(b, r). b \<le> now) m =
    filter (\<lambda>(b, r). b \<le> prev) m @ filter (\<lambda>(b, r). b \<le> now) (filter (\<lambda>(b, r). prev < b) m)"
  using assms
proof (induction m)
  case Nil
  then show ?case by simp
next
  case (Cons x m)
  have "filter (\<lambda>(b, r). b \<le> prev) m = []" if "prev < fst x"
    using Cons.prems(1) that by (auto simp: filter_empty_conv dest: less_trans)
  then show ?case
    using Cons by (cases x) auto
qed

lemma due_split:
  assumes "\<And>m. rw_changes s = Some m \<Longrightarrow> btree_ok m" and "prev \<le> now"
    and "rw_changes t = map_option (filter (\<lambda>(b, r). prev < b)) (rw_changes s)"
  shows "due_changes now s = due_changes prev s @ due_changes now t"
  using assms sorted_split [of _ prev now]
  by (cases "rw_changes s") (auto simp: due_changes_def btree_range_to_def btree_ok_def)

lemma last_reward_append: "last_reward (xs @ ys) r = last_reward ys (last_reward xs r)"
  by (simp add: last_reward_def)

lemma on_initialize_settled: "settled now (on_initialize decode logs now s)"
  by (simp add: settled_def on_initialize_eq due_changes_def last_reward_def)

lemma filter_filter_less:
  "prev \<le> (now :: 'k :: linorder) \<Longrightarrow>
   filter (\<lambda>(b, r). now < b) (filter (\<lambda>(b, r). prev < b) m) = filter (\<lambda>(b, r). now < b) m"
  by (auto simp: filter_filter intro!: filter_cong)

lemma on_initialize_pruned_rel:
  assumes "pruned_rel prev s t" and "prev \<le> now"
  shows "pruned_rel now (on_initialize decode logs now s) (on_initialize_pruned decode logs now t)"
proof -
  have ch: "rw_changes t = map_option (filter (\<lambda>(b, r). prev < b)) (rw_changes s)"
    and eq: "rw_author t = rw_author s" "rw_reward t = rw_reward s" "settled prev s"
    and ok: "\<And>m. rw_changes s = Some m \<Longrightarrow> btree_ok m"
    using assms(1) by (auto simp: pruned_rel_def)
  have "last_reward (due_changes now t) (rw_reward t) = last_reward (due_changes now s) (rw_reward s)"
    using due_split [OF ok assms(2) ch] eq(2,3) by (simp add: last_reward_append settled_def)
  moreover have "map_option (filter (\<lambda>(b, r). now < b)) (rw_changes t) =
      map_option (filter (\<lambda>(b, r). now < b)) (rw_changes s)"
    using filter_filter_less [OF assms(2)] by (cases "rw_changes s") (simp_all add: ch del: filter_filter)
  ultimately show ?thesis
    using on_initialize_settled [of now decode logs s] ok eq(1)
    by (cases "digest_author decode logs")
      (simp_all add: pruned_rel_def on_initialize_pruned_def prune_def on_initialize_eq)
qed

lemma on_finalize_rel:
  assumes "pruned_rel now s t"
  shows "pruned_rel now (fst (on_finalize C (s, c))) (fst (on_finalize C (t, c)))
    \<and> snd (on_finalize C (s, c)) = snd (on_finalize C (t, c))"
  using assms
  by (cases "rw_author s") (simp_all add: pruned_rel_def on_finalize_def settled_def due_changes_def Let_def)

section \<open>Blocks\<close>

text \<open>A block: its digest and number; extrinsics are left out.\<close>

fun run_blocks ::
  "(bytes \<Rightarrow> 'a option) \<Rightarrow> ('a, 'c) currency_ops \<Rightarrow>
   ((bytes \<Rightarrow> 'a option) \<Rightarrow> digest_item list \<Rightarrow> u32 \<Rightarrow> 'a rewards_storage \<Rightarrow> 'a rewards_storage) \<Rightarrow>
   (digest_item list \<times> u32) list \<Rightarrow> 'a rewards_storage \<times> 'c \<Rightarrow> 'a rewards_storage \<times> 'c" where
  "run_blocks decode C init [] sc = sc"
| "run_blocks decode C init ((logs, now) # blocks) (s, c) =
     run_blocks decode C init blocks (on_finalize C (init decode logs now s, c))"

lemma run_blocks_pruned:
  assumes "pruned_rel prev s t" and "sorted_wrt (\<le>) (prev # map snd blocks)"
  shows "\<exists>now. pruned_rel now (fst (run_blocks decode C on_initialize blocks (s, c)))
      (fst (run_blocks decode C on_initialize_pruned blocks (t, c)))
    \<and> snd (run_blocks decode C on_initialize blocks (s, c)) =
      snd (run_blocks decode C on_initialize_pruned blocks (t, c))"
  using assms
proof (induction blocks arbitrary: prev s t c)
  case Nil
  then show ?case by auto
next
  case (Cons b blocks)
  obtain logs now where b: "b = (logs, now)"
    by (cases b)
  let ?s = "on_finalize C (on_initialize decode logs now s, c)"
  let ?t = "on_finalize C (on_initialize_pruned decode logs now t, c)"
  have "pruned_rel now (fst ?s) (fst ?t)" "snd ?s = snd ?t"
    using on_finalize_rel [OF on_initialize_pruned_rel [OF Cons.prems(1), of now decode logs], of C c]
      Cons.prems(2) b by simp_all
  moreover have "sorted_wrt (\<le>) (now # map snd blocks)"
    using Cons.prems(2) b by simp
  ultimately show ?case
    using Cons.IH [of now "fst ?s" "fst ?t" "snd ?s"] b by (cases ?s; cases ?t) simp
qed

text \<open>The payment of a block goes to its author, once, and the author is forgotten.\<close>

context currency
begin

lemma block_pays_author:
  assumes author: "digest_author decode logs = Some a"
    and r: "rw_reward (on_initialize decode logs now s) = Some r" "minimum_balance C \<le> r"
    and room: "uint (free_balance C c a) + uint r < 2 ^ 128"
  shows "uint (free_balance C (snd (on_finalize C (on_initialize decode logs now s, c))) a)
      = uint (free_balance C c a) + uint r"
    and "other \<noteq> a \<Longrightarrow> free_balance C (snd (on_finalize C (on_initialize decode logs now s, c))) other
      = free_balance C c other"
    and "rw_author (fst (on_finalize C (on_initialize decode logs now s, c))) = None"
proof -
  let ?s = "on_initialize decode logs now s"
  have a: "rw_author ?s = Some a"
    using author by (simp add: on_initialize_eq)
  have fin: "snd (on_finalize C (?s, c)) = deposit_creating C a r c"
    using a r(1) by (simp add: on_finalize_def do_reward_def Let_def)
  show "uint (free_balance C (snd (on_finalize C (?s, c))) a) = uint (free_balance C c a) + uint r"
    using deposit_uint [OF r(2) room] by (simp only: fin)
  show "free_balance C (snd (on_finalize C (?s, c))) other = free_balance C c other" if "other \<noteq> a"
    using deposit_others [OF that] by (simp only: fin)
  show "rw_author (fst (on_finalize C (?s, c))) = None"
    by (simp add: on_finalize_def Let_def)
qed

end

lemma block_without_author:
  assumes "digest_author decode logs = None" and "rw_author s = None"
  shows "snd (on_finalize C (on_initialize decode logs now s, c)) = c"
  using assms by (simp add: on_finalize_def on_initialize_eq Let_def)

end
