(* ===== verification/Pallet_Storage.thy ===== *)
theory Pallet_Storage
  imports Frame
begin

text \<open>
  The pallet \<open>pallets/storage\<close>: two stored numbers, their sum, and a counter with error branches; and
  the RPC handlers of \<open>pallets/storage/rpc\<close> and \<open>pallets/difficulty/rpc\<close>, which both ask the
  runtime API at a given block or at the best one.
\<close>

section \<open>Storage and calls\<close>

datatype storage_event = ValueSet u32 u32

datatype storage_error = NoneValue | StorageOverflow

record thing_storage =
  something :: "u32 option"
  thing1 :: u32
  thing2 :: u32
  st_events :: "storage_event list"

definition thing_storage_empty :: thing_storage where
  "thing_storage_empty = \<lparr>something = None, thing1 = 0, thing2 = 0, st_events = []\<rparr>"

definition set_thing_1 ::
  "('o, 'a) origin_ops \<Rightarrow> 'o \<Rightarrow> u32 \<Rightarrow> thing_storage \<Rightarrow> storage_error dispatch_error + thing_storage" where
  "set_thing_1 Q origin val s =
     bind_result (ensure_signed Q origin) (\<lambda>_.
       let s = s\<lparr>thing1 := val\<rparr>
       in Inr (s\<lparr>st_events := st_events s @ [ValueSet 1 val]\<rparr>))"

definition set_thing_2 ::
  "('o, 'a) origin_ops \<Rightarrow> 'o \<Rightarrow> u32 \<Rightarrow> thing_storage \<Rightarrow> storage_error dispatch_error + thing_storage" where
  "set_thing_2 Q origin val s =
     bind_result (ensure_signed Q origin) (\<lambda>_.
       let s = s\<lparr>thing2 := val\<rparr>
       in Inr (s\<lparr>st_events := st_events s @ [ValueSet 2 val]\<rparr>))"

definition checked_add :: "'a :: len word \<Rightarrow> 'a word \<Rightarrow> 'a word option" where
  "checked_add x y = (if uint x + uint y < 2 ^ LENGTH('a) then Some (x + y) else None)"

definition cause_error ::
  "('o, 'a) origin_ops \<Rightarrow> 'o \<Rightarrow> thing_storage \<Rightarrow> storage_error dispatch_error + thing_storage" where
  "cause_error Q origin s =
     bind_result (ensure_signed Q origin) (\<lambda>_.
       case something s of
         None \<Rightarrow> Inl (Module_Error NoneValue)
       | Some old \<Rightarrow>
           bind_result (case checked_add old 1 of Some new \<Rightarrow> Inr new
                        | None \<Rightarrow> Inl (Module_Error StorageOverflow)) (\<lambda>new.
           Inr (s\<lparr>something := Some new\<rparr>)))"

text \<open>The sum is a plain \<open>+\<close> on \<open>u32\<close>, which wraps in the release build of the runtime.\<close>

definition storage_get_sum :: "thing_storage \<Rightarrow> u32" where
  "storage_get_sum s = thing1 s + thing2 s"

section \<open>RPC\<close>

datatype rpc_error = Invalid_Params string

record ('h, 'e) rpc_client =
  best_hash :: 'h
  api_get_sum :: "'h \<Rightarrow> 'e + u32"
  api_get_avg_blocktime :: "'h \<Rightarrow> 'e + u32"

definition rpc_get_sum :: "('h, 'e) rpc_client \<Rightarrow> 'h option \<Rightarrow> rpc_error + u32" where
  "rpc_get_sum client at_block =
     (let block = (case at_block of Some h \<Rightarrow> h | None \<Rightarrow> best_hash client)
      in case api_get_sum client block of
           Inr v \<Rightarrow> Inr v
         | Inl e \<Rightarrow> Inl (Invalid_Params ''doesn't fit in NumberOrHex representation''))"

text \<open>\<open>debug\<close> is the \<open>Debug\<close> rendering of the error, which this handler appends.\<close>

definition rpc_get_avg_blocktime ::
  "('e \<Rightarrow> string) \<Rightarrow> ('h, 'e) rpc_client \<Rightarrow> 'h option \<Rightarrow> rpc_error + u32" where
  "rpc_get_avg_blocktime debug client at_block =
     (let block = (case at_block of Some h \<Rightarrow> h | None \<Rightarrow> best_hash client)
      in case api_get_avg_blocktime client block of
           Inr v \<Rightarrow> Inr v
         | Inl e \<Rightarrow> Inl (Invalid_Params (''doesn't fit in NumberOrHex representation '' @ debug e)))"

section \<open>Behaviour\<close>

text \<open>An abstract view: the two numbers as a pair, which every call but \<open>cause_error\<close> updates.\<close>

datatype storage_call = Set_1 u32 | Set_2 u32 | Cause_Error

fun storage_dispatch ::
  "('o, 'a) origin_ops \<Rightarrow> 'o \<Rightarrow> storage_call \<Rightarrow> thing_storage \<Rightarrow> storage_error dispatch_error + thing_storage" where
  "storage_dispatch Q origin (Set_1 v) s = set_thing_1 Q origin v s"
| "storage_dispatch Q origin (Set_2 v) s = set_thing_2 Q origin v s"
| "storage_dispatch Q origin Cause_Error s = cause_error Q origin s"

lemmas storage_call_defs = set_thing_1_def set_thing_2_def cause_error_def ensure_signed_def

text \<open>Unsigned calls fail; a signed setter succeeds and announces what it stored.\<close>

lemma storage_dispatch_unsigned:
  "signer_of Q origin = None \<Longrightarrow> storage_dispatch Q origin call s = Inl Bad_Origin"
  by (cases call) (simp_all add: storage_call_defs)

lemma storage_dispatch_signed:
  assumes "signer_of Q origin = Some who"
  shows "storage_dispatch Q origin (Set_1 v) s =
      Inr (s\<lparr>thing1 := v, st_events := st_events s @ [ValueSet 1 v]\<rparr>)"
    and "storage_dispatch Q origin (Set_2 v) s =
      Inr (s\<lparr>thing2 := v, st_events := st_events s @ [ValueSet 2 v]\<rparr>)"
  using assms by (simp_all add: storage_call_defs Let_def)

lemma cause_error_cases:
  assumes "signer_of Q origin = Some who"
  shows "cause_error Q origin s =
    (case something s of
       None \<Rightarrow> Inl (Module_Error NoneValue)
     | Some old \<Rightarrow> if old = - 1 then Inl (Module_Error StorageOverflow)
         else Inr (s\<lparr>something := Some (old + 1)\<rparr>))"
proof -
  have max: "uint old + 1 < 2 ^ 32 \<longleftrightarrow> old \<noteq> - 1" for old :: u32
  proof -
    have "uint (- 1 :: u32) = 2 ^ 32 - 1"
      by (simp add: unsigned_minus_1_eq_mask mask_eq_exp_minus_1)
    moreover have "uint old < 2 ^ 32"
      using uint_lt2p [of old] by simp
    ultimately show ?thesis
      by (auto simp: word_uint_eq_iff [of old])
  qed
  show ?thesis
    using assms max by (auto simp: storage_call_defs checked_add_def split: option.splits)
qed

text \<open>The counter is never set by the other calls, so on a chain without it every call errs.\<close>

lemma storage_dispatch_something:
  "storage_dispatch Q origin call s = Inr s' \<Longrightarrow> something s = None \<Longrightarrow>
   something s' = None \<and> call \<noteq> Cause_Error"
  by (cases call; cases "signer_of Q origin") (auto simp: storage_call_defs Let_def)

lemma storage_get_sum_exact:
  "uint (thing1 s) + uint (thing2 s) < 2 ^ 32 \<Longrightarrow>
   uint (storage_get_sum s) = uint (thing1 s) + uint (thing2 s)"
  by (simp add: storage_get_sum_def uint_plus_if')

lemma storage_get_sum_wraps:
  "2 ^ 32 \<le> uint (thing1 s) + uint (thing2 s) \<Longrightarrow>
   uint (storage_get_sum s) = uint (thing1 s) + uint (thing2 s) - 2 ^ 32"
  by (simp add: storage_get_sum_def uint_plus_if')

end
