(* ===== verification/Pallet_Trex.thy ===== *)
theory Pallet_Trex
  imports Frame
begin

text \<open>
  The pallet \<open>pallets/trex\<close>, which stores and announces the time-release messages sent to the chain,
  and the weight functions of the pallets (\<open>pallets/trex/src/weights.rs\<close>,
  \<open>pallets/rewards/src/default_weights.rs\<close>, \<open>runtime/src/weights/rewards.rs\<close>). The derived SCALE
  encoding of \<open>TREXData\<close> is a parameter.
\<close>

section \<open>Messages\<close>

record 'a trex_data =
  cipher_list :: bytes
  trex_from :: 'a

datatype 'a trex_event = TREXDataSent 'a bytes

text \<open>The errors are declared; no call returns one.\<close>

datatype trex_error = NoneValue_Trex | TREXInfoSentOverflow

record 'a trex_storage =
  trex_bytes :: "bytes option"
  trex_events :: "'a trex_event list"

definition trex_storage_empty :: "'a trex_storage" where
  "trex_storage_empty = \<lparr>trex_bytes = None, trex_events = []\<rparr>"

definition send_trex_data ::
  "('o, 'a) origin_ops \<Rightarrow> ('a trex_data \<Rightarrow> bytes) \<Rightarrow> 'o \<Rightarrow> 'a \<Rightarrow> bytes \<Rightarrow> 'a trex_storage \<Rightarrow>
     trex_error dispatch_error + 'a trex_storage" where
  "send_trex_data Q encode origin sender ciphers s =
     bind_result (ensure_signed Q origin) (\<lambda>who.
       let owner = who;
           trex_data = \<lparr>cipher_list = ciphers, trex_from = owner\<rparr>;
           trex_byte_data = encode trex_data;
           s = s\<lparr>trex_bytes := Some trex_byte_data\<rparr>
       in Inr (s\<lparr>trex_events := trex_events s @ [TREXDataSent who trex_byte_data]\<rparr>))"

fun send_all ::
  "('o, 'a) origin_ops \<Rightarrow> ('a trex_data \<Rightarrow> bytes) \<Rightarrow> ('o \<times> 'a \<times> bytes) list \<Rightarrow> 'a trex_storage \<Rightarrow> 'a trex_storage" where
  "send_all Q encode [] s = s"
| "send_all Q encode ((origin, sender, ciphers) # calls) s =
     send_all Q encode calls
       (case send_trex_data Q encode origin sender ciphers s of Inr s' \<Rightarrow> s' | Inl e \<Rightarrow> s)"

text \<open>The message a call carries: the signer and the ciphers; the argument \<open>_from\<close> is ignored.\<close>

definition sent_by :: "('o, 'a) origin_ops \<Rightarrow> 'o \<times> 'a \<times> bytes \<Rightarrow> 'a trex_data option" where
  "sent_by Q call = (case call of (origin, sender, ciphers) \<Rightarrow>
     map_option (\<lambda>who. \<lparr>cipher_list = ciphers, trex_from = who\<rparr>) (signer_of Q origin))"

lemma send_trex_data_eq:
  "send_trex_data Q encode origin sender ciphers s =
     (case sent_by Q (origin, sender, ciphers) of
        None \<Rightarrow> Inl Bad_Origin
      | Some d \<Rightarrow> Inr (s\<lparr>trex_bytes := Some (encode d),
          trex_events := trex_events s @ [TREXDataSent (trex_from d) (encode d)]\<rparr>))"
  by (simp add: send_trex_data_def ensure_signed_def sent_by_def Let_def split: option.split)

text \<open>
  The events are the archive of every message, in order; the storage holds the last one only.
\<close>

lemma send_all_archive:
  "trex_events (send_all Q encode calls s) =
     trex_events s @ map (\<lambda>d. TREXDataSent (trex_from d) (encode d)) (List.map_filter (sent_by Q) calls)
   \<and> trex_bytes (send_all Q encode calls s) =
     (if List.map_filter (sent_by Q) calls = [] then trex_bytes s
      else Some (encode (last (List.map_filter (sent_by Q) calls))))"
proof (induction calls arbitrary: s)
  case Nil
  then show ?case by (simp add: List.map_filter_simps)
next
  case (Cons call calls)
  obtain origin sender ciphers where call: "call = (origin, sender, ciphers)"
    by (cases call)
  show ?case
    using Cons.IH
    by (cases "sent_by Q call") (simp_all add: call send_trex_data_eq List.map_filter_simps)
qed

section \<open>Weights\<close>

definition trex_weight_send_trex_data :: "db_weight \<Rightarrow> weight" where
  "trex_weight_send_trex_data D = sat_add (sat_add 70952000 (db_reads D 1)) (db_writes D 1)"

definition default_weight_on_initialize :: "db_weight \<Rightarrow> weight" where
  "default_weight_on_initialize D = sat_add (sat_add 14800000 (db_reads D 2)) (db_writes D 2)"

definition default_weight_on_finalize :: "db_weight \<Rightarrow> weight" where
  "default_weight_on_finalize D = sat_add (sat_add 121500000 (db_reads D 5)) (db_writes D 3)"

definition default_weight_set_schedule :: "db_weight \<Rightarrow> weight" where
  "default_weight_set_schedule D = sat_add 32900000 (db_writes D 4)"

definition runtime_weight_on_initialize :: "db_weight \<Rightarrow> weight" where
  "runtime_weight_on_initialize D = sat_add (sat_add 14700000 (db_reads D 2)) (db_writes D 2)"

definition runtime_weight_on_finalize :: "db_weight \<Rightarrow> weight" where
  "runtime_weight_on_finalize D = sat_add (sat_add 121300000 (db_reads D 5)) (db_writes D 3)"

definition runtime_weight_set_schedule :: "db_weight \<Rightarrow> weight" where
  "runtime_weight_set_schedule D = sat_add 32500000 (db_writes D 4)"

text \<open>\<open>on_runtime_upgrade\<close> of \<open>pallets/rewards\<close> migrates nothing.\<close>

definition on_runtime_upgrade :: weight where
  "on_runtime_upgrade = 0"

text \<open>The implementations for \<open>()\<close>, over the weights of RocksDB.\<close>

definition unit_weight_send_trex_data :: "db_weight \<Rightarrow> weight" where
  "unit_weight_send_trex_data rocks_db = sat_add (sat_add 70952000 (db_reads rocks_db 1)) (db_writes rocks_db 1)"

definition unit_weight_on_initialize :: "db_weight \<Rightarrow> weight" where
  "unit_weight_on_initialize rocks_db = sat_add (sat_add 14800000 (db_reads rocks_db 2)) (db_writes rocks_db 2)"

definition unit_weight_on_finalize :: "db_weight \<Rightarrow> weight" where
  "unit_weight_on_finalize rocks_db = sat_add (sat_add 121500000 (db_reads rocks_db 5)) (db_writes rocks_db 3)"

definition unit_weight_set_schedule :: "db_weight \<Rightarrow> weight" where
  "unit_weight_set_schedule rocks_db = sat_add 32900000 (db_writes rocks_db 4)"

lemma unit_weights_agree:
  "unit_weight_send_trex_data = trex_weight_send_trex_data"
  "unit_weight_on_initialize = default_weight_on_initialize"
  "unit_weight_on_finalize = default_weight_on_finalize"
  "unit_weight_set_schedule = default_weight_set_schedule"
  by (simp_all add: fun_eq_iff unit_weight_send_trex_data_def trex_weight_send_trex_data_def
      unit_weight_on_initialize_def default_weight_on_initialize_def unit_weight_on_finalize_def
      default_weight_on_finalize_def unit_weight_set_schedule_def default_weight_set_schedule_def)

text \<open>The weight \<open>on_initialize\<close> of the rewards pallet returns covers both hooks.\<close>

definition rewards_block_weight :: "db_weight \<Rightarrow> weight" where
  "rewards_block_weight D = sat_add (runtime_weight_on_initialize D) (runtime_weight_on_finalize D)"

lemma uint_sat_mul: "uint (sat_mul x y) = min (uint x * uint y) (2 ^ 64 - 1)"
proof (cases "2 ^ 64 \<le> uint x * uint y")
  case True
  then show ?thesis
    by (simp add: sat_mul_def unsigned_minus_1_eq_mask mask_eq_exp_minus_1)
next
  case False
  then have "uint (x * y) = uint x * uint y"
    by (simp add: uint_word_ariths)
  then show ?thesis
    using False by (simp add: sat_mul_def)
qed

text \<open>On a database whose weights stay below \<open>2 ^ 58\<close> nothing saturates.\<close>

lemma rewards_block_weight_exact:
  assumes "uint (db_read D) < 2 ^ 58" and "uint (db_write D) < 2 ^ 58"
  shows "uint (rewards_block_weight D) = 136000000 + 7 * uint (db_read D) + 5 * uint (db_write D)"
  using assms
  by (simp add: rewards_block_weight_def runtime_weight_on_initialize_def runtime_weight_on_finalize_def
      db_reads_def db_writes_def uint_sat_add uint_sat_mul)

end
