(* ===== verification/Runtime.thy ===== *)
theory Runtime
  imports Pallet_Difficulty Pallet_Rewards Pallet_Storage Pallet_Trex
begin

text \<open>
  The runtime \<open>runtime/src/lib.rs\<close>: its configuration of the pallets, the genesis of
  \<open>runtime/src/genesis.rs\<close>, the runtime APIs, and a block as the pallets of this repository see it:
  the rewards hook, the timestamp inherent that drives the difficulty pallet, the calls, and the
  rewards hook at the end. The other pallets and the executive are Substrate's.
\<close>

section \<open>Configuration\<close>

definition BlockHashCount :: u32 where "BlockHashCount = 2400"
definition SS58Prefix :: u8 where "SS58Prefix = 42"
definition MaxAuthorities :: u32 where "MaxAuthorities = 32"
definition MaxLocks :: u32 where "MaxLocks = 50"
definition MinimumPeriod :: u64 where "MinimumPeriod = 3000"
definition ExistentialDeposit :: u128 where "ExistentialDeposit = 500"
definition TargetBlockTime :: u64 where "TargetBlockTime = of_nat BLOCK_TIME_SEC"

section \<open>Genesis\<close>

record 'p key_pair_ops =
  pair_from_string :: "string \<Rightarrow> 'p option"

record ('p, 'a) account_ops = "'p key_pair_ops" +
  pair_account :: "'p \<Rightarrow> 'a"                \<comment> \<open>\<open>AccountPublic::from(pair.public()).into_account()\<close>\<close>

definition account_id_from_seed :: "('p, 'a, 'z) account_ops_scheme \<Rightarrow> string \<Rightarrow> 'a option" where
  "account_id_from_seed K seed = do {
     pair \<leftarrow> pair_from_string K (''//'' @ seed);
     Some (pair_account K pair) }"

record 'a genesis_config =
  gc_code :: bytes
  gc_difficulty :: u128
  gc_balances :: "('a \<times> u128) list"
  gc_sudo_key :: "'a option"
  gc_rewards :: u128

definition testnet_genesis :: "bytes \<Rightarrow> 'a \<Rightarrow> 'a list \<Rightarrow> 'a genesis_config" where
  "testnet_genesis wasm_binary root_key endowed_accounts =
     \<lparr>gc_code = wasm_binary, gc_difficulty = INIT_DIFFICULTY,
      gc_balances = map (\<lambda>k. (k, push_bit 60 1)) endowed_accounts,
      gc_sudo_key = Some root_key, gc_rewards = REWARD_VALUE * DOLLARS\<rparr>"

definition dev_genesis :: "('p, 'a, 'z) account_ops_scheme \<Rightarrow> bytes \<Rightarrow> 'a genesis_config option" where
  "dev_genesis K wasm_binary = do {
     root \<leftarrow> account_id_from_seed K ''Alice'';
     alice \<leftarrow> account_id_from_seed K ''Alice'';
     bob \<leftarrow> account_id_from_seed K ''Bob'';
     alice_stash \<leftarrow> account_id_from_seed K ''Alice//stash'';
     bob_stash \<leftarrow> account_id_from_seed K ''Bob//stash'';
     Some (testnet_genesis wasm_binary root [alice, bob, alice_stash, bob_stash]) }"

record ('a, 'c) runtime_state =
  rt_difficulty :: difficulty_storage
  rt_rewards :: "'a rewards_storage"
  rt_things :: thing_storage
  rt_trex :: "'a trex_storage"
  rt_balances :: 'c

text \<open>\<open>balances\<close> builds the state of the balances pallet from its genesis entries.\<close>

definition runtime_genesis ::
  "(('a \<times> u128) list \<Rightarrow> 'c) \<Rightarrow> 'a genesis_config \<Rightarrow> ('a, 'c) runtime_state" where
  "runtime_genesis balances config =
     \<lparr>rt_difficulty = difficulty_genesis_build (gc_difficulty config) difficulty_storage_empty,
      rt_rewards = rewards_genesis_build (gc_rewards config) rewards_storage_empty,
      rt_things = thing_storage_empty, rt_trex = trex_storage_empty,
      rt_balances = balances (gc_balances config)\<rparr>"

section \<open>Runtime APIs\<close>

text \<open>\<open>DifficultyApi::difficulty\<close> unwraps the stored value.\<close>

definition api_difficulty :: "('a, 'c) runtime_state \<Rightarrow> u128 option" where
  "api_difficulty rt = current_difficulty (rt_difficulty rt)"

definition api_avg_blocktime :: "('a, 'c) runtime_state \<Rightarrow> u32" where
  "api_avg_blocktime rt = get_avg_blocktime TargetBlockTime (rt_difficulty rt)"

definition api_sum :: "('a, 'c) runtime_state \<Rightarrow> u32" where
  "api_sum rt = storage_get_sum (rt_things rt)"

text \<open>There are no session keys.\<close>

definition generate_session_keys :: "bytes option \<Rightarrow> bytes" where
  "generate_session_keys seed = []"

definition decode_session_keys :: "bytes \<Rightarrow> (bytes \<times> bytes) list option" where
  "decode_session_keys encoded = None"

section \<open>Blocks\<close>

datatype 'a runtime_call =
    Call_Set_Schedule u128 "(u32 \<times> u128) list"
  | Call_Storage storage_call
  | Call_Send_Trex_Data 'a bytes

text \<open>What the runtime is built from: the framework's operations and the derived codecs.\<close>

record ('o, 'a, 'c, 'f) runtime_ops =
  ro_origin :: "('o, 'a) origin_ops"
  ro_currency :: "('a, 'c) currency_ops"
  ro_f32 :: "'f f32_ops"
  ro_decode_account :: "bytes \<Rightarrow> 'a option"
  ro_encode_trex :: "'a trex_data \<Rightarrow> bytes"

fun dispatch ::
  "('o, 'a, 'c, 'f) runtime_ops \<Rightarrow> 'o \<times> 'a runtime_call \<Rightarrow> ('a, 'c) runtime_state \<Rightarrow> ('a, 'c) runtime_state" where
  "dispatch Q (origin, Call_Set_Schedule reward changes) rt =
     (case set_schedule (ro_origin Q) (ro_currency Q) origin reward changes (rt_rewards rt) of
        Inr s \<Rightarrow> rt\<lparr>rt_rewards := s\<rparr> | Inl e \<Rightarrow> rt)"
| "dispatch Q (origin, Call_Storage call) rt =
     (case storage_dispatch (ro_origin Q) origin call (rt_things rt) of
        Inr s \<Rightarrow> rt\<lparr>rt_things := s\<rparr> | Inl e \<Rightarrow> rt)"
| "dispatch Q (origin, Call_Send_Trex_Data sender ciphers) rt =
     (case send_trex_data (ro_origin Q) (ro_encode_trex Q) origin sender ciphers (rt_trex rt) of
        Inr s \<Rightarrow> rt\<lparr>rt_trex := s\<rparr> | Inl e \<Rightarrow> rt)"

record ('o, 'a) block =
  bl_number :: u32
  bl_logs :: "digest_item list"
  bl_timestamp :: u64
  bl_calls :: "('o \<times> 'a runtime_call) list"

definition begin_block ::
  "('o, 'a, 'c, 'f) runtime_ops \<Rightarrow> ('o, 'a) block \<Rightarrow> ('a, 'c) runtime_state \<Rightarrow> ('a, 'c) runtime_state option" where
  "begin_block Q b rt = do {
     let rewards = on_initialize (ro_decode_account Q) (bl_logs b) (bl_number b) (rt_rewards rt);
     difficulty \<leftarrow> on_timestamp_set (ro_f32 Q) TargetBlockTime (bl_timestamp b) (rt_difficulty rt);
     Some (rt\<lparr>rt_rewards := rewards, rt_difficulty := difficulty\<rparr>) }"

definition end_block ::
  "('o, 'a, 'c, 'f) runtime_ops \<Rightarrow> ('a, 'c) runtime_state \<Rightarrow> ('a, 'c) runtime_state" where
  "end_block Q rt =
     (let (rewards, balances) = on_finalize (ro_currency Q) (rt_rewards rt, rt_balances rt)
      in rt\<lparr>rt_rewards := rewards, rt_balances := balances\<rparr>)"

definition execute_block ::
  "('o, 'a, 'c, 'f) runtime_ops \<Rightarrow> ('o, 'a) block \<Rightarrow> ('a, 'c) runtime_state \<Rightarrow> ('a, 'c) runtime_state option" where
  "execute_block Q b rt = do {
     rt \<leftarrow> begin_block Q b rt;
     Some (end_block Q (fold (dispatch Q) (bl_calls b) rt)) }"

fun execute_blocks ::
  "('o, 'a, 'c, 'f) runtime_ops \<Rightarrow> ('o, 'a) block list \<Rightarrow> ('a, 'c) runtime_state \<Rightarrow> ('a, 'c) runtime_state option" where
  "execute_blocks Q [] rt = Some rt"
| "execute_blocks Q (b # bs) rt = do { rt \<leftarrow> execute_block Q b rt; execute_blocks Q bs rt }"

section \<open>The invariant of the chain\<close>

text \<open>Every reward the pallet may pay, now or by its schedule, is at least the minimum balance.\<close>

definition rewards_inv :: "u128 \<Rightarrow> 'a rewards_storage \<Rightarrow> bool" where
  "rewards_inv min_bal s \<longleftrightarrow>
     (\<exists>r. rw_reward s = Some r \<and> min_bal \<le> r)
     \<and> (\<forall>m. rw_changes s = Some m \<longrightarrow> btree_ok m \<and> (\<forall>(b, r) \<in> set m. min_bal \<le> r))"

definition runtime_inv :: "u128 \<Rightarrow> ('a, 'c) runtime_state \<Rightarrow> bool" where
  "runtime_inv min_bal rt \<longleftrightarrow> difficulty_inv (rt_difficulty rt)
     \<and> current_difficulty (rt_difficulty rt) \<noteq> None \<and> rewards_inv min_bal (rt_rewards rt)
     \<and> rw_author (rt_rewards rt) = None"

lemma due_changes_min:
  assumes "rewards_inv min_bal s" and "(b, r) \<in> set (due_changes now s)"
  shows "min_bal \<le> r"
  using assms
  by (cases "rw_changes s") (auto simp: rewards_inv_def due_changes_def btree_range_to_def)

lemma last_reward_min:
  assumes "\<exists>r. r0 = Some r \<and> min_bal \<le> r" and "\<And>b r. (b, r) \<in> set due \<Longrightarrow> min_bal \<le> r"
  shows "\<exists>r. last_reward due r0 = Some r \<and> min_bal \<le> r"
  using assms assms(2) [of "fst (last due)" "snd (last due)"] by (auto simp: last_reward_def)

lemma on_initialize_rewards_inv:
  assumes "rewards_inv min_bal s"
  shows "rewards_inv min_bal (on_initialize decode logs now s)"
proof -
  have "\<exists>r. last_reward (due_changes now s) (rw_reward s) = Some r \<and> min_bal \<le> r"
    using assms due_changes_min [OF assms] by (intro last_reward_min) (auto simp: rewards_inv_def)
  then show ?thesis
    using assms by (simp add: rewards_inv_def on_initialize_eq)
qed

lemma set_schedule_rewards_inv:
  assumes "set_schedule Q C origin reward changes s = Inr s'"
  shows "rewards_inv (minimum_balance C) s'"
  using assms by (auto simp: set_schedule_Inr rewards_inv_def btree_from_list_ok)

lemma set_schedule_author:
  "set_schedule Q C origin reward changes s = Inr s' \<Longrightarrow> rw_author s' = rw_author s"
  by (auto simp: set_schedule_Inr)

lemma dispatch_inv:
  assumes "rewards_inv (minimum_balance (ro_currency Q)) (rt_rewards rt)"
  shows "rewards_inv (minimum_balance (ro_currency Q)) (rt_rewards (dispatch Q call rt))"
    and "rt_difficulty (dispatch Q call rt) = rt_difficulty rt"
    and "rw_author (rt_rewards (dispatch Q call rt)) = rw_author (rt_rewards rt)"
    and "rt_balances (dispatch Q call rt) = rt_balances rt"
  using assms
  by (cases "(Q, call, rt)" rule: dispatch.cases;
      auto split: sum.split dest: set_schedule_rewards_inv set_schedule_author)+

lemma fold_dispatch_inv:
  assumes "rewards_inv (minimum_balance (ro_currency Q)) (rt_rewards rt)"
  shows "rewards_inv (minimum_balance (ro_currency Q)) (rt_rewards (fold (dispatch Q) calls rt))
    \<and> rt_difficulty (fold (dispatch Q) calls rt) = rt_difficulty rt
    \<and> rw_author (rt_rewards (fold (dispatch Q) calls rt)) = rw_author (rt_rewards rt)
    \<and> rt_balances (fold (dispatch Q) calls rt) = rt_balances rt"
  using assms
proof (induction calls arbitrary: rt)
  case Nil
  then show ?case by simp
next
  case (Cons call calls)
  show ?case
    using Cons.IH [OF dispatch_inv(1) [OF Cons.prems]] dispatch_inv(2-4) [OF Cons.prems] by simp
qed

text \<open>A block never panics and keeps the invariant; its author is paid the reward in force at its end.\<close>

lemma execute_block_ok:
  assumes inv: "runtime_inv (minimum_balance (ro_currency Q)) rt"
  shows "\<exists>rt'. execute_block Q b rt = Some rt' \<and> runtime_inv (minimum_balance (ro_currency Q)) rt'
    \<and> height_of (rt_difficulty rt') = Suc (height_of (rt_difficulty rt)) mod 60
    \<and> rt_balances rt' =
        (case digest_author (ro_decode_account Q) (bl_logs b) of
           None \<Rightarrow> rt_balances rt
         | Some a \<Rightarrow> deposit_creating (ro_currency Q) a (the (rw_reward (rt_rewards rt'))) (rt_balances rt))"
proof -
  let ?min = "minimum_balance (ro_currency Q)"
  obtain d where d: "on_timestamp_set (ro_f32 Q) TargetBlockTime (bl_timestamp b) (rt_difficulty rt) = Some d"
      "difficulty_inv d" "height_of d = Suc (height_of (rt_difficulty rt)) mod 60"
      "current_difficulty d \<noteq> None"
    using on_timestamp_set_step [of "rt_difficulty rt" "ro_f32 Q" TargetBlockTime "bl_timestamp b"] inv
    unfolding runtime_inv_def by (metis option.distinct(1))
  define s where "s = on_initialize (ro_decode_account Q) (bl_logs b) (bl_number b) (rt_rewards rt)"
  define rt1 where "rt1 = rt\<lparr>rt_rewards := s, rt_difficulty := d\<rparr>"
  define rt2 where "rt2 = fold (dispatch Q) (bl_calls b) rt1"
  have s: "rewards_inv ?min s" "rw_author s = digest_author (ro_decode_account Q) (bl_logs b)"
    using inv on_initialize_rewards_inv [of ?min "rt_rewards rt"]
    by (simp_all add: s_def runtime_inv_def) (simp add: on_initialize_eq split: option.split)
  have rt2: "rewards_inv ?min (rt_rewards rt2)" "rt_difficulty rt2 = d"
      "rw_author (rt_rewards rt2) = rw_author s" "rt_balances rt2 = rt_balances rt"
    using fold_dispatch_inv [of Q rt1 "bl_calls b"] s(1) by (simp_all add: rt1_def rt2_def)
  have run: "execute_block Q b rt = Some (end_block Q rt2)"
    using d(1) by (simp add: execute_block_def begin_block_def Let_def rt1_def rt2_def s_def)
  obtain r where r: "rw_reward (rt_rewards rt2) = Some r"
    using rt2(1) by (auto simp: rewards_inv_def)
  have fin: "on_finalize (ro_currency Q) (rt_rewards rt2, rt_balances rt2) =
      ((rt_rewards rt2)\<lparr>rw_author := None\<rparr>,
       case rw_author s of None \<Rightarrow> rt_balances rt
       | Some a \<Rightarrow> deposit_creating (ro_currency Q) a r (rt_balances rt))"
    using r rt2(3,4) by (cases "rw_author s") (simp_all add: on_finalize_def do_reward_def)
  have "runtime_inv ?min (end_block Q rt2)"
    using rt2(1,2) d(2,4) by (simp add: runtime_inv_def end_block_def fin rewards_inv_def)
  moreover have "rw_reward (rt_rewards (end_block Q rt2)) = Some r"
    "rt_difficulty (end_block Q rt2) = d"
    "rt_balances (end_block Q rt2) =
       (case digest_author (ro_decode_account Q) (bl_logs b) of None \<Rightarrow> rt_balances rt
        | Some a \<Rightarrow> deposit_creating (ro_currency Q) a r (rt_balances rt))"
    using r rt2(2) s(2) by (simp_all add: end_block_def fin)
  ultimately show ?thesis
    using run d(3) by (intro exI [of _ "end_block Q rt2"]) (simp split: option.split)
qed

lemma execute_blocks_ok:
  assumes "runtime_inv (minimum_balance (ro_currency Q)) rt"
  shows "\<exists>rt'. execute_blocks Q bs rt = Some rt' \<and> runtime_inv (minimum_balance (ro_currency Q)) rt'"
  using assms
proof (induction bs arbitrary: rt)
  case Nil
  then show ?case by simp
next
  case (Cons b bs)
  then show ?case
    using execute_block_ok [OF Cons.prems, of b] by auto
qed

lemma genesis_runtime_inv:
  assumes "min_bal \<le> gc_rewards config" and "MIN_DIFFICULTY \<le> gc_difficulty config"
    and "gc_difficulty config \<le> MAX_DIFFICULTY"
  shows "runtime_inv min_bal (runtime_genesis balances config)"
  using assms genesis_inv [of "gc_difficulty config"]
  by (simp add: runtime_inv_def runtime_genesis_def rewards_inv_def rewards_genesis_build_def
      rewards_storage_empty_def difficulty_genesis_build_def)

lemma testnet_genesis_inv:
  "min_bal \<le> 60000000000000 \<Longrightarrow> runtime_inv min_bal (runtime_genesis balances (testnet_genesis code root_key accounts))"
  by (rule genesis_runtime_inv)
    (simp_all add: testnet_genesis_def currency_consts difficulty_consts)

lemma runtime_inv_difficulty:
  assumes "runtime_inv min_bal rt"
  shows "\<exists>d. api_difficulty rt = Some d \<and> 48 \<le> uint d \<and> uint d \<le> 224"
  using assms
  by (auto simp: runtime_inv_def api_difficulty_def difficulty_inv_def difficulty_or_default_def
      difficulty_consts word_le_def)

end
