(* ===== verification/Runtime_Properties.thy ===== *)
theory Runtime_Properties
  imports Runtime
begin

text \<open>
  The properties of the pallets and of the runtime that composes them. The floating-point operations
  enter by the locale predicate \<open>f32_spec\<close>, whose instance in the witnesses is exact arithmetic, and
  the balances pallet by \<open>currency\<close>, whose instance is \<open>balances_ops\<close>.
\<close>

section \<open>The difficulty pallet\<close>

text \<open>
  From a genesis difficulty within the bounds no sequence of timestamps makes the pallet panic; the
  difficulty stays within the bounds, and the window position counts the blocks modulo 60.
\<close>

theorem difficulty_run_safe:
  assumes "MIN_DIFFICULTY \<le> d" and "d \<le> MAX_DIFFICULTY"
  shows "\<exists>s. set_timestamps F target ms (difficulty_genesis_build d difficulty_storage_empty) = Some s
    \<and> MIN_DIFFICULTY \<le> difficulty_or_default s \<and> difficulty_or_default s \<le> MAX_DIFFICULTY
    \<and> height_of s = length ms mod 60"
proof -
  let ?g = "difficulty_genesis_build d difficulty_storage_empty"
  have "height_of ?g = 0"
    by (simp add: height_of_def difficulty_genesis_build_def difficulty_storage_empty_def)
  then show ?thesis
    using set_timestamps_total [OF genesis_inv [OF assms], of F target ms]
    by (auto simp: difficulty_inv_def)
qed

theorem difficulty_run_safe_witness:
  "\<exists>s. set_timestamps exact_f32 60 [1000, 61000] (difficulty_genesis_build 56 difficulty_storage_empty) = Some s
    \<and> height_of s = 2"
  using difficulty_run_safe [of 56 exact_f32 60 "[1000, 61000]"]
  by (auto simp: difficulty_consts word_le_def)

text \<open>
  C40. The difficulty changes only at the last block of a window, and then by at most one.
\<close>

theorem difficulty_step_bounded:
  assumes "difficulty_inv s"
  shows "\<exists>s'. on_timestamp_set F target moment s = Some s' \<and> difficulty_inv s'
    \<and> (height_of s \<noteq> 59 \<longrightarrow> current_difficulty s' = current_difficulty s)
    \<and> \<bar>uint (difficulty_or_default s') - uint (difficulty_or_default s)\<bar> \<le> 1"
proof -
  have d: "48 \<le> uint (difficulty_or_default s)" "uint (difficulty_or_default s) \<le> 224"
    using assms by (simp_all add: difficulty_inv_def word_le_def difficulty_consts)
  have adj: "\<bar>uint (adjust_difficulty (difficulty_or_default s) (clamp F t m)) - uint (difficulty_or_default s)\<bar> \<le> 1"
    for t m
    using adjust_difficulty_uint [OF d clamp_range, of F t m] clamp_range [of F t m] d by auto
  obtain s' where s': "on_timestamp_set F target moment s = Some s'" "difficulty_inv s'"
      "height_of s \<noteq> 59 \<longrightarrow> current_difficulty s' = current_difficulty s"
      "height_of s = 59 \<longrightarrow> (\<exists>t m. current_difficulty s' =
         Some (adjust_difficulty (difficulty_or_default s) (clamp F t m)))"
    using on_timestamp_set_step [OF assms, of F target moment] by blast
  then have "\<bar>uint (difficulty_or_default s') - uint (difficulty_or_default s)\<bar> \<le> 1"
    using adj by (cases "height_of s = 59") (auto simp: difficulty_or_default_def)
  then show ?thesis
    using s' by blast
qed

lemma ref_difficulty_inv: "difficulty_inv (difficulty_genesis_build 56 difficulty_storage_empty)"
  by (rule genesis_inv) (simp_all add: difficulty_consts word_le_def)

theorem difficulty_step_bounded_witness:
  "\<exists>s'. on_timestamp_set exact_f32 60 1000 (difficulty_genesis_build 56 difficulty_storage_empty) = Some s'
    \<and> difficulty_inv s'"
  using difficulty_step_bounded [OF ref_difficulty_inv, of exact_f32 60 1000] by blast

text \<open>
  C13. The direction of an adjustment. With \<open>T\<close> the target and \<open>M\<close> the measured seconds of a window
  of 60 blocks, the difficulty goes up by one when the fourth power of \<open>T / M\<close> is at least \<open>2.1\<close>,
  down by one when it is at most \<open>1 / 2.1\<close>, and stays when it lies between \<open>1 / 1.9\<close> and \<open>1.9\<close>: the
  single-precision logarithm decides within these margins.
\<close>

theorem difficulty_follows_block_time:
  assumes "f32_spec F val" and "difficulty_inv s" and "height_of s = 0" and "length ms = 60"
    and "0 < uint target" and "uint target < 2 ^ 54"
    and "T = 60 * uint target" and "M = max 1 (elapsed_seconds ms)"
  shows "\<exists>s'. set_timestamps F target ms s = Some s'
    \<and> (21 * M ^ 4 \<le> 10 * T ^ 4 \<longrightarrow>
        uint (difficulty_or_default s') = min 224 (uint (difficulty_or_default s) + 1))
    \<and> (21 * T ^ 4 \<le> 10 * M ^ 4 \<longrightarrow>
        uint (difficulty_or_default s') = max 48 (uint (difficulty_or_default s) - 1))
    \<and> (10 * T ^ 4 \<le> 19 * M ^ 4 \<and> 10 * M ^ 4 \<le> 19 * T ^ 4 \<longrightarrow>
        uint (difficulty_or_default s') = uint (difficulty_or_default s))"
proof -
  obtain s' where "set_timestamps F target ms s = Some s'"
    using set_timestamps_total [OF assms(2)] by blast
  then show ?thesis
    using f32_spec.window_adjusts [OF assms(1-6)] assms(7,8) by blast
qed

theorem difficulty_follows_block_time_witness:
  "\<exists>s'. set_timestamps exact_f32 60 (replicate 60 0) (difficulty_genesis_build 56 difficulty_storage_empty) = Some s'
    \<and> uint (difficulty_or_default s') = 57"
proof -
  have "elapsed_seconds (replicate 60 0) = 0"
    by code_simp
  then show ?thesis
    using difficulty_follows_block_time [OF exact.f32_spec_axioms ref_difficulty_inv, of "replicate 60 0" 60
        3600 1]
    by (auto simp: height_of_def difficulty_genesis_build_def difficulty_storage_empty_def
        difficulty_or_default_def)
qed

text \<open>
  What a window measures: for increasing timestamps the sum of the whole seconds between
  neighbours falls short of the time from the first block to the last by less than a second per block.
\<close>

theorem window_measures_elapsed:
  assumes "\<And>i. Suc i < length ms \<Longrightarrow> ms ! i \<le> ms ! Suc i" and "0 < length ms" and "filled data ms"
  shows "1000 * uint (window_delta bt data) \<le> uint (last ms) - uint (ms ! 0)
    \<and> uint (last ms) - uint (ms ! 0) \<le> 1000 * uint (window_delta bt data) + 58941"
proof -
  have "length ms = 60" and "hd ms = ms ! 0"
    using assms(2,3) by (simp_all add: filled_def hd_conv_nth)
  then show ?thesis
    using elapsed_seconds_bounds [OF assms(1,2)] window_delta_filled(1) [OF assms(3), of bt] by simp
qed

theorem window_measures_elapsed_witness:
  "uint (window_delta 60 (map (\<lambda>i. Some \<lparr>dt_difficulty = 56, dt_timestamp = of_nat (60999 * i)\<rparr>) [0..<60])) \<le> 3598"
proof -
  define f :: "nat \<Rightarrow> u64" where "f i = of_nat (60999 * i)" for i
  have f: "unat (f i) = 60999 * i" if "i < 60" for i
    unfolding f_def using that by (intro unat_of_nat_small) simp
  let ?ms = "map f [0..<60]"
  let ?data = "map (\<lambda>i. Some \<lparr>dt_difficulty = 56, dt_timestamp = f i\<rparr>) [0..<60]"
  have mono: "?ms ! i \<le> ?ms ! Suc i" if "Suc i < length ?ms" for i
    using that by (simp add: word_le_nat_alt f)
  have "filled ?data ?ms"
    by (simp add: filled_def)
  moreover have "uint (f 59) = 3598941" "uint (f 0) = 0"
    using f [of 59] f [of 0] by (simp_all add: uint_nat)
  ultimately have "uint (window_delta 60 ?data) \<le> 3598"
    using window_measures_elapsed [OF mono, of ?data 60] by (simp add: last_map)
  then show ?thesis
    by (simp only: f_def)
qed

text \<open>
  The average the runtime reports: before a window is recorded it is 59 seconds, not the target of
  60, since 59 intervals are divided by 60; once a window is recorded it is the measured time over 60.
\<close>

theorem avg_blocktime_value:
  "get_avg_blocktime TargetBlockTime difficulty_storage_empty = 59
   \<and> (filled (past_difficulties s) ms \<and> elapsed_seconds ms < 60 * 2 ^ 32 \<longrightarrow>
      uint (get_avg_blocktime target s) = elapsed_seconds ms div 60)"
proof -
  have empty: "get_avg_blocktime TargetBlockTime difficulty_storage_empty = 59"
    by code_simp
  have "uint (get_avg_blocktime target s) = elapsed_seconds ms div 60"
    if f: "filled (past_difficulties s) ms" and small: "elapsed_seconds ms < 60 * 2 ^ 32"
  proof -
    have "uint (window_delta (ucast target) (past_difficulties s) div 60) = elapsed_seconds ms div 60"
      using window_delta_filled(1) [OF f] by (simp add: uint_div)
    moreover have "0 \<le> elapsed_seconds ms div 60" "elapsed_seconds ms div 60 < 2 ^ 32"
      using window_delta_filled(3) [OF f] small by auto
    ultimately show ?thesis
      by (simp add: get_avg_blocktime_def unsigned_ucast_eq unsigned_take_bit_eq take_bit_int_eq_self)
  qed
  then show ?thesis
    using empty by blast
qed

theorem avg_blocktime_value_witness:
  "uint (get_avg_blocktime 60 (difficulty_storage_empty\<lparr>past_difficulties :=
      replicate 60 (Some \<lparr>dt_difficulty = 56, dt_timestamp = 7\<rparr>)\<rparr>)) = 0"
proof -
  have "elapsed_seconds (replicate 60 7) = 0"
    by code_simp
  then show ?thesis
    using avg_blocktime_value [of "difficulty_storage_empty\<lparr>past_difficulties :=
        replicate 60 (Some \<lparr>dt_difficulty = 56, dt_timestamp = 7\<rparr>)\<rparr>" "replicate 60 7" 60]
    by (simp add: filled_def)
qed

section \<open>The rewards pallet\<close>

text \<open>
  C34. \<open>set_schedule\<close> on every input: only root may call it; the schedule it stores maps every block to
  the last change listed for it; and neither the reward nor the last change listed for a block may be
  below the minimum balance, or nothing is stored. An earlier change for the same block is not checked.
\<close>

lemma btree_ok_map_of: "btree_ok m \<Longrightarrow> (k, v) \<in> set m \<longleftrightarrow> map_of m k = Some v"
  by (metis btree_ok_def map_of_eq_Some_iff strict_sorted_iff)

theorem set_schedule_decides:
  "\<exists>m. btree_ok m \<and> map_of m = map_of (rev changes) \<and>
     set_schedule Q C origin reward changes s =
       (if \<not> is_root Q origin then Inl Bad_Origin
        else if reward < minimum_balance C \<or> (\<exists>b r. map_of (rev changes) b = Some r \<and> r < minimum_balance C)
        then Inl (Module_Error RewardTooLow)
        else Inr (s\<lparr>rw_reward := Some reward, rw_changes := Some m,
               rw_events := rw_events s @ [RewardChanged reward, ScheduleSet]\<rparr>))"
proof -
  let ?m = "btree_from_list changes"
  have entry: "(b, r) \<in> set ?m \<longleftrightarrow> map_of (rev changes) b = Some r" for b r
    using btree_ok_map_of [OF btree_from_list_ok, of b r changes] by (simp only: btree_from_list_lookup)
  have "set_schedule Q C origin reward changes s =
       (if \<not> is_root Q origin then Inl Bad_Origin
        else if reward < minimum_balance C \<or> (\<exists>b r. (b, r) \<in> set ?m \<and> r < minimum_balance C)
        then Inl (Module_Error RewardTooLow)
        else Inr (s\<lparr>rw_reward := Some reward, rw_changes := Some ?m,
               rw_events := rw_events s @ [RewardChanged reward, ScheduleSet]\<rparr>))"
    by (auto simp: set_schedule_def ensure_root_def Let_def deposit_event_def list_all_iff not_le)
  then show ?thesis
    using btree_from_list_ok [of changes] btree_from_list_lookup [of changes]
    by (intro exI [of _ ?m]) (simp only: entry simp_thms)
qed

text \<open>
  When a block is initialised the reward becomes that of the latest change at or before the block.
\<close>

theorem due_change_applies:
  assumes "rw_changes s = Some changes" and "btree_ok changes"
    and "map_of changes b = Some r" and "b \<le> now"
    and "\<forall>b' \<in> dom (map_of changes). b' \<le> now \<longrightarrow> b' \<le> b"
  shows "rw_reward (on_initialize decode logs now s) = Some r"
proof -
  have "(b, r) \<in> set changes" "\<forall>(b', v') \<in> set changes. b' \<le> now \<longrightarrow> b' \<le> b"
    using assms(3,5) btree_ok_map_of [OF assms(2)] map_of_SomeD by fastforce+
  then have "rw_reward (mutate_changes now s) = Some r"
    using mutate_changes_scheduled [OF assms(1,2), of now] assms(4) unfolding scheduled_def by blast
  then show ?thesis
    by (simp add: on_initialize_eq mutate_changes_eq)
qed

theorem due_change_applies_witness:
  "rw_reward (on_initialize (\<lambda>bs. None :: nat option) [] 45
     (rewards_storage_empty\<lparr>rw_changes := Some [(10, 100), (20, 50), (40, 25), (50, 20)]\<rparr>)) = Some 25"
  by (rule due_change_applies [where b = 40 and changes = "[(10, 100), (20, 50), (40, 25), (50, 20)]"])
    (auto simp: btree_ok_def split: if_splits)

text \<open>
  C33. Pruning would change nothing that is paid: the code, which drops a clone of the schedule, and the
  hook that removes the changes it applied, agree block by block on the reward, the author and every
  balance.
\<close>

theorem pruning_refinement:
  assumes "pruned_rel prev s t" and "sorted_wrt (\<le>) (prev # map snd blocks)"
  shows "\<exists>now. pruned_rel now (fst (run_blocks decode C on_initialize blocks (s, c)))
      (fst (run_blocks decode C on_initialize_pruned blocks (t, c)))
    \<and> snd (run_blocks decode C on_initialize blocks (s, c)) =
      snd (run_blocks decode C on_initialize_pruned blocks (t, c))"
  by (rule run_blocks_pruned [OF assms])

theorem pruning_refinement_witness:
  "snd (run_blocks (\<lambda>bs. Some (0 :: nat)) (balances_ops 500) on_initialize
       [([Pre_Runtime POW_ENGINE_ID []], 5)] (rewards_storage_empty\<lparr>rw_changes := Some [(4, 600)]\<rparr>, \<lambda>a. 0))
   = snd (run_blocks (\<lambda>bs. Some (0 :: nat)) (balances_ops 500) on_initialize_pruned
       [([Pre_Runtime POW_ENGINE_ID []], 5)] (rewards_storage_empty\<lparr>rw_changes := Some [(4, 600)]\<rparr>, \<lambda>a. 0))"
proof -
  let ?s = "rewards_storage_empty\<lparr>rw_changes := Some [(4, 600)]\<rparr> :: nat rewards_storage"
  have "pruned_rel 3 ?s ?s"
    by (simp add: pruned_rel_def settled_def due_changes_def btree_range_to_def last_reward_def btree_ok_def)
  then show ?thesis
    using pruning_refinement [of 3 ?s ?s "[([Pre_Runtime POW_ENGINE_ID []], 5)]" "\<lambda>bs. Some 0"
        "balances_ops 500" "\<lambda>a. 0"]
    by simp
qed

text \<open>
  C35. What the missing removal does: the stored schedule never shrinks, and every change that was due
  at a block is announced again at every later block.
\<close>

theorem changes_reannounced:
  assumes "rw_changes s = Some changes" and "(b, r) \<in> set changes" and "b \<le> now" and "now \<le> later"
  shows "rw_changes (on_initialize decode logs' later (on_initialize decode logs now s)) = Some changes
    \<and> RewardChanged r \<in> set (drop (length (rw_events (on_initialize decode logs now s)))
        (rw_events (on_initialize decode logs' later (on_initialize decode logs now s))))"
proof -
  have "(b, r) \<in> set (due_changes later (on_initialize decode logs now s))"
    using assms by (auto simp: due_changes_def btree_range_to_def on_initialize_eq)
  then have "RewardChanged r \<in> (\<lambda>(b, r). RewardChanged r) ` set (due_changes later (on_initialize decode logs now s))"
    by force
  then show ?thesis
    using assms(1) by (simp add: on_initialize_eq)
qed

theorem changes_reannounced_witness:
  "rw_changes (on_initialize (\<lambda>bs. None :: nat option) [] 100 (on_initialize (\<lambda>bs. None) [] 50
     (rewards_storage_empty\<lparr>rw_changes := Some [(50, 20)]\<rparr>))) = Some [(50, 20)]"
  using changes_reannounced [of "rewards_storage_empty\<lparr>rw_changes := Some [(50, 20)]\<rparr> :: nat rewards_storage" "[(50, 20)]" 50 20 50 100]
  by simp

section \<open>The storage and message pallets\<close>

text \<open>
  The events of the message pallet are a complete archive: after any calls they hold one entry per
  signed call, in order, with the signer as the sender; the storage holds the last message.
\<close>

theorem messages_archived:
  "trex_events (send_all Q encode calls trex_storage_empty) =
     map (\<lambda>d. TREXDataSent (trex_from d) (encode d)) (List.map_filter (sent_by Q) calls)
   \<and> trex_bytes (send_all Q encode calls trex_storage_empty) =
     (if List.map_filter (sent_by Q) calls = [] then None
      else Some (encode (last (List.map_filter (sent_by Q) calls))))"
  using send_all_archive [of Q encode calls trex_storage_empty] by (simp add: trex_storage_empty_def)

section \<open>The runtime\<close>

text \<open>The runtime of the witnesses: exact arithmetic, and balances as a function.\<close>

definition ref_runtime_ops :: "(nat raw_origin, nat, nat \<Rightarrow> u128, real) runtime_ops" where
  "ref_runtime_ops = \<lparr>ro_origin = raw_origin_ops, ro_currency = balances_ops ExistentialDeposit,
     ro_f32 = exact_f32, ro_decode_account = (\<lambda>bs. Some (length bs)), ro_encode_trex = cipher_list\<rparr>"

definition ref_genesis :: "(nat, nat \<Rightarrow> u128) runtime_state" where
  "ref_genesis = runtime_genesis (\<lambda>entries a. 0) (testnet_genesis [] 0 [])"

definition ref_block :: "(nat raw_origin, nat) block" where
  "ref_block = \<lparr>bl_number = 1, bl_logs = [Pre_Runtime POW_ENGINE_ID [1]], bl_timestamp = 60000,
     bl_calls = [(Signed 3, Call_Storage (Set_1 5))]\<rparr>"

lemma ref_minimum_balance: "minimum_balance (ro_currency ref_runtime_ops) = 500"
  by (simp add: ref_runtime_ops_def balances_ops_def ExistentialDeposit_def)

lemma ref_currency: "currency (ro_currency ref_runtime_ops)"
  using balances.currency_axioms by (simp add: ref_runtime_ops_def)

text \<open>
  From the genesis of a test network every sequence of blocks executes without a panic; afterwards
  the difficulty API returns a value between 48 and 224, the reward is at least the minimum balance, and
  no author is left over.
\<close>

lemma chain_from_genesis_safe:
  assumes "minimum_balance (ro_currency Q) \<le> 60000000000000"
  shows "\<exists>rt. execute_blocks Q blocks (runtime_genesis balances (testnet_genesis code root_key accounts)) = Some rt
    \<and> (\<exists>d. api_difficulty rt = Some d \<and> 48 \<le> uint d \<and> uint d \<le> 224)
    \<and> (\<exists>r. rw_reward (rt_rewards rt) = Some r \<and> minimum_balance (ro_currency Q) \<le> r)
    \<and> rw_author (rt_rewards rt) = None"
proof -
  obtain rt where rt: "runtime_inv (minimum_balance (ro_currency Q)) rt"
      "execute_blocks Q blocks (runtime_genesis balances (testnet_genesis code root_key accounts)) = Some rt"
    using execute_blocks_ok [OF testnet_genesis_inv [OF assms]] by blast
  then show ?thesis
    using runtime_inv_difficulty [OF rt(1)] by (auto simp: runtime_inv_def rewards_inv_def)
qed

text \<open>
  A block pays the account its digest names the reward in force at its end, and changes no other
  balance.
\<close>

lemma block_pays_digest_author:
  assumes "runtime_inv (minimum_balance (ro_currency Q)) rt" and "currency (ro_currency Q)"
    and "digest_author (ro_decode_account Q) (bl_logs b) = Some a"
  shows "\<exists>rt' r. execute_block Q b rt = Some rt' \<and> rw_reward (rt_rewards rt') = Some r
    \<and> (uint (free_balance (ro_currency Q) (rt_balances rt) a) + uint r < 2 ^ 128 \<longrightarrow>
        uint (free_balance (ro_currency Q) (rt_balances rt') a)
          = uint (free_balance (ro_currency Q) (rt_balances rt) a) + uint r)
    \<and> (\<forall>other. other \<noteq> a \<longrightarrow> free_balance (ro_currency Q) (rt_balances rt') other
          = free_balance (ro_currency Q) (rt_balances rt) other)"
proof -
  obtain rt' where rt': "execute_block Q b rt = Some rt'"
      "runtime_inv (minimum_balance (ro_currency Q)) rt'"
      "rt_balances rt' = deposit_creating (ro_currency Q) a (the (rw_reward (rt_rewards rt'))) (rt_balances rt)"
    using execute_block_ok [OF assms(1), of b] assms(3) by auto
  then obtain r where r: "rw_reward (rt_rewards rt') = Some r" "minimum_balance (ro_currency Q) \<le> r"
    by (auto simp: runtime_inv_def rewards_inv_def)
  show ?thesis
    using rt'(1) r(1) currency.deposit_uint [OF assms(2) r(2)] currency.deposit_others [OF assms(2)]
    by (intro exI [of _ rt'] exI [of _ r]) (simp add: rt'(3) r(1))
qed

lemma ref_runtime_inv: "runtime_inv (minimum_balance (ro_currency ref_runtime_ops)) ref_genesis"
  unfolding ref_genesis_def ref_minimum_balance by (rule testnet_genesis_inv) (simp add: word_le_def)

text \<open>
  No call sets the counter of the storage pallet, so on every chain \<open>cause_error\<close> keeps failing
  with \<open>NoneValue\<close> for every signer.
\<close>

lemma dispatch_something:
  "something (rt_things rt) = None \<Longrightarrow> something (rt_things (dispatch Q call rt)) = None"
  by (cases "(Q, call, rt)" rule: dispatch.cases)
    (auto split: sum.split dest: storage_dispatch_something)

lemma end_block_things [simp]: "rt_things (end_block Q rt) = rt_things rt"
  by (simp add: end_block_def split: prod.split)

lemma execute_blocks_something:
  "execute_blocks Q blocks rt = Some rt' \<Longrightarrow> something (rt_things rt) = None \<Longrightarrow>
   something (rt_things rt') = None"
proof (induction blocks arbitrary: rt)
  case Nil
  then show ?case by simp
next
  case (Cons b blocks)
  have fold: "something (rt_things (fold (dispatch Q) calls r)) = None"
    if "something (rt_things r) = None" for calls r
    using that by (induction calls arbitrary: r) (simp_all add: dispatch_something)
  obtain rt1 where rt1: "execute_block Q b rt = Some rt1" "execute_blocks Q blocks rt1 = Some rt'"
    using Cons.prems(1) by (auto simp: bind_eq_Some_conv)
  have "something (rt_things rt1) = None"
    using rt1(1) Cons.prems(2)
    by (auto simp: execute_block_def begin_block_def Let_def bind_eq_Some_conv fold)
  then show ?case
    by (rule Cons.IH [OF rt1(2)])
qed

theorem counter_never_set:
  assumes "execute_blocks Q blocks (runtime_genesis balances config) = Some rt"
    and "signer_of (ro_origin Q) origin = Some who"
  shows "storage_dispatch (ro_origin Q) origin Cause_Error (rt_things rt) = Inl (Module_Error NoneValue)"
proof -
  have "something (rt_things rt) = None"
    using execute_blocks_something [OF assms(1)] by (simp add: runtime_genesis_def thing_storage_empty_def)
  then show ?thesis
    using cause_error_cases [OF assms(2)] by simp
qed

theorem counter_never_set_witness:
  "storage_dispatch raw_origin_ops (Signed (3 :: nat)) Cause_Error (rt_things ref_genesis) = Inl (Module_Error NoneValue)"
  using counter_never_set [of ref_runtime_ops "[]" "\<lambda>entries a. 0" "testnet_genesis [] 0 []" ref_genesis "Signed 3"]
  by (simp add: ref_genesis_def ref_runtime_ops_def)

end
