(* ===== verification/Node.thy ===== *)
theory Node
  imports Mining Runtime
begin

text \<open>
  How a node is set up, as far as the source decides it: the chain specifications
  (\<open>node/src/chain_spec.rs\<close>) and their choice (\<open>load_spec\<close> of \<open>node/src/command.rs\<close>), the
  difficulty the algorithm asks the runtime for (\<open>TREXAlgo::difficulty\<close>), and the inherent data provider
  of \<open>primitives/consensus/trex_provider\<close>.
\<close>

section \<open>Chain specifications\<close>

datatype chain_type = Development | Local

datatype json = JNumber int | JString string

record 'a chain_spec =
  cs_name :: string
  cs_id :: string
  cs_type :: chain_type
  cs_genesis :: "'a genesis_config option"       \<comment> \<open>what the constructor returns, \<open>None\<close>: it panics\<close>
  cs_boot_nodes :: "string list"
  cs_protocol_id :: "string option"
  cs_properties :: "(string \<times> json) list"

definition trex_properties :: "(string \<times> json) list" where
  "trex_properties =
     [(''ss58Format'', JNumber 16), (''tokenDecimals'', JNumber 12), (''tokenSymbol'', JString ''TREXD'')]"

definition dev_config ::
  "('p, 'a, 'z) account_ops_scheme \<Rightarrow> bytes option \<Rightarrow> string + 'a chain_spec" where
  "dev_config K wasm =
     (case wasm of
        None \<Rightarrow> Inl ''Development wasm not available''
      | Some wasm_binary \<Rightarrow>
          Inr \<lparr>cs_name = ''Development'', cs_id = ''dev'', cs_type = Development,
               cs_genesis = dev_genesis K wasm_binary, cs_boot_nodes = [],
               cs_protocol_id = Some ''trexdev'', cs_properties = trex_properties\<rparr>)"

definition local_testnet_config ::
  "('p, 'a, 'z) account_ops_scheme \<Rightarrow> bytes option \<Rightarrow> string + 'a chain_spec" where
  "local_testnet_config K wasm =
     (case wasm of
        None \<Rightarrow> Inl ''Development wasm not available''
      | Some wasm_binary \<Rightarrow>
          Inr \<lparr>cs_name = ''Local Testnet'', cs_id = ''local_testnet'', cs_type = Local,
               cs_genesis = do {
                 sudo \<leftarrow> account_id_from_seed K ''Alice'';
                 accounts \<leftarrow> those (map (account_id_from_seed K)
                   [''Alice'', ''Bob'', ''Charlie'', ''Dave'', ''Eve'', ''Ferdie'', ''Alice//stash'',
                    ''Bob//stash'', ''Charlie//stash'', ''Dave//stash'', ''Eve//stash'', ''Ferdie//stash'']);
                 Some (testnet_genesis wasm_binary sudo accounts) },
               cs_boot_nodes = [], cs_protocol_id = Some ''trexlocal'', cs_properties = trex_properties\<rparr>)"

definition cloud_testnet_config :: "(bytes \<Rightarrow> string + 'a chain_spec) \<Rightarrow> bytes \<Rightarrow> 'a chain_spec option" where
  "cloud_testnet_config from_json_bytes config_json =
     (case from_json_bytes config_json of Inr spec \<Rightarrow> Some spec | Inl e \<Rightarrow> None)"

text \<open>
  \<open>cloud\<close> is \<open>cloud_testnet_config\<close>, the parsed \<open>res/testnet2022/config.json\<close>, whose \<open>expect\<close> panics when
  it does not parse; \<open>from_json\<close> reads a file.
\<close>

definition load_spec ::
  "('p, 'a, 'z) account_ops_scheme \<Rightarrow> bytes option \<Rightarrow> 'a chain_spec option \<Rightarrow>
     (string \<Rightarrow> string + 'a chain_spec) \<Rightarrow> string \<Rightarrow> (string + 'a chain_spec) option" where
  "load_spec K wasm cloud from_json name =
     (if name = ''dev'' then Some (dev_config K wasm)
      else if name = '''' \<or> name = ''local'' then Some (local_testnet_config K wasm)
      else if name = ''testnet'' then map_option Inr cloud
      else Some (from_json name))"

section \<open>RPC methods\<close>

text \<open>\<open>node/src/rpc.rs\<close>; \<open>merge\<close> is \<open>RpcModule::merge\<close>, which fails on a method that is registered already.\<close>

record ('c, 'p) full_deps =
  fd_client :: 'c
  fd_pool :: 'p
  fd_deny_unsafe :: bool

datatype ('c, 'p) rpc_module =
    System 'c 'p bool
  | Transaction_Payment 'c
  | Diff_Adjustment 'c
  | Sum_Storage 'c

definition create_full ::
  "(('c, 'p) rpc_module \<Rightarrow> 'm \<Rightarrow> 'e + 'm) \<Rightarrow> 'm \<Rightarrow> ('c, 'p) full_deps \<Rightarrow> 'e + 'm" where
  "create_full merge rpc deps =
     (let client = fd_client deps; pool = fd_pool deps; deny_unsafe = fd_deny_unsafe deps
      in bind_result (merge (System client pool deny_unsafe) rpc) (\<lambda>rpc.
         bind_result (merge (Transaction_Payment client) rpc) (\<lambda>rpc.
         bind_result (merge (Diff_Adjustment client) rpc) (\<lambda>rpc.
         bind_result (merge (Sum_Storage client) rpc) (\<lambda>rpc. Inr rpc)))))"

section \<open>The difficulty of the algorithm\<close>

datatype pow_error = Environment string

definition trex_difficulty ::
  "('e \<Rightarrow> string) \<Rightarrow> ('h \<Rightarrow> 'e + u128) \<Rightarrow> 'h \<Rightarrow> pow_error + u128" where
  "trex_difficulty debug runtime_difficulty parent =
     (case runtime_difficulty parent of
        Inr d \<Rightarrow> Inr d
      | Inl err \<Rightarrow> Inl (Environment (''Fetching difficulty from runtime failed: '' @ debug err)))"

section \<open>Inherent data\<close>

definition INHERENT_IDENTIFIER :: string where "INHERENT_IDENTIFIER = ''trexdev0''"

record inherent_provider =
  custom_value :: string

definition from_default_value :: inherent_provider where
  "from_default_value = \<lparr>custom_value = ''hello''\<rparr>"

text \<open>\<open>put\<close> is \<open>InherentData::put_data\<close>, which fails on an identifier that is taken.\<close>

definition provide_inherent_data ::
  "(string \<Rightarrow> string \<Rightarrow> 'd \<Rightarrow> 'e + 'd) \<Rightarrow> inherent_provider \<Rightarrow> 'd \<Rightarrow> 'e + 'd" where
  "provide_inherent_data put self inherent_data = put INHERENT_IDENTIFIER (custom_value self) inherent_data"

definition try_handle_error :: "string \<Rightarrow> bytes \<Rightarrow> ('e + unit) option" where
  "try_handle_error identifier err = None"

section \<open>Lemmas\<close>

lemma digest_author_item:
  "decode item = Some a \<Longrightarrow> digest_author decode (Pre_Runtime POW_ENGINE_ID item # rest) = Some a"
  by (simp add: digest_author_def as_pre_runtime_def)

text \<open>The chain specifications announce another address format than the runtime has.\<close>

lemma ss58_formats_differ: "(''ss58Format'', JNumber n) \<in> set trex_properties \<Longrightarrow> n \<noteq> uint SS58Prefix"
  by (simp add: trex_properties_def SS58Prefix_def)

text \<open>Every network the node builds itself starts from the genesis of a test network.\<close>

lemma testnet_genesis_fields:
  "testnet_genesis wasm sudo accounts =
     testnet_genesis wasm (the (gc_sudo_key (testnet_genesis wasm sudo accounts)))
       (map fst (gc_balances (testnet_genesis wasm sudo accounts)))"
  by (simp add: testnet_genesis_def o_def)

lemma load_spec_genesis:
  assumes "load_spec K (Some wasm) cloud from_json name = Some (Inr spec)"
    and "name \<in> {''dev'', '''', ''local''}" and "cs_genesis spec = Some config"
  shows "config = testnet_genesis wasm (the (gc_sudo_key config)) (map fst (gc_balances config))"
  using assms
  by (auto simp: load_spec_def dev_config_def local_testnet_config_def dev_genesis_def bind_eq_Some_conv
      split: if_splits intro: testnet_genesis_fields)

end
