(* ===== verification/Cli.thy ===== *)
theory Cli
  imports Prelude
begin

text \<open>
  The command line of the node, \<open>node/src/cli.rs\<close>. The commands of Substrate's own tools are opaque: a
  subcommand carries what the argument parser made of it, of the type \<open>'c\<close>. The enum has \<open>TryRuntime\<close>
  with a command under the feature \<open>try-runtime\<close> and without one otherwise; here it always carries one,
  which is not looked at without the feature.
\<close>

datatype 'c bench_cmd =
    Bench_Pallet 'c
  | Bench_Block 'c
  | Bench_Storage 'c
  | Bench_Overhead 'c
  | Bench_Machine 'c

datatype 'c subcommand =
    Key 'c
  | Build_Spec 'c
  | Check_Block 'c
  | Export_Blocks 'c
  | Export_State 'c
  | Import_Blocks 'c
  | Purge_Chain 'c
  | Revert 'c
  | Benchmark "'c bench_cmd"
  | Try_Runtime 'c
  | Chain_Info 'c

record 'c cli =
  cl_subcommand :: "'c subcommand option"
  cl_run :: 'c
  cl_author :: "string option"
  cl_cpus :: "u8 option"

end
