(* ===== verification/Service.thy ===== *)
theory Service
  imports Mining Cli
begin

text \<open>
  Starting the services of a node: \<open>new_partial\<close> and \<open>new_full\<close> of \<open>node/src/service.rs\<close>, with
  \<open>DistBlockImport::new\<close> of \<open>distributed.rs\<close>. What the start-up calls of Substrate, and the tasks and
  threads it spawns, are steps it records; a step that can fail does so as the environment says, and
  \<open>?\<close> ends the start-up there. The atomic flag \<open>found\<close> lives in a store, so that the block imports and
  the mining thread can share it.
\<close>

section \<open>Steps\<close>

record dist_block_import =
  di_found :: nat                          \<comment> \<open>where the flag lives\<close>

record pow_block_import =
  pi_inner :: dist_block_import
  pi_check_inherents_after :: nat

text \<open>What the node hands to a command of Substrate's.\<close>

datatype component =
    Whole_Cli | Config | Chain_Spec | Network_Config | Database_Config | Client | Backend
  | Import_Queue pow_block_import | Db | Storage_Backend | Inherent_Data | Extrinsic_Builder
  | Reference_Hardware

datatype 'c service_step =
    New_Telemetry_Worker nat "string list"
  | New_Full_Parts bool                    \<comment> \<open>with a telemetry handle?\<close>
  | Spawn_Telemetry
  | New_Pool bool                          \<comment> \<open>for an authority?\<close>
  | New_Import_Queue pow_block_import
  | Build_Network pow_block_import         \<comment> \<open>with the import queue of this block import\<close>
  | Build_Offchain_Workers
  | Decode_Author "string option"
  | New_Proposer bool
  | Start_Mining_Worker pow_block_import "bytes option" u64 u64
  | Spawn_Pow_Worker
  | Spawn_Mining_Thread nat "string + bytes" "u8 option"
  | Spawn_Tasks
  | Start_Network
  | New_Task_Manager
  | Inherent_Benchmark_Data
  | Run_Command "'c subcommand" "component list"

record 'c service =
  sv_steps :: "'c service_step list"
  sv_flags :: "bool list"

definition service_empty :: "'c service" where
  "service_empty = \<lparr>sv_steps = [], sv_flags = []\<rparr>"

text \<open>\<open>fails\<close> tells what the calls that return a \<open>Result\<close> return; \<open>decode_author\<close> is the node's own.\<close>

record ('k, 'c) node_ops = "'k author_ops" +
  fails :: "'c service_step \<Rightarrow> string option"
  encode_key :: "'k \<Rightarrow> bytes"

fun fallible :: "'c service_step \<Rightarrow> bool" where
  "fallible (New_Telemetry_Worker _ _) = True"
| "fallible (New_Full_Parts _) = True"
| "fallible (New_Import_Queue _) = True"
| "fallible (Build_Network _) = True"
| "fallible Spawn_Tasks = True"
| "fallible New_Task_Manager = True"
| "fallible Inherent_Benchmark_Data = True"
| "fallible (Run_Command _ _) = True"
| "fallible _ = False"

definition step_error :: "('k, 'c, 'z) node_ops_scheme \<Rightarrow> 'c service_step \<Rightarrow> string option" where
  "step_error A s =
     (case s of
        Decode_Author author \<Rightarrow> (case decode_author A author of Inl e \<Rightarrow> Some e | Inr k \<Rightarrow> None)
      | _ \<Rightarrow> if fallible s then fails A s else None)"

section \<open>Start-up code\<close>

type_synonym ('c, 'a) startup = "'c service \<Rightarrow> 'c service \<times> (string + 'a)"

definition return_st :: "'a \<Rightarrow> ('c, 'a) startup" where
  "return_st x st = (st, Inr x)"

definition bind_st :: "('c, 'a) startup \<Rightarrow> ('a \<Rightarrow> ('c, 'b) startup) \<Rightarrow> ('c, 'b) startup" where
  "bind_st m f st = (case m st of (st, Inl e) \<Rightarrow> (st, Inl e) | (st, Inr x) \<Rightarrow> f x st)"

definition then_st :: "('c, 'a) startup \<Rightarrow> ('c, 'b) startup \<Rightarrow> ('c, 'b) startup" where
  "then_st m m' = bind_st m (\<lambda>_. m')"

definition perform :: "('k, 'c, 'z) node_ops_scheme \<Rightarrow> 'c service_step \<Rightarrow> ('c, unit) startup" where
  "perform A s st =
     (st\<lparr>sv_steps := sv_steps st @ [s]\<rparr>, case step_error A s of Some e \<Rightarrow> Inl e | None \<Rightarrow> Inr ())"

definition perform_when ::
  "('k, 'c, 'z) node_ops_scheme \<Rightarrow> bool \<Rightarrow> 'c service_step \<Rightarrow> ('c, unit) startup" where
  "perform_when A b s = (if b then perform A s else return_st ())"

text \<open>\<open>Arc::new(AtomicBool::new(b))\<close>.\<close>

definition new_atomic :: "bool \<Rightarrow> ('c, nat) startup" where
  "new_atomic b st = (st\<lparr>sv_flags := sv_flags st @ [b]\<rparr>, Inr (length (sv_flags st)))"

definition author_key :: "('k, 'c, 'z) node_ops_scheme \<Rightarrow> string option \<Rightarrow> ('c, 'k) startup" where
  "author_key A author = then_st (perform A (Decode_Author author)) (\<lambda>st. (st, decode_author A author))"

section \<open>\<open>new_partial\<close>\<close>

record config =
  cf_role_is_full :: bool
  cf_is_authority :: bool
  cf_telemetry_endpoints :: "string list option"
  cf_offchain_worker :: bool
  cf_peer_id :: "string + bytes"           \<comment> \<open>of the network's node key\<close>

definition new_dist_block_import :: "nat \<Rightarrow> dist_block_import" where
  "new_dist_block_import found = \<lparr>di_found = found\<rparr>"

text \<open>\<open>clone\<close> shares the flag.\<close>

definition clone_dist_block_import :: "dist_block_import \<Rightarrow> dist_block_import" where
  "clone_dist_block_import self = \<lparr>di_found = di_found self\<rparr>"

definition clone_pow_block_import :: "pow_block_import \<Rightarrow> pow_block_import" where
  "clone_pow_block_import self = self\<lparr>pi_inner := clone_dist_block_import (pi_inner self)\<rparr>"

record partial_components =
  pc_import_queue :: pow_block_import
  pc_pow_block_import :: pow_block_import
  pc_telemetry :: bool
  pc_found :: nat

definition has_telemetry :: "config \<Rightarrow> bool" where
  "has_telemetry config = (case cf_telemetry_endpoints config of Some x \<Rightarrow> x \<noteq> [] | None \<Rightarrow> False)"

definition new_partial ::
  "('k, 'c, 'z) node_ops_scheme \<Rightarrow> config \<Rightarrow> ('c, partial_components) startup" where
  "new_partial A config =
     (let telemetry = has_telemetry config
      in then_st (perform_when A telemetry (New_Telemetry_Worker 16 (the (cf_telemetry_endpoints config))))
        (then_st (perform A (New_Full_Parts telemetry))
        (then_st (perform_when A telemetry Spawn_Telemetry)
        (then_st (perform A (New_Pool (cf_is_authority config)))
        (bind_st (new_atomic False) (\<lambda>found.
           let pow_block_import = \<lparr>pi_inner = new_dist_block_import found, pi_check_inherents_after = 0\<rparr>
           in then_st (perform A (New_Import_Queue (clone_pow_block_import pow_block_import)))
             (return_st \<lparr>pc_import_queue = clone_pow_block_import pow_block_import, pc_pow_block_import = pow_block_import,
                 pc_telemetry = telemetry, pc_found = found\<rparr>)))))))"

section \<open>\<open>new_full\<close>\<close>

definition start_mining ::
  "('k, 'c, 'z) node_ops_scheme \<Rightarrow> config \<Rightarrow> partial_components \<Rightarrow> 'k \<Rightarrow> u8 option \<Rightarrow> ('c, unit) startup" where
  "start_mining A config parts author cpus =
     then_st (perform A (Start_Mining_Worker (pc_pow_block_import parts) (Some (encode_key A author))
         MINING_WORKER_TIMEOUT MINING_WORKER_BUILD_TIME))
    (then_st (perform A Spawn_Pow_Worker)
       (perform A (Spawn_Mining_Thread (pc_found parts) (cf_peer_id config) cpus)))"

definition new_full ::
  "('k, 'c, 'z) node_ops_scheme \<Rightarrow> config \<Rightarrow> bool \<Rightarrow> string option \<Rightarrow> u8 option \<Rightarrow> ('c, unit) startup" where
  "new_full A config mining author cpus =
     bind_st (new_partial A config) (\<lambda>parts.
       then_st (perform A (Build_Network (pc_import_queue parts)))
      (then_st (perform_when A (cf_offchain_worker config) Build_Offchain_Workers)
      (then_st (if cf_is_authority config
                then bind_st (author_key A author) (\<lambda>author.
                       then_st (perform A (New_Proposer (pc_telemetry parts)))
                         (if mining then start_mining A config parts author cpus else return_st ()))
                else return_st ())
      (then_st (perform A Spawn_Tasks)
         (perform A Start_Network)))))"

section \<open>The plan of a start-up\<close>

text \<open>
  The specification: a start-up is a sequence of steps, known in advance, that runs up to the first
  error.
\<close>

fun run_plan :: "('k, 'c, 'z) node_ops_scheme \<Rightarrow> 'c service_step list \<Rightarrow> 'c service_step list \<times> (string + unit)" where
  "run_plan A [] = ([], Inr ())"
| "run_plan A (s # ss) =
     (case step_error A s of
        Some e \<Rightarrow> ([s], Inl e)
      | None \<Rightarrow> (let (exec, r) = run_plan A ss in (s # exec, r)))"

definition import_at :: "nat \<Rightarrow> pow_block_import" where
  "import_at found = \<lparr>pi_inner = \<lparr>di_found = found\<rparr>, pi_check_inherents_after = 0\<rparr>"

definition partial_plan :: "config \<Rightarrow> nat \<Rightarrow> 'c service_step list" where
  "partial_plan config found =
     (if has_telemetry config then [New_Telemetry_Worker 16 (the (cf_telemetry_endpoints config))] else [])
     @ [New_Full_Parts (has_telemetry config)]
     @ (if has_telemetry config then [Spawn_Telemetry] else [])
     @ [New_Pool (cf_is_authority config), New_Import_Queue (import_at found)]"

definition author_plan ::
  "('k, 'c, 'z) node_ops_scheme \<Rightarrow> config \<Rightarrow> bool \<Rightarrow> string option \<Rightarrow> u8 option \<Rightarrow> nat \<Rightarrow> 'c service_step list" where
  "author_plan A config mining author cpus found =
     (if cf_is_authority config then
        [Decode_Author author, New_Proposer (has_telemetry config)]
        @ (if mining then
             [Start_Mining_Worker (import_at found)
                (case decode_author A author of Inr k \<Rightarrow> Some (encode_key A k) | Inl e \<Rightarrow> None) 10 10,
              Spawn_Pow_Worker, Spawn_Mining_Thread found (cf_peer_id config) cpus]
           else [])
      else [])"

definition full_plan ::
  "('k, 'c, 'z) node_ops_scheme \<Rightarrow> config \<Rightarrow> bool \<Rightarrow> string option \<Rightarrow> u8 option \<Rightarrow> nat \<Rightarrow> 'c service_step list" where
  "full_plan A config mining author cpus found =
     partial_plan config found @ [Build_Network (import_at found)]
     @ (if cf_offchain_worker config then [Build_Offchain_Workers] else [])
     @ author_plan A config mining author cpus found
     @ [Spawn_Tasks, Start_Network]"

text \<open>\<open>m\<close> runs the steps \<open>ss\<close> up to the first error and then, if there is none, ends as \<open>k\<close> does.\<close>

definition follows ::
  "('k, 'c, 'z) node_ops_scheme \<Rightarrow> ('c, 'a) startup \<Rightarrow> 'c service \<Rightarrow> 'c service_step list \<Rightarrow> 'a \<Rightarrow> bool list \<Rightarrow> bool" where
  "follows A m st ss x flags \<longleftrightarrow>
     (let (exec, r) = run_plan A ss; (st', r') = m st
      in sv_steps st' = sv_steps st @ exec
       \<and> (case r of Inl e \<Rightarrow> r' = Inl e | Inr u \<Rightarrow> r' = Inr x \<and> sv_flags st' = sv_flags st @ flags))"

lemma run_plan_append:
  "run_plan A (ss @ ts) =
     (case run_plan A ss of
        (exec, Inl e) \<Rightarrow> (exec, Inl e)
      | (exec, Inr u) \<Rightarrow> (let (exec', r) = run_plan A ts in (exec @ exec', r)))"
  by (induction ss) (auto simp: Let_def split: option.split prod.split sum.split)

lemma follows_return: "follows A (return_st x) st [] x []"
  by (simp add: follows_def return_st_def)

lemma follows_perform: "follows A (perform A s) st [s] () []"
  by (simp add: follows_def perform_def split: option.split)

lemma follows_perform_when: "follows A (perform_when A b s) st (if b then [s] else []) () []"
  by (simp add: perform_when_def follows_perform follows_return [of A "()", simplified])

lemma follows_atomic: "follows A (new_atomic b) st [] (length (sv_flags st)) [b]"
  by (simp add: follows_def new_atomic_def)

lemma follows_bind:
  assumes m: "follows A m st ss x flags"
    and f: "\<And>st'. sv_flags st' = sv_flags st @ flags \<Longrightarrow> follows A (f x) st' ts y flags'"
  shows "follows A (bind_st m f) st (ss @ ts) y (flags @ flags')"
proof -
  obtain exec r where plan: "run_plan A ss = (exec, r)"
    by (cases "run_plan A ss")
  obtain st' r' where run: "m st = (st', r')"
    by (cases "m st")
  have st': "sv_steps st' = sv_steps st @ exec"
    using m plan run by (simp add: follows_def)
  show ?thesis
  proof (cases r)
    case (Inl e)
    then show ?thesis
      using m plan run by (simp add: follows_def run_plan_append bind_st_def)
  next
    case (Inr u)
    then have "r' = Inr x" "sv_flags st' = sv_flags st @ flags"
      using m plan run by (simp_all add: follows_def)
    then show ?thesis
      using f [of st'] plan run st' Inr
      by (auto simp: follows_def run_plan_append bind_st_def split: prod.splits sum.splits)
  qed
qed

lemma follows_then:
  assumes "follows A m st ss () []"
    and "\<And>st'. sv_flags st' = sv_flags st \<Longrightarrow> follows A m' st' ts y flags"
  shows "follows A (then_st m m') st (ss @ ts) y flags"
  using follows_bind [OF assms(1), of "\<lambda>_. m'" ts y flags] assms(2) by (simp add: then_st_def)

lemma follows_then_perform:
  "(\<And>st'. sv_flags st' = sv_flags st \<Longrightarrow> follows A m' st' ts y flags) \<Longrightarrow>
   follows A (then_st (perform A s) m') st (s # ts) y flags"
  by (drule follows_then [where m = "perform A s" and ss = "[s]", OF follows_perform]) simp

lemmas follows_then_when = follows_then [OF follows_perform_when]

lemma follows_bind_atomic:
  assumes "\<And>st'. sv_flags st' = sv_flags st @ [b] \<Longrightarrow> follows A (f (length (sv_flags st))) st' ts y flags"
  shows "follows A (bind_st (new_atomic b) f) st ts y (b # flags)"
  using follows_bind [where f = f and x = "length (sv_flags st)", OF follows_atomic assms] by simp

lemma follows_bind_author:
  assumes "\<And>k st'. decode_author A author = Inr k \<Longrightarrow> sv_flags st' = sv_flags st \<Longrightarrow> follows A (f k) st' ss y flags"
  shows "follows A (bind_st (author_key A author) f) st (Decode_Author author # ss) y flags"
proof (cases "decode_author A author")
  case (Inl e)
  then show ?thesis
    by (simp add: follows_def bind_st_def author_key_def then_st_def perform_def step_error_def)
next
  case (Inr k)
  have "follows A (author_key A author) st [Decode_Author author] k []"
    using Inr by (simp add: follows_def bind_st_def author_key_def then_st_def perform_def step_error_def)
  from follows_bind [where f = f, OF this] assms [OF Inr] show ?thesis
    by simp
qed

lemmas follows_intros = follows_then_perform follows_then_when follows_bind_atomic follows_perform
  follows_return

lemma new_partial_follows:
  assumes "length (sv_flags st) = found"
  shows "follows A (new_partial A config) st (partial_plan config found)
     \<lparr>pc_import_queue = import_at found, pc_pow_block_import = import_at found,
      pc_telemetry = has_telemetry config, pc_found = found\<rparr> [False]"
  unfolding new_partial_def Let_def partial_plan_def new_dist_block_import_def clone_pow_block_import_def
    clone_dist_block_import_def append_Cons append_Nil
  by ((rule follows_intros)+, unfold import_at_def, simp add: assms follows_return follows_intros)

lemma author_follows:
  assumes "pc_pow_block_import parts = import_at found" and "pc_found parts = found"
    and "pc_telemetry parts = has_telemetry config"
  shows "follows A
     (if cf_is_authority config
      then bind_st (author_key A author) (\<lambda>author.
             then_st (perform A (New_Proposer (pc_telemetry parts)))
               (if mining then start_mining A config parts author cpus else return_st ()))
      else return_st ()) st (author_plan A config mining author cpus found) () []"
proof -
  let ?rest = "\<lambda>mine. New_Proposer (has_telemetry config) #
      (if mining then [Start_Mining_Worker (import_at found) mine 10 10, Spawn_Pow_Worker,
         Spawn_Mining_Thread found (cf_peer_id config) cpus] else [])"
  have *: "follows A (then_st (perform A (New_Proposer (has_telemetry config)))
      (if mining then start_mining A config parts k cpus else return_st ())) st'
      (?rest (Some (encode_key A k))) () []" for k st'
    by (rule follows_then_perform)
      (simp add: assms start_mining_def MINING_WORKER_TIMEOUT_def MINING_WORKER_BUILD_TIME_def follows_intros)
  have "follows A (bind_st (author_key A author) (\<lambda>author.
      then_st (perform A (New_Proposer (has_telemetry config)))
        (if mining then start_mining A config parts author cpus else return_st ()))) st
      (Decode_Author author #
         ?rest (case decode_author A author of Inr k \<Rightarrow> Some (encode_key A k) | Inl e \<Rightarrow> None)) () []"
    by (rule follows_bind_author) (simp only: * sum.case)
  then show ?thesis
    by (simp add: author_plan_def follows_return assms(3) del: if_split)
qed

lemma new_full_follows:
  assumes "length (sv_flags st) = found"
  shows "follows A (new_full A config mining author cpus) st (full_plan A config mining author cpus found) () [False]"
proof -
  let ?parts = "\<lparr>pc_import_queue = import_at found, pc_pow_block_import = import_at found,
      pc_telemetry = has_telemetry config, pc_found = found\<rparr>"
  have *: "follows A (then_st (perform A (Build_Network (pc_import_queue ?parts)))
      (then_st (perform_when A (cf_offchain_worker config) Build_Offchain_Workers)
      (then_st (if cf_is_authority config
                then bind_st (author_key A author) (\<lambda>author.
                       then_st (perform A (New_Proposer (pc_telemetry ?parts)))
                         (if mining then start_mining A config ?parts author cpus else return_st ()))
                else return_st ())
      (then_st (perform A Spawn_Tasks) (perform A Start_Network))))) st'
      ([Build_Network (import_at found)]
       @ (if cf_offchain_worker config then [Build_Offchain_Workers] else [])
       @ author_plan A config mining author cpus found
       @ [Spawn_Tasks, Start_Network]) () []" for st'
    unfolding partial_components.simps append_Cons append_Nil
    by (rule follows_then_perform, rule follows_then_when, rule follows_then,
        rule author_follows [where parts = ?parts, unfolded partial_components.simps])
      (simp_all add: follows_intros)
  have "follows A (new_full A config mining author cpus) st (full_plan A config mining author cpus found) () ([False] @ [])"
    unfolding new_full_def full_plan_def
    by (rule follows_bind, rule new_partial_follows [OF assms], rule *)
  then show ?thesis by simp
qed

text \<open>What a plan does: it runs the steps before the first error, and the failing one.\<close>

lemma run_plan_all: "\<forall>s \<in> set ss. step_error A s = None \<Longrightarrow> run_plan A ss = (ss, Inr ())"
  by (induction ss) auto

lemma run_plan_first:
  "\<forall>s \<in> set ok. step_error A s = None \<Longrightarrow> step_error A s = Some e \<Longrightarrow>
   run_plan A (ok @ s # rest) = (ok @ [s], Inl e)"
  by (induction ok) auto

lemma run_plan_cases:
  obtains (finishes) "run_plan A ss = (ss, Inr ())" and "\<forall>s \<in> set ss. step_error A s = None"
  | (stops) ok s rest e where "ss = ok @ s # rest" and "run_plan A ss = (ok @ [s], Inl e)"
      and "step_error A s = Some e" and "\<forall>s \<in> set ok. step_error A s = None"
proof (cases "\<forall>s \<in> set ss. step_error A s = None")
  case True
  from finishes [OF run_plan_all [OF this] this] show ?thesis .
next
  case False
  then obtain ok s rest where ss: "ss = ok @ s # rest" and s: "step_error A s \<noteq> None"
    and ok: "\<forall>s \<in> set ok. \<not> step_error A s \<noteq> None"
    using split_list_first_prop [of ss "\<lambda>s. step_error A s \<noteq> None"] by blast
  then obtain e where "step_error A s = Some e"
    by blast
  with ss ok show ?thesis
    using stops run_plan_first by (metis not_None_eq)
qed

lemma run_plan_subset: "set (fst (run_plan A ss)) \<subseteq> set ss"
  by (induction ss) (auto split: option.split prod.split)

section \<open>What a start-up can do\<close>

text \<open>Code all of whose steps are of one kind, whatever happens.\<close>

definition keeps_to :: "('c service_step \<Rightarrow> bool) \<Rightarrow> ('c, 'a) startup \<Rightarrow> bool" where
  "keeps_to P m \<longleftrightarrow> (\<forall>st. \<exists>new. sv_steps (fst (m st)) = sv_steps st @ new \<and> (\<forall>s \<in> set new. P s))"

lemma keeps_to_return: "keeps_to P (return_st x)"
  by (simp add: keeps_to_def return_st_def)

lemma keeps_to_fail: "keeps_to P (\<lambda>st. (st, Inl e))"
  by (simp add: keeps_to_def)

lemma keeps_to_perform: "P s \<Longrightarrow> keeps_to P (perform A s)"
  by (simp add: keeps_to_def perform_def)

lemma keeps_to_bind:
  assumes m: "keeps_to P m" and f: "\<And>x. keeps_to P (f x)"
  shows "keeps_to P (bind_st m f)"
  unfolding keeps_to_def
proof
  fix st
  obtain st' r where run: "m st = (st', r)"
    by (cases "m st")
  obtain new where new: "sv_steps st' = sv_steps st @ new" "\<forall>s \<in> set new. P s"
    using m [unfolded keeps_to_def, rule_format, of st] run by auto
  show "\<exists>new. sv_steps (fst (bind_st m f st)) = sv_steps st @ new \<and> (\<forall>s \<in> set new. P s)"
  proof (cases r)
    case (Inl e)
    then show ?thesis
      using run new by (simp add: bind_st_def)
  next
    case (Inr x)
    obtain new' where "sv_steps (fst (f x st')) = sv_steps st' @ new'" "\<forall>s \<in> set new'. P s"
      using f [unfolded keeps_to_def, rule_format] by blast
    then show ?thesis
      using run new Inr by (intro exI [of _ "new @ new'"]) (auto simp: bind_st_def)
  qed
qed

lemma keeps_to_then: "keeps_to P m \<Longrightarrow> keeps_to P m' \<Longrightarrow> keeps_to P (then_st m m')"
  by (simp add: then_st_def keeps_to_bind)

lemma follows_steps:
  "follows A m st ss x flags \<Longrightarrow> sv_steps (fst (m st)) = sv_steps st @ fst (run_plan A ss)"
  by (cases "run_plan A ss"; cases "m st") (simp add: follows_def)

lemma follows_result:
  "follows A m st ss () flags \<Longrightarrow> snd (m st) = snd (run_plan A ss)"
  by (cases "run_plan A ss"; cases "m st") (auto simp: follows_def split: sum.splits)

lemma new_partial_keeps_to:
  assumes "\<And>found. \<forall>s \<in> set (partial_plan config found). P s"
  shows "keeps_to P (new_partial A config)"
  unfolding keeps_to_def
  using follows_steps [OF new_partial_follows [OF refl]] assms run_plan_subset by blast

lemmas keeps_to_intros = keeps_to_return keeps_to_fail keeps_to_perform keeps_to_bind keeps_to_then

end
