(* ===== verification/Command.thy ===== *)
theory Command
  imports Service
begin

text \<open>
  \<open>run\<close> of \<open>node/src/command.rs\<close>: what the node does for a command line. A runner comes from Substrate
  (\<open>create_runner\<close>, with the command whose parameters make up the configuration, or none for \<open>cli.run\<close>);
  a command of Substrate's is a step with the components it is given. Errors of all kinds are texts.
\<close>

record ('k, 'c) cli_ops = "('k, 'c) node_ops" +
  create_runner :: "'c subcommand option \<Rightarrow> string + config"
  runtime_benchmarks :: bool               \<comment> \<open>the features of the build\<close>
  try_runtime :: bool

definition fail_st :: "string \<Rightarrow> ('c, 'a) startup" where
  "fail_st e st = (st, Inl e)"

definition on_runner ::
  "('k, 'c, 'z) cli_ops_scheme \<Rightarrow> 'c subcommand option \<Rightarrow> (config \<Rightarrow> ('c, unit) startup) \<Rightarrow> ('c, unit) startup" where
  "on_runner A cmd f = (case create_runner A cmd of Inl e \<Rightarrow> fail_st e | Inr config \<Rightarrow> f config)"

text \<open>A command that gets components of \<open>new_partial\<close>.\<close>

definition on_partial ::
  "('k, 'c, 'z) cli_ops_scheme \<Rightarrow> 'c subcommand \<Rightarrow> (partial_components \<Rightarrow> component list) \<Rightarrow> ('c, unit) startup" where
  "on_partial A cmd components =
     on_runner A (Some cmd) (\<lambda>config.
       bind_st (new_partial A config) (\<lambda>parts. perform A (Run_Command cmd (components parts))))"

definition run_benchmark ::
  "('k, 'c, 'z) cli_ops_scheme \<Rightarrow> config \<Rightarrow> 'c bench_cmd \<Rightarrow> ('c, unit) startup" where
  "run_benchmark A config bench =
     (let cmd = Benchmark bench
      in case bench of
           Bench_Pallet c \<Rightarrow>
             if \<not> runtime_benchmarks A
             then fail_st ''Runtime benchmarking wasn't enabled when building the node. You can enable it with `--features runtime-benchmarks`.''
             else perform A (Run_Command cmd [Config])
         | Bench_Block c \<Rightarrow>
             then_st (new_partial A config) (perform A (Run_Command cmd [Client]))
         | Bench_Storage c \<Rightarrow>
             then_st (new_partial A config) (perform A (Run_Command cmd [Config, Client, Db, Storage_Backend]))
         | Bench_Overhead c \<Rightarrow>
             then_st (new_partial A config)
               (then_st (perform A Inherent_Benchmark_Data)
                 (perform A (Run_Command cmd [Config, Client, Inherent_Data, Extrinsic_Builder])))
         | Bench_Machine c \<Rightarrow> perform A (Run_Command cmd [Config, Reference_Hardware]))"

definition run_subcommand :: "('k, 'c, 'z) cli_ops_scheme \<Rightarrow> 'c subcommand \<Rightarrow> ('c, unit) startup" where
  "run_subcommand A cmd =
     (case cmd of
        Key c \<Rightarrow> perform A (Run_Command cmd [Whole_Cli])
      | Build_Spec c \<Rightarrow> on_runner A (Some cmd) (\<lambda>config. perform A (Run_Command cmd [Chain_Spec, Network_Config]))
      | Check_Block c \<Rightarrow> on_partial A cmd (\<lambda>parts. [Client, Import_Queue (pc_import_queue parts)])
      | Export_Blocks c \<Rightarrow> on_partial A cmd (\<lambda>parts. [Client, Database_Config])
      | Export_State c \<Rightarrow> on_partial A cmd (\<lambda>parts. [Client, Chain_Spec])
      | Import_Blocks c \<Rightarrow> on_partial A cmd (\<lambda>parts. [Client, Import_Queue (pc_import_queue parts)])
      | Purge_Chain c \<Rightarrow> on_runner A (Some cmd) (\<lambda>config. perform A (Run_Command cmd [Database_Config]))
      | Revert c \<Rightarrow> on_partial A cmd (\<lambda>parts. [Client, Backend])
      | Try_Runtime c \<Rightarrow>
          if try_runtime A then
            on_runner A (Some cmd) (\<lambda>config. then_st (perform A New_Task_Manager) (perform A (Run_Command cmd [Config])))
          else fail_st ''TryRuntime wasn't enabled when building the node. You can enable it with `--features try-runtime`.''
      | Benchmark bench \<Rightarrow> on_runner A (Some cmd) (\<lambda>config. run_benchmark A config bench)
      | Chain_Info c \<Rightarrow> on_runner A (Some cmd) (\<lambda>config. perform A (Run_Command cmd [Config])))"

definition run :: "('k, 'c, 'z) cli_ops_scheme \<Rightarrow> 'c cli \<Rightarrow> ('c, unit) startup" where
  "run A cli =
     (case cl_subcommand cli of
        Some cmd \<Rightarrow> run_subcommand A cmd
      | None \<Rightarrow> on_runner A None (\<lambda>config.
          if cf_role_is_full config then new_full A config False (cl_author cli) (cl_cpus cli)
          else new_full A config True (cl_author cli) (cl_cpus cli)))"

section \<open>Subcommands\<close>

text \<open>Steps that join the network or mine.\<close>

fun online :: "'c service_step \<Rightarrow> bool" where
  "online (Build_Network _) = True"
| "online Build_Offchain_Workers = True"
| "online (Start_Mining_Worker _ _ _ _) = True"
| "online Spawn_Pow_Worker = True"
| "online (Spawn_Mining_Thread _ _ _) = True"
| "online Spawn_Tasks = True"
| "online Start_Network = True"
| "online _ = False"

lemma new_partial_offline: "keeps_to (\<lambda>s. \<not> online s) (new_partial A config)"
  by (rule new_partial_keeps_to) (auto simp: partial_plan_def)

lemma on_runner_keeps_to:
  "(\<And>config. create_runner A cmd = Inr config \<Longrightarrow> keeps_to P (f config)) \<Longrightarrow> keeps_to P (on_runner A cmd f)"
  by (auto simp: on_runner_def fail_st_def [abs_def] keeps_to_fail split: sum.split)

lemma on_partial_offline: "keeps_to (\<lambda>s. \<not> online s) (on_partial A cmd components)"
  unfolding on_partial_def
  by (intro on_runner_keeps_to keeps_to_bind new_partial_offline keeps_to_perform) simp

lemma run_benchmark_offline: "keeps_to (\<lambda>s. \<not> online s) (run_benchmark A config bench)"
  by (cases bench)
    (auto simp: run_benchmark_def fail_st_def [abs_def] intro!: keeps_to_intros new_partial_offline)

lemma run_subcommand_offline: "keeps_to (\<lambda>s. \<not> online s) (run_subcommand A cmd)"
  by (cases cmd)
    (auto simp: run_subcommand_def fail_st_def [abs_def]
      intro!: keeps_to_intros on_runner_keeps_to on_partial_offline run_benchmark_offline)

end
