(* ===== verification/Extrinsic.thy ===== *)
theory Extrinsic
  imports Runtime
begin

text \<open>
  The version of the runtime (\<open>runtime/src/lib.rs\<close>), and the signed extrinsic that the benchmark command
  of the node builds (\<open>node/src/command_helper.rs\<close>). The client, eras, signatures and the encoding of a
  payload are Substrate's; what a runtime accepts is stated in the locale \<open>signed_extrinsics\<close>.
\<close>

section \<open>The version of the runtime\<close>

record 'api runtime_version =
  rv_spec_name :: string
  rv_impl_name :: string
  rv_authoring_version :: u32
  rv_spec_version :: u32
  rv_impl_version :: u32
  rv_apis :: 'api
  rv_transaction_version :: u32
  rv_state_version :: u8

text \<open>\<open>RUNTIME_API_VERSIONS\<close> is generated by \<open>impl_runtime_apis!\<close>.\<close>

definition VERSION :: "'api \<Rightarrow> 'api runtime_version" where
  "VERSION apis =
     \<lparr>rv_spec_name = ''TREX'', rv_impl_name = ''TREX'', rv_authoring_version = 1, rv_spec_version = 100,
      rv_impl_version = 1, rv_apis = apis, rv_transaction_version = 1, rv_state_version = 1\<rparr>"

record 'api native_version =
  nv_runtime_version :: "'api runtime_version"
  nv_can_author_with :: "u32 list"

definition native_version :: "'api \<Rightarrow> 'api native_version" where
  "native_version apis = \<lparr>nv_runtime_version = VERSION apis, nv_can_author_with = []\<rparr>"

section \<open>The benchmark extrinsic\<close>

text \<open>\<open>u32::checked_next_power_of_two\<close>.\<close>

definition checked_next_power_of_two :: "u32 \<Rightarrow> u32 option" where
  "checked_next_power_of_two x = List.find (\<lambda>p. x \<le> p) (map (\<lambda>i. 2 ^ i) [0..<32])"

definition era_period :: u64 where
  "era_period =
     ucast (case map_option (\<lambda>c. c div 2) (checked_next_power_of_two BlockHashCount) of
              Some period \<Rightarrow> period | None \<Rightarrow> 2)"

text \<open>The signed extensions with data; the other five are unit structs.\<close>

record 'era signed_extra =
  se_era :: 'era
  se_nonce :: u32
  se_tip :: u128

record 'h additional_signed =
  ad_spec_version :: u32
  ad_transaction_version :: u32
  ad_genesis_hash :: 'h
  ad_era_hash :: 'h

type_synonym ('call, 'era, 'h) signed_payload = "'call \<times> 'era signed_extra \<times> 'h additional_signed"

record ('call, 'era, 'k, 's) unchecked_extrinsic =
  xt_call :: 'call
  xt_signer :: 'k
  xt_signature :: 's
  xt_extra :: "'era signed_extra"

record 'h client_info =
  ci_block_hash :: "u32 \<Rightarrow> string + 'h option"
  ci_best_hash :: 'h
  ci_best_number :: u32

record ('call, 'era, 'h, 'p, 'k, 's) extrinsic_ops =
  mortal :: "u64 \<Rightarrow> u64 \<Rightarrow> 'era"
  encode_payload :: "('call, 'era, 'h) signed_payload \<Rightarrow> bytes"     \<comment> \<open>\<open>SignedPayload::using_encoded\<close>\<close>
  pair_sign :: "'p \<Rightarrow> bytes \<Rightarrow> 's"
  pair_public :: "'p \<Rightarrow> 'k"

definition create_benchmark_extrinsic ::
  "('call, 'era, 'h, 'p, 'k, 's, 'z) extrinsic_ops_scheme \<Rightarrow> 'h client_info \<Rightarrow> 'p \<Rightarrow> 'call \<Rightarrow> u32 \<Rightarrow>
     ('call, 'era, 'k, 's) unchecked_extrinsic option" where
  "create_benchmark_extrinsic Q client sender call nonce = do {
     genesis_hash \<leftarrow> (case ci_block_hash client 0 of Inr h \<Rightarrow> h | Inl e \<Rightarrow> None);
     let best_hash = ci_best_hash client;
     let best_block = ci_best_number client;
     let period = era_period;
     let extra = \<lparr>se_era = mortal Q period (ucast best_block), se_nonce = nonce, se_tip = 0\<rparr>;
     let raw_payload = (call, extra,
       \<lparr>ad_spec_version = rv_spec_version (VERSION ()),
        ad_transaction_version = rv_transaction_version (VERSION ()),
        ad_genesis_hash = genesis_hash, ad_era_hash = best_hash\<rparr>);
     let signature = pair_sign Q sender (encode_payload Q raw_payload);
     Some \<lparr>xt_call = call, xt_signer = pair_public Q sender, xt_signature = signature, xt_extra = extra\<rparr> }"

text \<open>\<open>remark\<close> of \<open>BenchmarkExtrinsicBuilder\<close>: a remark of no bytes, signed by Bob.\<close>

definition benchmark_remark ::
  "('call, 'era, 'h, 'p, 'k, 's, 'z) extrinsic_ops_scheme \<Rightarrow> (bytes \<Rightarrow> 'call) \<Rightarrow> 'p \<Rightarrow> 'h client_info \<Rightarrow> u32 \<Rightarrow>
     ('call, 'era, 'k, 's) unchecked_extrinsic option" where
  "benchmark_remark Q remark bob client nonce = create_benchmark_extrinsic Q client bob (remark []) nonce"

text \<open>\<open>put\<close> is \<open>InherentData::put_data\<close> with the timestamp inherent; \<open>show_error\<close> the rendering of its error.\<close>

definition inherent_benchmark_data ::
  "('e \<Rightarrow> string) \<Rightarrow> (u64 \<Rightarrow> 'd \<Rightarrow> 'e + 'd) \<Rightarrow> 'd \<Rightarrow> string + 'd" where
  "inherent_benchmark_data show_error put inherent_data =
     (case put 0 inherent_data of
        Inr d \<Rightarrow> Inr d
      | Inl e \<Rightarrow> Inl (''creating inherent data: '' @ show_error e))"

section \<open>What a runtime accepts\<close>

text \<open>
  The period is a power of two below \<open>BlockHashCount\<close>: the hash of the block an era begins at is known for
  as long as the era lasts.
\<close>

lemma era_period_2048: "era_period = 2 ^ 11"
  by (simp add: era_period_def checked_next_power_of_two_def BlockHashCount_def upt_rec word_le_nat_alt)

text \<open>
  A mortal era of a period from 4 to 4096 that is a power of two begins at the block it was made for, and at
  that same block for every block in the period. At block \<open>m\<close> a runtime knows the genesis hash and those
  of the last \<open>BlockHashCount\<close> blocks, and accepts a signature of the payload it puts together itself.
\<close>

locale signed_extrinsics =
  fixes Q :: "('call, 'era, 'h, 'p, 'k, 's, 'z) extrinsic_ops_scheme"
    and birth :: "'era \<Rightarrow> u64 \<Rightarrow> u64"
    and check :: "'k \<Rightarrow> bytes \<Rightarrow> 's \<Rightarrow> bool"
    and system_hash :: "(u64 \<Rightarrow> 'h) \<Rightarrow> u64 \<Rightarrow> u64 \<Rightarrow> 'h option"
    and accepted :: "(u64 \<Rightarrow> 'h) \<Rightarrow> u64 \<Rightarrow> ('call, 'era, 'k, 's) unchecked_extrinsic \<Rightarrow> bool"
  assumes birth_mortal: "2 \<le> j \<Longrightarrow> j \<le> 12 \<Longrightarrow> uint n \<le> uint m \<Longrightarrow> uint m < uint n + 2 ^ j \<Longrightarrow>
      birth (mortal Q (2 ^ j) n) m = n"
    and check_sign: "check (pair_public Q p) bs (pair_sign Q p bs)"
    and system_hash_genesis: "system_hash hashes m 0 = Some (hashes 0)"
    and system_hash_kept: "uint b < uint m \<Longrightarrow> uint m \<le> uint b + uint BlockHashCount \<Longrightarrow>
      system_hash hashes m b = Some (hashes b)"
    and accepted_signed:
      "system_hash hashes m 0 = Some g \<Longrightarrow> system_hash hashes m (birth (se_era (xt_extra xt)) m) = Some h \<Longrightarrow>
       check (xt_signer xt) (encode_payload Q (xt_call xt, xt_extra xt,
         \<lparr>ad_spec_version = rv_spec_version (VERSION ()),
          ad_transaction_version = rv_transaction_version (VERSION ()),
          ad_genesis_hash = g, ad_era_hash = h\<rparr>)) (xt_signature xt) \<Longrightarrow>
       accepted hashes m xt"
begin

lemma benchmark_accepted:
  assumes "ci_block_hash client 0 = Inr (Some (hashes 0))"
    and "ci_best_hash client = hashes (ucast (ci_best_number client))"
    and "uint (ci_best_number client) < uint m" and "uint m < uint (ci_best_number client) + 2048"
    and "create_benchmark_extrinsic Q client sender call nonce = Some xt"
  shows "accepted hashes m xt"
proof -
  let ?n = "ucast (ci_best_number client) :: u64"
  have n: "uint ?n = uint (ci_best_number client)"
    by (simp add: uint_up_ucast is_up)
  have birth: "birth (mortal Q era_period ?n) m = ?n"
    unfolding era_period_2048 using assms(3,4) by (intro birth_mortal) (simp_all add: n)
  have "system_hash hashes m ?n = Some (hashes ?n)"
    using assms(3,4) by (intro system_hash_kept) (simp_all add: n BlockHashCount_def)
  then show ?thesis
    using assms(1,2,5) birth
    by (auto simp: create_benchmark_extrinsic_def Let_def system_hash_genesis check_sign intro!: accepted_signed)
qed

end

section \<open>The reference instance\<close>

text \<open>Eras as a period and a phase, and a signature that is the signed payload with the key.\<close>

definition ref_birth :: "int \<times> int \<Rightarrow> u64 \<Rightarrow> u64" where
  "ref_birth era m = (case era of (period, phase) \<Rightarrow>
     word_of_int ((max (uint m) phase - phase) div period * period + phase))"

definition ref_extrinsic_ops :: "(nat, int \<times> int, nat, nat, nat, nat \<times> bytes) extrinsic_ops" where
  "ref_extrinsic_ops =
     \<lparr>mortal = (\<lambda>period n. (uint period, uint n mod uint period)),
      encode_payload = (\<lambda>(call, extra, additional).
        concat (map (le_digits 8)
          [int call, snd (se_era extra), int (ad_genesis_hash additional), int (ad_era_hash additional)])),
      pair_sign = (\<lambda>p bs. (p, bs)), pair_public = (\<lambda>p. p)\<rparr>"

definition ref_system_hash :: "(u64 \<Rightarrow> nat) \<Rightarrow> u64 \<Rightarrow> u64 \<Rightarrow> nat option" where
  "ref_system_hash hashes m b =
     (if b = 0 \<or> uint b < uint m \<and> uint m \<le> uint b + uint BlockHashCount then Some (hashes b) else None)"

definition ref_accepted ::
  "(u64 \<Rightarrow> nat) \<Rightarrow> u64 \<Rightarrow> (nat, int \<times> int, nat, nat \<times> bytes) unchecked_extrinsic \<Rightarrow> bool" where
  "ref_accepted hashes m xt =
     (case (ref_system_hash hashes m 0, ref_system_hash hashes m (ref_birth (se_era (xt_extra xt)) m)) of
        (Some g, Some h) \<Rightarrow>
          xt_signature xt = (xt_signer xt, encode_payload ref_extrinsic_ops (xt_call xt, xt_extra xt,
            \<lparr>ad_spec_version = rv_spec_version (VERSION ()),
             ad_transaction_version = rv_transaction_version (VERSION ()),
             ad_genesis_hash = g, ad_era_hash = h\<rparr>))
      | _ \<Rightarrow> False)"

lemma ref_birth_mortal:
  assumes "0 < uint period" and "uint n \<le> uint m" and "uint m < uint n + uint period"
  shows "ref_birth (mortal ref_extrinsic_ops period n) m = n"
proof -
  let ?p = "uint period" and ?phase = "uint n mod uint period"
  have "?phase \<le> uint n"
    by (simp add: zmod_le_nonneg_dividend)
  then have "max (uint m) ?phase = uint m"
    using assms(2) by simp
  moreover have "(uint m - ?phase) div ?p = uint n div ?p"
  proof -
    have "uint m - ?phase = (uint m - uint n) + (uint n div ?p) * ?p"
      using div_mult_mod_eq [of "uint n" ?p] by linarith
    then have "(uint m - ?phase) div ?p = uint n div ?p + (uint m - uint n) div ?p"
      using assms(1) by (simp only: div_mult_self1)
    then show ?thesis
      using assms by (simp add: div_pos_pos_trivial)
  qed
  ultimately have "(max (uint m) ?phase - ?phase) div ?p * ?p + ?phase = uint n"
    by (simp only: div_mult_mod_eq)
  then show ?thesis
    by (simp only: ref_birth_def ref_extrinsic_ops_def extrinsic_ops.simps prod.case word_of_int_uint)
qed

interpretation ref_xt: signed_extrinsics ref_extrinsic_ops ref_birth
  "\<lambda>k bs s. s = (k, bs)" ref_system_hash ref_accepted
proof (unfold_locales, goal_cases)
  case (1 j n m)
  then have "j \<in> set [2..<13]"
    by (simp only: set_upt atLeastLessThan_iff) simp
  then have "uint (2 ^ j :: u64) = 2 ^ j"
    by (auto simp: upt_rec)
  then show ?case
    using 1 by (intro ref_birth_mortal) simp_all
next
  case (2 p bs) then show ?case by (simp add: ref_extrinsic_ops_def)
next
  case (3 hashes m) then show ?case by (simp add: ref_system_hash_def)
next
  case (4 b m hashes) then show ?case by (simp add: ref_system_hash_def)
next
  case (5 hashes m g xt h) then show ?case by (simp add: ref_accepted_def)
qed

end
