(* ===== verification/Node_Properties.thy ===== *)
theory Node_Properties
  imports Node Command Extrinsic Chain_Properties Runtime_Properties
begin

text \<open>
  Properties of a node from its command line on: what a start-up runs and where it stops, who mines and
  for whom, and how the flag connects block import and mining.
\<close>

section \<open>Starting the services\<close>

lemma new_full_steps:
  "sv_steps (fst (new_full A config mining author cpus service_empty)) =
     fst (run_plan A (full_plan A config mining author cpus 0))"
  "snd (new_full A config mining author cpus service_empty) =
     snd (run_plan A (full_plan A config mining author cpus 0))"
proof -
  have "follows A (new_full A config mining author cpus) service_empty
      (full_plan A config mining author cpus 0) () [False]"
    by (rule new_full_follows) (simp add: service_empty_def)
  then show "sv_steps (fst (new_full A config mining author cpus service_empty)) =
     fst (run_plan A (full_plan A config mining author cpus 0))"
    "snd (new_full A config mining author cpus service_empty) =
     snd (run_plan A (full_plan A config mining author cpus 0))"
    using follows_steps follows_result by (force simp: service_empty_def)+
qed

text \<open>A step that ran was preceded by all the steps before it in the plan, none of which failed.\<close>

lemma run_plan_before:
  "s \<in> set (fst (run_plan A (xs @ s # ys))) \<Longrightarrow> s \<notin> set xs \<Longrightarrow>
   (\<forall>x \<in> set xs. x \<in> set (fst (run_plan A (xs @ s # ys))) \<and> step_error A x = None)"
  by (induction xs) (auto split: option.splits prod.splits)

lemma run_plan_last_step:
  assumes "run_plan A (before @ [s]) = (exec, r)" and "s \<notin> set before" and "step_error A s = None"
  shows "s \<in> set exec \<longleftrightarrow> r = Inr ()" and "r = Inr () \<Longrightarrow> last exec = s"
    and "r = Inl e \<Longrightarrow> step_error A (last exec) = Some e"
    and "\<forall>t \<in> set (butlast exec). step_error A t = None"
proof -
  have "(s \<in> set exec \<longleftrightarrow> r = Inr ()) \<and> (r = Inr () \<longrightarrow> last exec = s)
    \<and> (r = Inl e \<longrightarrow> step_error A (last exec) = Some e) \<and> (\<forall>t \<in> set (butlast exec). step_error A t = None)"
  proof (rule run_plan_cases [of A before])
    assume "\<forall>t \<in> set before. step_error A t = None"
    then have "run_plan A (before @ [s]) = (before @ [s], Inr ())"
      using assms(3) by (intro run_plan_all) simp
    then show ?thesis
      using assms(1) \<open>\<forall>t \<in> set before. step_error A t = None\<close> by auto
  next
    fix ok t rest e'
    assume b: "before = ok @ t # rest" and t: "step_error A t = Some e'" and ok: "\<forall>t \<in> set ok. step_error A t = None"
    have "run_plan A (before @ [s]) = (ok @ [t], Inl e')"
      using run_plan_first [OF ok t, of "rest @ [s]"] by (simp add: b)
    then show ?thesis
      using assms b t ok by auto
  qed
  then show "s \<in> set exec \<longleftrightarrow> r = Inr ()" and "r = Inr () \<Longrightarrow> last exec = s"
    and "r = Inl e \<Longrightarrow> step_error A (last exec) = Some e"
    and "\<forall>t \<in> set (butlast exec). step_error A t = None"
    by blast+
qed

text \<open>
  C23. Starting a full node does what the list \<open>full_plan\<close> says, step by step up to the first error, which
  is its result: nothing starts out of order, the last step is the one that failed, and the network
  starts, as the very last step, exactly when there is no error.
\<close>

theorem startup_runs_plan:
  assumes "new_full A config mining author cpus service_empty = (st, r)"
  shows "(sv_steps st, r) = run_plan A (full_plan A config mining author cpus 0)
    \<and> (Start_Network \<in> set (sv_steps st) \<longleftrightarrow> r = Inr ())
    \<and> (r = Inr () \<longrightarrow> last (sv_steps st) = Start_Network)
    \<and> (\<forall>e. r = Inl e \<longrightarrow> step_error A (last (sv_steps st)) = Some e)
    \<and> (\<forall>s \<in> set (butlast (sv_steps st)). step_error A s = None)"
proof -
  define before where "before = butlast (full_plan A config mining author cpus 0)"
  have plan: "full_plan A config mining author cpus 0 = before @ [Start_Network]"
    by (simp add: before_def full_plan_def butlast_append)
  have fresh: "Start_Network \<notin> set before"
    by (auto simp: before_def full_plan_def partial_plan_def author_plan_def butlast_append)
  have run: "run_plan A (before @ [Start_Network]) = (sv_steps st, r)"
    using assms new_full_steps [of A config mining author cpus] by (intro prod_eqI) (simp_all add: plan)
  have ok: "step_error A Start_Network = None"
    by (simp add: step_error_def)
  show ?thesis
    using run_plan_last_step [OF run fresh ok] run plan by simp
qed

definition ref_config :: config where
  "ref_config = \<lparr>cf_role_is_full = False, cf_is_authority = True, cf_telemetry_endpoints = None,
     cf_offchain_worker = False, cf_peer_id = Inr (replicate 38 1)\<rparr>"

definition ref_cli_ops :: "(nat, unit) cli_ops" where
  "ref_cli_ops = \<lparr>h256_from_str = (\<lambda>s. Some (replicate 32 1)), unchecked_from = length,
     from_ss58check = (\<lambda>s. None), generate_pair = (9, ''phrase''), insert_unknown = (\<lambda>s k. Inr ()),
     fails = (\<lambda>s. None), encode_key = (\<lambda>k. replicate k 0), create_runner = (\<lambda>cmd. Inr ref_config),
     runtime_benchmarks = False, try_runtime = False\<rparr>"

lemmas ref_start_simps = new_full_def new_partial_def bind_st_def then_st_def perform_def perform_when_def
  return_st_def new_atomic_def author_key_def start_mining_def Let_def step_error_def has_telemetry_def
  service_empty_def ref_cli_ops_def ref_config_def decode_author_def new_dist_block_import_def clone_pow_block_import_def
  clone_dist_block_import_def

theorem startup_runs_plan_witness:
  "Start_Network \<in> set (sv_steps (fst (new_full ref_cli_ops ref_config True (Some ''0xd4'') None service_empty)))"
proof -
  obtain st r where run: "new_full ref_cli_ops ref_config True (Some ''0xd4'') None service_empty = (st, r)"
    by fastforce
  then have "r = Inr ()"
    by (simp add: ref_start_simps)
  with startup_runs_plan [OF run] run show ?thesis
    by simp
qed

section \<open>Mining\<close>

lemma new_full_planned:
  "s \<in> set (sv_steps (fst (new_full A config mining author cpus service_empty))) \<Longrightarrow>
   s \<in> set (full_plan A config mining author cpus 0)"
  unfolding new_full_steps using run_plan_subset by blast

text \<open>The mining worker, and what was started before it.\<close>

lemma mining_worker_started:
  assumes "Start_Mining_Worker imp item t w \<in> set (sv_steps (fst (new_full A config mining author cpus service_empty)))"
  shows "mining" and "cf_is_authority config"
    and "\<exists>k. decode_author A author = Inr k \<and> item = Some (encode_key A k)"
proof -
  let ?plan = "full_plan A config mining author cpus 0"
  note planned = new_full_planned [OF assms]
  then show m: "mining" "cf_is_authority config"
    by (auto simp: full_plan_def partial_plan_def author_plan_def split: if_splits)
  let ?pre = "partial_plan config 0 @ [Build_Network (import_at 0)]
     @ (if cf_offchain_worker config then [Build_Offchain_Workers] else [])
     @ [Decode_Author author, New_Proposer (has_telemetry config)]"
  have plan: "?plan = ?pre @ Start_Mining_Worker imp item t w #
      [Spawn_Pow_Worker, Spawn_Mining_Thread 0 (cf_peer_id config) cpus, Spawn_Tasks, Start_Network]"
    and item: "item = (case decode_author A author of Inr k \<Rightarrow> Some (encode_key A k) | Inl e \<Rightarrow> None)"
    using m planned by (auto simp: full_plan_def author_plan_def partial_plan_def split: if_splits)
  have "Start_Mining_Worker imp item t w \<notin> set ?pre"
    by (auto simp: partial_plan_def)
  then have "\<forall>x \<in> set ?pre. step_error A x = None"
    using assms run_plan_before unfolding new_full_steps plan by blast
  then have "step_error A (Decode_Author author) = None"
    by simp
  then show "\<exists>k. decode_author A author = Inr k \<and> item = Some (encode_key A k)"
    using item by (auto simp: step_error_def split: sum.splits)
qed

text \<open>A block import on the flags of the node.\<close>

definition store_import ::
  "('b, 'r, 'p, 'q) block_import_ops \<Rightarrow> 'b \<Rightarrow> pow_block_import \<Rightarrow> bool list \<Rightarrow> bool list \<times> 'r" where
  "store_import I block imp flags =
     (let loc = di_found (pi_inner imp); (found, r) = dist_import_block I block (flags ! loc)
      in (flags[loc := found], r))"

text \<open>
  C20. The mining thread polls the flag that block import sets: importing a block through the import queue,
  or through the import of the mining worker, makes a solver that reads the flag from then on give up.
\<close>

theorem import_stops_mining:
  assumes "new_full A config mining author cpus service_empty = (st, r)"
    and "Spawn_Mining_Thread found peer_id n \<in> set (sv_steps st)"
    and "New_Import_Queue imp \<in> set (sv_steps st) \<or> Start_Mining_Worker imp item t w \<in> set (sv_steps st)"
    and "found < length flags" and "rho_walk L H" and "key_ok k"
  shows "\<exists>c'. solve_dist L H k c seed grain (\<lambda>i. fst (store_import I block imp flags) ! found) = Some (None, c', False)
    \<and> same_header H c' c"
proof -
  have planned: "s \<in> set (full_plan A config mining author cpus 0)" if "s \<in> set (sv_steps st)" for s
    using new_full_planned [of s A config mining author cpus] that assms(1) by simp
  have "found = 0"
    using planned [OF assms(2)] by (auto simp: full_plan_def partial_plan_def author_plan_def split: if_splits)
  have "imp = import_at 0"
    using assms(3) planned by (fastforce simp: full_plan_def partial_plan_def author_plan_def split: if_splits)
  then have "fst (store_import I block imp flags) ! found"
    using assms(4) \<open>found = 0\<close> by (simp add: store_import_def dist_import_block_def import_at_def)
  then show ?thesis
    using found_flag_stops [OF assms(5,6), of "\<lambda>i. fst (store_import I block imp flags) ! found"] by simp
qed

lemma ref_new_full:
  "new_full ref_cli_ops ref_config True (Some ''0xd4'') None service_empty =
     (\<lparr>sv_steps = [New_Full_Parts False, New_Pool True, New_Import_Queue (import_at 0), Build_Network (import_at 0),
        Decode_Author (Some ''0xd4''), New_Proposer False,
        Start_Mining_Worker (import_at 0) (Some (replicate 32 0)) 10 10, Spawn_Pow_Worker,
        Spawn_Mining_Thread 0 (Inr (replicate 38 1)) None, Spawn_Tasks, Start_Network],
       sv_flags = [False]\<rparr>, Inr ())"
  by (simp add: ref_start_simps import_at_def MINING_WORKER_TIMEOUT_def MINING_WORKER_BUILD_TIME_def)

definition ref_import_ops :: "(nat, bool, nat, bool) block_import_ops" where
  "ref_import_ops = \<lparr>inner_check = (\<lambda>b. True), inner_import = (\<lambda>b. True)\<rparr>"

theorem import_stops_mining_witness:
  "\<exists>c'. solve_dist ref_trex_libs ref_trait (ref_key 56) (ref_header 56 1) 1 MINING_GRAIN
      (\<lambda>i. fst (store_import ref_import_ops 5 (import_at 0) [False]) ! 0) = Some (None, c', False)"
proof -
  have thread: "Spawn_Mining_Thread 0 (Inr (replicate 38 1)) None
      \<in> set (sv_steps (fst (new_full ref_cli_ops ref_config True (Some ''0xd4'') None service_empty)))"
    and queue: "New_Import_Queue (import_at 0)
      \<in> set (sv_steps (fst (new_full ref_cli_ops ref_config True (Some ''0xd4'') None service_empty)))"
    by (simp_all only: ref_new_full fst_conv service.simps list.set insert_iff simp_thms)
  have len: "0 < length [False]"
    by simp
  show ?thesis
    using import_stops_mining [OF surjective_pairing thread disjI1 [OF queue] len,
        OF ref_trex.node.rho_walk_axioms ref_key_ok,
        where I = ref_import_ops and block = 5 and c = "ref_header 56 1" and seed = 1 and grain = MINING_GRAIN]
    by (rule ex_forward) (rule conjunct1)
qed

section \<open>The command line\<close>

lemma keeps_to_empty: "keeps_to P m \<Longrightarrow> s \<in> set (sv_steps (fst (m service_empty))) \<Longrightarrow> P s"
  unfolding keeps_to_def by (elim allE [of _ service_empty]) (auto simp: service_empty_def)

lemma subcommand_steps:
  "cl_subcommand cli = Some cmd \<Longrightarrow> s \<in> set (sv_steps (fst (run A cli service_empty))) \<Longrightarrow> \<not> online s"
  using keeps_to_empty [OF run_subcommand_offline, of s A cmd] by (simp add: run_def)

text \<open>
  No subcommand joins the network or mines, whatever fails on the way: its steps are those of
  \<open>new_partial\<close> and the command itself.
\<close>

theorem subcommands_stay_offline:
  assumes "cl_subcommand cli = Some cmd"
  shows "\<forall>s \<in> set (sv_steps (fst (run A cli service_empty))). \<not> online s"
  using subcommand_steps [OF assms] by blast

definition ref_cli :: "unit subcommand option \<Rightarrow> unit cli" where
  "ref_cli cmd = \<lparr>cl_subcommand = cmd, cl_run = (), cl_author = Some ''0xd4'', cl_cpus = None\<rparr>"

lemma ref_import_blocks:
  "sv_steps (fst (run ref_cli_ops (ref_cli (Some (Import_Blocks ()))) service_empty)) =
     [New_Full_Parts False, New_Pool True, New_Import_Queue (import_at 0),
      Run_Command (Import_Blocks ()) [Client, Import_Queue (import_at 0)]]"
  by (simp add: ref_start_simps run_def run_subcommand_def on_partial_def on_runner_def ref_cli_def import_at_def)

theorem subcommands_stay_offline_witness:
  "\<not> online (Run_Command (Import_Blocks ()) [Client, Import_Queue (import_at 0)] :: unit service_step)"
  using subcommands_stay_offline [of "ref_cli (Some (Import_Blocks ()))" "Import_Blocks ()" ref_cli_ops]
  by (simp only: ref_import_blocks) (simp add: ref_cli_def)

lemma run_mines:
  assumes "Start_Mining_Worker imp item t w \<in> set (sv_steps (fst (run A cli service_empty)))"
  shows "cl_subcommand cli = None
    \<and> (\<exists>config k. create_runner A None = Inr config \<and> \<not> cf_role_is_full config \<and> cf_is_authority config
      \<and> decode_author A (cl_author cli) = Inr k \<and> item = Some (encode_key A k))"
proof -
  have none: "cl_subcommand cli = None"
    using assms subcommand_steps [of cli _ "Start_Mining_Worker imp item t w" A]
    by (cases "cl_subcommand cli") auto
  obtain config where config: "create_runner A None = Inr config"
    using assms none
    by (cases "create_runner A None") (simp_all add: run_def on_runner_def fail_st_def service_empty_def)
  have "Start_Mining_Worker imp item t w \<in> set (sv_steps (fst
      (new_full A config (\<not> cf_role_is_full config) (cl_author cli) (cl_cpus cli) service_empty)))"
    using assms none config by (cases "cf_role_is_full config") (simp_all add: run_def on_runner_def)
  from mining_worker_started [OF this] show ?thesis
    using none config by blast
qed

text \<open>
  C19. A node mines only when it is started without a subcommand and its configuration makes it an authority
  and not a full node, and then for the author of the command line; a block whose digest begins with the
  item it mines for pays that author's account the reward in force, and changes no other balance.
\<close>

theorem node_author_is_paid:
  assumes "Start_Mining_Worker imp (Some item) t w \<in> set (sv_steps (fst (run A cli service_empty)))"
    and "ro_decode_account Q item = Some a" and "bl_logs b = Pre_Runtime POW_ENGINE_ID item # rest"
    and "runtime_inv (minimum_balance (ro_currency Q)) rt" and "currency (ro_currency Q)"
  shows "cl_subcommand cli = None
    \<and> (\<exists>config k. create_runner A None = Inr config \<and> \<not> cf_role_is_full config \<and> cf_is_authority config
      \<and> decode_author A (cl_author cli) = Inr k \<and> item = encode_key A k)
    \<and> (\<exists>rt' r. execute_block Q b rt = Some rt' \<and> rw_reward (rt_rewards rt') = Some r
      \<and> (uint (free_balance (ro_currency Q) (rt_balances rt) a) + uint r < 2 ^ 128 \<longrightarrow>
          uint (free_balance (ro_currency Q) (rt_balances rt') a)
            = uint (free_balance (ro_currency Q) (rt_balances rt) a) + uint r)
      \<and> (\<forall>other. other \<noteq> a \<longrightarrow> free_balance (ro_currency Q) (rt_balances rt') other
            = free_balance (ro_currency Q) (rt_balances rt) other))"
proof -
  have "digest_author (ro_decode_account Q) (bl_logs b) = Some a"
    using assms(2,3) by (simp add: digest_author_item)
  then show ?thesis
    using run_mines [OF assms(1)] block_pays_digest_author [OF assms(4,5)] by simp
qed

lemma ref_run_mines:
  "Start_Mining_Worker (import_at 0) (Some (replicate 32 0)) 10 10
     \<in> set (sv_steps (fst (run ref_cli_ops (ref_cli None) service_empty)))"
proof -
  have "run ref_cli_ops (ref_cli None) service_empty =
      new_full ref_cli_ops ref_config True (Some ''0xd4'') None service_empty"
    by (simp add: run_def on_runner_def ref_cli_def) (simp add: ref_cli_ops_def ref_config_def)
  then show ?thesis
    by (simp add: ref_new_full)
qed

theorem node_author_is_paid_witness:
  "\<exists>rt'. execute_block ref_runtime_ops (ref_block\<lparr>bl_logs := [Pre_Runtime POW_ENGINE_ID (replicate 32 0)]\<rparr>) ref_genesis
      = Some rt' \<and> free_balance (ro_currency ref_runtime_ops) (rt_balances rt') 7 = 0"
proof -
  have dec: "ro_decode_account ref_runtime_ops (replicate 32 0) = Some 32"
    by (simp add: ref_runtime_ops_def)
  have logs: "bl_logs (ref_block\<lparr>bl_logs := [Pre_Runtime POW_ENGINE_ID (replicate 32 0)]\<rparr>) =
      Pre_Runtime POW_ENGINE_ID (replicate 32 0) # []"
    by simp
  have zero: "free_balance (ro_currency ref_runtime_ops) (rt_balances ref_genesis) 7 = 0"
    by (simp add: ref_runtime_ops_def ref_genesis_def balances_ops_def runtime_genesis_def)
  show ?thesis
    using node_author_is_paid [OF ref_run_mines dec logs ref_runtime_inv ref_currency] zero
    by fastforce
qed

section \<open>The benchmark extrinsic\<close>

text \<open>
  When the client knows its genesis and its best block, the extrinsic of the benchmark command is built,
  and a runtime accepts its signature in each of the 2047 blocks after the best one: the versions, the
  genesis hash and the hash of the era's first block it signs are those the runtime puts together.
\<close>

theorem benchmark_extrinsic_accepted:
  assumes "signed_extrinsics Q birth check system_hash accepted"
    and "ci_block_hash client 0 = Inr (Some (hashes 0))"
    and "ci_best_hash client = hashes (ucast (ci_best_number client))"
  shows "\<exists>xt. benchmark_remark Q remark bob client nonce = Some xt
    \<and> (\<forall>m. uint (ci_best_number client) < uint m \<and> uint m < uint (ci_best_number client) + 2048
        \<longrightarrow> accepted hashes m xt)"
proof -
  obtain xt where xt: "create_benchmark_extrinsic Q client bob (remark []) nonce = Some xt"
    using assms(2) by (simp add: create_benchmark_extrinsic_def Let_def)
  then show ?thesis
    using signed_extrinsics.benchmark_accepted [OF assms _ _ xt] by (auto simp: benchmark_remark_def)
qed

theorem benchmark_extrinsic_accepted_witness:
  "\<exists>xt. benchmark_remark ref_extrinsic_ops length 3
      \<lparr>ci_block_hash = (\<lambda>n. Inr (Some 42)), ci_best_hash = 42, ci_best_number = 5000\<rparr> 7 = Some xt
    \<and> ref_accepted (\<lambda>n. 42) 7047 xt"
  using benchmark_extrinsic_accepted [OF ref_xt.signed_extrinsics_axioms,
      of "\<lparr>ci_block_hash = (\<lambda>n. Inr (Some 42)), ci_best_hash = 42, ci_best_number = 5000\<rparr>" "\<lambda>n. 42" length 3 7]
  by auto

end
