(* ===== verification/Solver_Tests.thy ===== *)
theory Solver_Tests
  imports Puzzle_Properties
begin

text \<open>
  The unit tests of \<open>consensus/trex-pow/src/lib.rs\<close> as functions: what they would report for any key the
  key generator hands them. \<open>None\<close> is a panic of the code under test, \<open>Panic\<close> one of the test itself.
\<close>

datatype test_outcome = Passed | Panic string

text \<open>\<open>yield_pubkey\<close> is \<open>RawPublicKey::yield_pubkey\<close> of \<open>elgamal_trex\<close>.\<close>

definition get_test_pubkey ::
  "('r, 'z) trex_libs_scheme \<Rightarrow> (raw_public_key \<Rightarrow> 'r \<Rightarrow> u32 \<Rightarrow> raw_public_key) \<Rightarrow> u32 \<Rightarrow> public_key" where
  "get_test_pubkey L yield_pubkey diff =
     (let old_pubkey = \<lparr>key_p = 1, key_g = 1, key_h = 1, key_bits = diff\<rparr>;
          rand = rand_new L;
          raw_pubkey = yield_pubkey (to_raw L old_pubkey) rand diff
      in from_raw L raw_pubkey)"

definition get_test_header :: "u32 \<Rightarrow> compute" where
  "get_test_header diff =
     \<lparr>cmp_difficulty = ucast diff, cmp_pre_hash = replicate 32 1, cmp_nonce = 1\<rparr>"

definition verify_key :: "('r, 'z) libs_scheme \<Rightarrow> public_key \<Rightarrow> int solutions \<Rightarrow> test_outcome option" where
  "verify_key L pubkey solutions = do {
     r \<leftarrow> key_gen L pubkey solutions;
     (case r of
        Some key \<Rightarrow> do {
          validate \<leftarrow> pow_mod L (key_g pubkey) (prv_x key) (key_p pubkey);
          Some (if validate = key_h pubkey then Passed else Panic ''The found private key is not valid!'') }
      | None \<Rightarrow> Some (Panic ''Failed to derive private key!'')) }"

text \<open>The check each test makes of a pair it found.\<close>

definition check_solutions ::
  "('r, 'z) pow_libs_scheme \<Rightarrow> public_key \<Rightarrow> int solutions \<Rightarrow> compute \<Rightarrow> test_outcome option" where
  "check_solutions L pubkey solutions compute = do {
     ok \<leftarrow> verify L pubkey solutions compute;
     if ok then verify_key L pubkey solutions
     else Some (Panic ''Mining results cannot be verified!'') }"

text \<open>The loop of the first test, with the number of iterations left.\<close>

fun rho_test_loop ::
  "('r, 'z) pow_libs_scheme \<Rightarrow> public_key \<Rightarrow> compute \<Rightarrow> int \<Rightarrow> nat \<Rightarrow> test_outcome option" where
  "rho_test_loop L pubkey compute seed left = do {
     (r, compute) \<leftarrow> solve L (blake3_compute L) pubkey compute seed;
     (case r of
        Some solutions \<Rightarrow> check_solutions L pubkey solutions compute
      | None \<Rightarrow>
          (case left of
             Suc left \<Rightarrow> rho_test_loop L pubkey compute (seed + 1) left
           | 0 \<Rightarrow> Some (Panic ''Cannot find private key!''))) }"

declare rho_test_loop.simps [simp del]

definition try_pollard_rho_with_key_gen ::
  "('r, 'z) trex_libs_scheme \<Rightarrow> (raw_public_key \<Rightarrow> 'r \<Rightarrow> u32 \<Rightarrow> raw_public_key) \<Rightarrow> test_outcome option" where
  "try_pollard_rho_with_key_gen L yield_pubkey =
     (let difficulty = 39; limit = 10
      in rho_test_loop L (get_test_pubkey L yield_pubkey difficulty) (get_test_header difficulty) 1 limit)"

text \<open>Thread \<open>i\<close> of the second test; \<open>obs\<close> holds what it reads from the flag the threads share.\<close>

definition distributed_test_thread ::
  "('r, 'z) trex_libs_scheme \<Rightarrow> (raw_public_key \<Rightarrow> 'r \<Rightarrow> u32 \<Rightarrow> raw_public_key) \<Rightarrow> int \<Rightarrow> (nat \<Rightarrow> bool) \<Rightarrow>
     test_outcome option" where
  "distributed_test_thread L yield_pubkey i obs =
     (let difficulty = 39; pubkey = get_test_pubkey L yield_pubkey difficulty
      in do {
        (r, compute, stored) \<leftarrow> solve_dist L (blake3_compute L) pubkey (get_test_header difficulty) i 10000 obs;
        (case r of
           Some solutions \<Rightarrow> check_solutions L pubkey solutions compute
         | None \<Rightarrow> Some Passed) })"

text \<open>The whole test: six threads, joined with \<open>expect\<close>, so that the panic of one of them is a panic of the test.\<close>

definition try_pollard_rho_distributed ::
  "('r, 'z) trex_libs_scheme \<Rightarrow> (raw_public_key \<Rightarrow> 'r \<Rightarrow> u32 \<Rightarrow> raw_public_key) \<Rightarrow> (nat \<Rightarrow> nat \<Rightarrow> bool) \<Rightarrow>
     test_outcome" where
  "try_pollard_rho_distributed L yield_pubkey obs =
     (let cpu_n = 6; threads = map (\<lambda>i. distributed_test_thread L yield_pubkey (int i) (obs i)) [0..<cpu_n]
      in if list_all (\<lambda>outcome. outcome = Some Passed) threads then Passed
         else Panic ''The thread creating or execution failed !'')"

definition try_pollard_rho_parallel ::
  "('r, 'z) trex_libs_scheme \<Rightarrow> (raw_public_key \<Rightarrow> 'r \<Rightarrow> u32 \<Rightarrow> raw_public_key) \<Rightarrow> event list \<Rightarrow> test_outcome option" where
  "try_pollard_rho_parallel L yield_pubkey sched =
     (let difficulty = 39; cpu_n = 6; pubkey = get_test_pubkey L yield_pubkey difficulty
      in do {
        (r, compute) \<leftarrow> solve_parallel L (blake3_compute L) pubkey (get_test_header difficulty) 1 10000 False cpu_n sched;
        (case r of
           Some solutions \<Rightarrow> check_solutions L pubkey solutions compute
         | None \<Rightarrow> Some (Panic ''Cannot find private key!'')) })"

definition gen_pub_key ::
  "('r, 'z) trex_libs_scheme \<Rightarrow> (raw_public_key \<Rightarrow> 'r \<Rightarrow> u32 \<Rightarrow> raw_public_key) \<Rightarrow> test_outcome" where
  "gen_pub_key L yield_pubkey =
     (let difficulty = 39;
          old_pubkey = \<lparr>key_p = 1, key_g = 1, key_h = 1, key_bits = difficulty\<rparr>;
          rand = rand_new L;
          raw_pubkey = yield_pubkey (to_raw L old_pubkey) rand difficulty;
          new_pubkey = from_raw L raw_pubkey;
          test_pubkey = \<lparr>key_p = 209805312383, key_g = 38619647689, key_h = 82239889787, key_bits = difficulty\<rparr>
      in if key_p test_pubkey = key_p new_pubkey then Passed
         else Panic ''The generated pubkey does not match expected result!'')"

text \<open>\<open>encode\<close> is the derived encoding of a seed; an array encodes its elements one after the other.\<close>

definition test_seeds_len :: "(raw_seed \<Rightarrow> bytes) \<Rightarrow> test_outcome" where
  "test_seeds_len encode =
     (let genesis_key_seeds = map (\<lambda>idx. if idx < 128 then U128 1 else U256 1) [0..<SEEDS_LEN];
          genesis_key_seeds_u256 = replicate SEEDS_LEN (U256 1);
          genesis_key_seeds_u128 = replicate SEEDS_LEN (U128 1);
          len = (\<lambda>seeds. length (concat (map encode seeds)))
      in if len genesis_key_seeds = 4288 \<and> len genesis_key_seeds_u256 = 6336 \<and> len genesis_key_seeds_u128 = 3264
         then Passed else Panic '''')"

section \<open>What the tests can report\<close>

text \<open>The outcome is that of \<open>verify_key\<close> for a pair that the verifier accepted.\<close>

definition reports_verified :: "('r, 'z) pow_libs_scheme \<Rightarrow> public_key \<Rightarrow> test_outcome option \<Rightarrow> bool" where
  "reports_verified L k outcome \<longleftrightarrow>
     (\<exists>sols c. verify L k sols c = Some True \<and> outcome = verify_key L k sols)"

definition UNVERIFIED :: string where "UNVERIFIED = ''Mining results cannot be verified!''"

lemma verify_key_not_unverified: "verify_key L k sols \<noteq> Some (Panic UNVERIFIED)"
  by (auto simp: verify_key_def UNVERIFIED_def bind_eq_Some_conv split: option.splits)

lemma reports_verified_neq: "reports_verified L k outcome \<Longrightarrow> outcome \<noteq> Some (Panic UNVERIFIED)"
  using verify_key_not_unverified by (auto simp: reports_verified_def)

lemma check_reports: "verify L k sols c = Some True \<Longrightarrow> reports_verified L k (check_solutions L k sols c)"
  unfolding reports_verified_def by (intro exI [of _ sols] exI [of _ c]) (simp add: check_solutions_def)

lemma rho_test_loop_reports:
  assumes "pow_node L" and "key_ok k"
  shows "reports_verified L k (rho_test_loop L k c seed left)
    \<or> rho_test_loop L k c seed left = Some (Panic ''Cannot find private key!'')"
proof (induction left arbitrary: c seed)
  case 0
  obtain r c' where run: "solve L (blake3_compute L) k c seed = Some (r, c')"
    using rho_walk.solve_ok [OF pow_node_rho_walk [OF assms(1)] assms(2), of c seed] by blast
  show ?case
  proof (cases r)
    case None
    then show ?thesis
      using run by (simp add: rho_test_loop.simps [of L k c seed 0])
  next
    case (Some sols)
    with run have "verify L k sols c' = Some True"
      by (intro pow_node.solve_verified [OF assms]) simp
    with run Some show ?thesis
      by (simp add: rho_test_loop.simps [of L k c seed 0] check_reports)
  qed
next
  case (Suc left)
  obtain r c' where run: "solve L (blake3_compute L) k c seed = Some (r, c')"
    using rho_walk.solve_ok [OF pow_node_rho_walk [OF assms(1)] assms(2), of c seed] by blast
  show ?case
  proof (cases r)
    case None
    then show ?thesis
      using run Suc [of c' "seed + 1"] by (simp add: rho_test_loop.simps [of L k c seed "Suc left"])
  next
    case (Some sols)
    with run have "verify L k sols c' = Some True"
      by (intro pow_node.solve_verified [OF assms]) simp
    with run Some show ?thesis
      by (simp add: rho_test_loop.simps [of L k c seed "Suc left"] check_reports)
  qed
qed

lemma distributed_test_reports:
  assumes "pow_node L" and "key_ok (get_test_pubkey L yield_pubkey 39)"
  shows "reports_verified L (get_test_pubkey L yield_pubkey 39) (distributed_test_thread L yield_pubkey i obs)
    \<or> distributed_test_thread L yield_pubkey i obs = Some Passed"
proof -
  obtain r c' stored where run: "solve_dist L (blake3_compute L) (get_test_pubkey L yield_pubkey 39)
      (get_test_header 39) i 10000 obs = Some (r, c', stored)"
    using rho_walk.solve_dist_ok [OF pow_node_rho_walk [OF assms(1)] assms(2)] by blast
  show ?thesis
  proof (cases r)
    case None
    then show ?thesis
      using run by (simp add: distributed_test_thread_def Let_def)
  next
    case (Some sols)
    with run have "verify L (get_test_pubkey L yield_pubkey 39) sols c' = Some True"
      by (intro pow_node.solve_dist_verified [OF assms]) simp
    with run Some show ?thesis
      by (simp add: distributed_test_thread_def Let_def check_reports)
  qed
qed

text \<open>
  The single-threaded unit tests report what \<open>verify_key\<close> says of a pair the verifier accepts, or that
  nothing was found (the second test passes then); their assertion that a result verifies cannot fail.
\<close>

theorem solver_tests_report:
  assumes "pow_node L" and "key_ok (get_test_pubkey L yield_pubkey 39)"
  shows "(reports_verified L (get_test_pubkey L yield_pubkey 39) (try_pollard_rho_with_key_gen L yield_pubkey)
      \<or> try_pollard_rho_with_key_gen L yield_pubkey = Some (Panic ''Cannot find private key!''))
    \<and> try_pollard_rho_with_key_gen L yield_pubkey \<noteq> Some (Panic UNVERIFIED)
    \<and> (reports_verified L (get_test_pubkey L yield_pubkey 39) (distributed_test_thread L yield_pubkey i obs)
      \<or> distributed_test_thread L yield_pubkey i obs = Some Passed)
    \<and> distributed_test_thread L yield_pubkey i obs \<noteq> Some (Panic UNVERIFIED)"
proof -
  have "reports_verified L (get_test_pubkey L yield_pubkey 39) (try_pollard_rho_with_key_gen L yield_pubkey)
      \<or> try_pollard_rho_with_key_gen L yield_pubkey = Some (Panic ''Cannot find private key!'')"
    using rho_test_loop_reports [OF assms] by (simp add: try_pollard_rho_with_key_gen_def)
  moreover note distributed_test_reports [OF assms, of i obs]
  ultimately show ?thesis
    using reports_verified_neq by (fastforce simp: UNVERIFIED_def)
qed

theorem solver_tests_report_witness:
  "try_pollard_rho_with_key_gen ref_trex_libs (\<lambda>raw rand bits. to_raw ref_trex_libs (ref_key bits))
     \<noteq> Some (Panic ''Mining results cannot be verified!'')"
proof -
  have "get_test_pubkey ref_trex_libs (\<lambda>raw rand bits. to_raw ref_trex_libs (ref_key bits)) 39 = ref_key 39"
    by (simp add: get_test_pubkey_def ref_key_def)
  then show ?thesis
    using solver_tests_report [OF ref_trex.pow_node_axioms,
        of "\<lambda>raw rand bits. to_raw ref_trex_libs (ref_key bits)" 0 "\<lambda>i. False"] ref_key_ok
    by (simp add: UNVERIFIED_def)
qed

text \<open>The distributed test fails only on a private key that a verified pair does not give away.\<close>

lemma distributed_test_fails:
  assumes "pow_node L" and "key_ok (get_test_pubkey L yield_pubkey 39)"
    and "try_pollard_rho_distributed L yield_pubkey obs \<noteq> Passed"
  shows "\<exists>sols c. verify L (get_test_pubkey L yield_pubkey 39) sols c = Some True
    \<and> verify_key L (get_test_pubkey L yield_pubkey 39) sols \<noteq> Some Passed"
proof -
  obtain i where "distributed_test_thread L yield_pubkey (int i) (obs i) \<noteq> Some Passed"
    using assms(3) by (auto simp: try_pollard_rho_distributed_def Let_def list_all_iff split: if_splits)
  then show ?thesis
    using distributed_test_reports [OF assms(1,2), of "int i" "obs i"] unfolding reports_verified_def by metis
qed

text \<open>The last test of the key generator looks at the modulus of the key that the others use.\<close>

lemma gen_pub_key_modulus:
  "gen_pub_key L yield_pubkey = Passed \<longleftrightarrow> key_p (get_test_pubkey L yield_pubkey 39) = 209805312383"
  by (auto simp: gen_pub_key_def get_test_pubkey_def Let_def)

text \<open>The third test was written for a chain of 192 seeds; with 176 it fails.\<close>

lemma seeds_test_fails:
  assumes "\<And>w. length (encode (U128 w)) = 17" and "\<And>w. length (encode (U256 w)) = 33"
  shows "test_seeds_len encode = Panic ''''"
proof -
  have "length (concat (map encode (replicate SEEDS_LEN (U256 1)))) = 5808"
    by (simp add: length_concat assms map_replicate_const sum_list_replicate)
  then show ?thesis
    by (simp add: test_seeds_len_def Let_def)
qed

end
