(* ===== verification/Forgery.thy ===== *)
theory Forgery
  imports Walk_Properties
begin

text \<open>
  What the verifiers do not tie a seal to: \<open>PowAlgorithm::verify\<close> takes the public key from the seal
  itself and never looks at the parent (\<open>_parent\<close>, \<open>_pre_digest\<close>), so that the producer of a block
  chooses the group. Over the smallest group, the integers modulo 3, every residue has both its
  exponents in plain sight, and a seal is built without walking to a collision.
\<close>

section \<open>A seal over the integers modulo 3\<close>

definition toy_key :: "u128 \<Rightarrow> public_key" where
  "toy_key difficulty = \<lparr>key_p = 3, key_g = 2, key_h = 2, key_bits = ucast difficulty\<rparr>"

definition forged_header :: "h256 \<Rightarrow> u256 \<Rightarrow> u128 \<Rightarrow> compute" where
  "forged_header pre_hash w difficulty =
     \<lparr>cmp_difficulty = difficulty, cmp_pre_hash = pre_hash, cmp_nonce = w\<rparr>"

text \<open>The element the verifier computes from the header, and two ways to write it as \<open>2 ^ a * 2 ^ b\<close>.\<close>

definition forged_work :: "('r, 'z) pow_libs_scheme \<Rightarrow> compute \<Rightarrow> int" where
  "forged_work L c = next_work (toy_key (cmp_difficulty c)) (hash_integer L c mod 3) (uint (cmp_nonce c))"

definition forged_pair :: "int \<Rightarrow> u256 solutions" where
  "forged_pair y =
     (if y = 1 then (\<lparr>sol_a = 0, sol_b = 0, sol_n = 1\<rparr>, \<lparr>sol_a = 1, sol_b = 1, sol_n = 1\<rparr>)
      else (\<lparr>sol_a = 1, sol_b = 0, sol_n = 1\<rparr>, \<lparr>sol_a = 0, sol_b = 1, sol_n = 1\<rparr>))"

definition forged_seal ::
  "('r, 'z) trex_libs_scheme \<Rightarrow> h256 \<Rightarrow> raw_seed list \<Rightarrow> u256 \<Rightarrow> u128 \<Rightarrow> seal" where
  "forged_seal L pre_hash seeds w difficulty =
     \<lparr>seal_difficulty = difficulty, seal_pubkey = to_raw L (toy_key difficulty), seal_seeds = seeds,
      seal_solutions = forged_pair (forged_work L (forged_header pre_hash w difficulty)),
      seal_nonce = w\<rparr>"

text \<open>The state whose hash has to meet the target: its hash covers the nonce, and nothing of the parent.\<close>

definition forged_state :: "('r, 'z) pow_libs_scheme \<Rightarrow> compute \<Rightarrow> rho_state" where
  "forged_state L c =
     \<lparr>st_solution = \<lparr>sol_a = 0, sol_b = 0, sol_n = 1\<rparr>, st_nonce = uint (cmp_nonce c),
      st_work = forged_work L c, st_pubkey = toy_key (cmp_difficulty c)\<rparr>"

lemma toy_key_ok: "key_ok (toy_key d)" and toy_key_fits: "key_fits (toy_key d)"
  by (simp_all add: key_ok_def key_fits_def toy_key_def)

text \<open>Every mapping sends a residue prime to 3 to 1 or 2.\<close>

lemma unit_mod_3: "y mod 3 \<noteq> 0 \<Longrightarrow> y mod 3 = 1 \<or> y mod 3 = (2 :: int)"
  by presburger

lemma next_work_toy:
  assumes "y mod 3 \<noteq> 0" and "0 \<le> x" and "x < 3"
  shows "next_work (toy_key d) x y = 1 \<or> next_work (toy_key d) x y = 2"
proof -
  have x: "x = 0 \<or> x = 1 \<or> x = 2"
    using assms(2,3) by presburger
  have y: "2 * y mod 3 = 1 \<or> 2 * y mod 3 = 2"
    using assms(1) by presburger
  have "next_work (toy_key d) 0 y = 1" "next_work (toy_key d) 1 y = 2 * y mod 3"
    "next_work (toy_key d) 2 y = y mod 3"
    by (simp_all add: next_work_def toy_key_def)
  then show ?thesis
    using x y unit_mod_3 [OF assms(1)] by (elim disjE) simp_all
qed

lemma forged_work_unit:
  "uint w mod 3 \<noteq> 0 \<Longrightarrow>
     forged_work L (forged_header h w d) = 1 \<or> forged_work L (forged_header h w d) = 2"
  unfolding forged_work_def by (rule next_work_toy) (simp_all add: forged_header_def)

section \<open>The verifier's decision on it\<close>

lemma ucast_u32_u128:
  "uint d < 2 ^ 32 \<Longrightarrow> ucast (ucast d :: u32) = (d :: u128)"
  by (intro word_uint_eqI) (simp add: unsigned_ucast_eq unsigned_take_bit_eq take_bit_int_eq_self)

text \<open>The integers the verifier reads back from the words of the pair.\<close>

definition forged_ints :: "int \<Rightarrow> int solutions" where
  "forged_ints y =
     (if y = 1 then (\<lparr>sol_a = 0, sol_b = 0, sol_n = 1\<rparr>, \<lparr>sol_a = 1, sol_b = 1, sol_n = 1\<rparr>)
      else (\<lparr>sol_a = 1, sol_b = 0, sol_n = 1\<rparr>, \<lparr>sol_a = 0, sol_b = 1, sol_n = 1\<rparr>))"

lemma forged_ints_pair:
  assumes "y = 1 \<or> y = 2"
  shows "fst (forged_ints y) \<noteq> snd (forged_ints y)"
    and "element (toy_key d) (fst (forged_ints y)) = y"
    and "element (toy_key d) (snd (forged_ints y)) = y"
    and "nonneg_exponents (fst (forged_ints y))" and "nonneg_exponents (snd (forged_ints y))"
  using assms by (auto simp: forged_ints_def element_def toy_key_def nonneg_exponents_def)

context pow_node
begin

lemma forged_pair_ints:
  "(from_u256 L (fst (forged_pair y)), from_u256 L (snd (forged_pair y))) = forged_ints y"
  by (simp add: forged_pair_def forged_ints_def from_u256_def u256_bigint_uint)

lemma overflowed_solution: "overflowed L (s\<lparr>st_solution := t\<rparr>) f = overflowed L s f"
  by (simp add: overflowed_def hash_encode_def)

lemma forged_claimed:
  "overflowed L (claimed_state L (toy_key (cmp_difficulty c)) sols c) f =
     overflowed L (forged_state L c) f"
  by (simp add: overflowed_def hash_encode_def claimed_state_def forged_state_def forged_work_def
      toy_key_def)

lemma verify_forged:
  assumes "forged_work L c = 1 \<or> forged_work L c = 2"
  shows "verify L (toy_key (cmp_difficulty c)) (forged_ints (forged_work L c)) c =
     map_option Not (overflowed L (forged_state L c) (hash_diff (toy_key (cmp_difficulty c))))"
proof -
  let ?k = "toy_key (cmp_difficulty c)" and ?y = "forged_work L c"
  obtain ov where ov: "overflowed L (forged_state L c) (hash_diff ?k) = Some ov"
    using node.overflowed_total by blast
  have "st_work (claimed_state L ?k (forged_ints ?y) c) = ?y"
    by (simp add: claimed_state_def forged_work_def toy_key_def)
  then have "accepts L ?k (forged_ints ?y) c \<longleftrightarrow> \<not> ov"
    using forged_ints_pair [OF assms] ov by (simp add: accepts_def forged_claimed)
  then show ?thesis
    using verify_accepts [OF toy_key_ok forged_ints_pair(4) [OF assms] forged_ints_pair(5) [OF assms]] ov by simp
qed

end

lemma forged_seal_fields [simp]:
  "seal_difficulty (forged_seal L h seeds w d) = d"
  "seal_pubkey (forged_seal L h seeds w d) = to_raw L (toy_key d)"
  "seal_seeds (forged_seal L h seeds w d) = seeds"
  "seal_solutions (forged_seal L h seeds w d) = forged_pair (forged_work L (forged_header h w d))"
  "seal_nonce (forged_seal L h seeds w d) = w"
  by (simp_all add: forged_seal_def)

context trex_node
begin

lemma verify_seal_forged:
  assumes "uint w mod 3 \<noteq> 0"
  shows "verify_seal L h (forged_seal L h seeds w d) d =
     map_option Not (overflowed L (forged_state L (forged_header h w d)) (hash_diff (toy_key d)))"
  using verify_forged [OF forged_work_unit [OF assms, of L h d]]
  by (simp add: verify_seal_def from_to_raw [OF toy_key_fits] forged_pair_ints forged_header_def)

end

text \<open>
  The hash of the state adds fifths of its parts, rounded towards zero: over this key all of them but
  the nonce's are 0, the element the header was mapped to included.
\<close>

definition nonce_meets :: "('r, 'z) pow_libs_scheme \<Rightarrow> u256 \<Rightarrow> u128 \<Rightarrow> bool option" where
  "nonce_meets L w difficulty =
     map_option (\<lambda>e. uint e * uint (hash_diff (toy_key difficulty)) < 2 ^ 256)
       (u256_from_le (blake3 L (to_digits L (uint w div 5))))"

lemma overflowed_forged:
  assumes "uint w mod 3 \<noteq> 0"
  shows "map_option Not (overflowed L (forged_state L (forged_header h w d)) (hash_diff (toy_key d))) =
     nonce_meets L w d"
proof -
  have "uint w sdiv 5 = uint w div 5"
    by (rule sdiv_5) simp
  then have "hash_encode L (forged_state L (forged_header h w d)) =
      u256_from_le (blake3 L (to_digits L (uint w div 5)))"
    using forged_work_unit [OF assms, of L h d]
    by (auto simp: hash_encode_def forged_state_def forged_header_def toy_key_def Let_def
        signed_divide_int_def)
  then show ?thesis
    by (cases "u256_from_le (blake3 L (to_digits L (uint w div 5)))")
      (auto simp: overflowed_def overflowing_mul_def nonce_meets_def)
qed

lemma forged_seal_decides:
  assumes "trex_node L" and "uint difficulty < 2 ^ 32" and "length seeds = SEEDS_LEN"
    and "uint w mod 3 \<noteq> 0"
  shows "trex_verify L pre_hash (encode_seal L (forged_seal L pre_hash seeds w difficulty)) difficulty =
     nonce_meets L w difficulty"
proof -
  have dec: "decode_seal L (encode_seal L (forged_seal L pre_hash seeds w difficulty)) =
      Some (forged_seal L pre_hash seeds w difficulty)"
    by (rule trex_node.decode_encode_seal [OF assms(1)]) (simp add: assms(3) del: SEEDS_LEN_176)
  have bits: "ucast (raw_bits (to_raw L (toy_key difficulty))) = difficulty"
    using trex_node.to_raw_bits [OF assms(1)] ucast_u32_u128 [OF assms(2)] by (simp add: toy_key_def)
  show ?thesis
    using trex_node.verify_seal_forged [OF assms(1,4)] overflowed_forged [OF assms(4)]
    by (simp add: trex_verify_def dec hash_meets_difficulty_def bits)
qed

text \<open>
  C17. Nobody has to solve the puzzle of the chain to seal a block: for every parent, every seeds of the
  right length and every nonce that 3 does not divide, there is a seal over the integers modulo 3,
  written down without a search, on which the verifier's decision is a hash condition on the nonce
  alone. No key of the key chain occurs in it, and neither does the parent: a nonce that meets the
  target of a difficulty once seals every block of that difficulty.
\<close>

theorem chosen_key_forges:
  assumes "trex_node L" and "uint difficulty < 2 ^ 32" and "length seeds = SEEDS_LEN"
    and "uint w mod 3 \<noteq> 0"
  shows "trex_verify L pre_hash (encode_seal L (forged_seal L pre_hash seeds w difficulty)) difficulty =
     nonce_meets L w difficulty"
  by (rule forged_seal_decides [OF assms])

text \<open>One nonce, two parents.\<close>

lemma ref_nonce_meets: "nonce_meets ref_trex_libs 1 56 = Some True"
proof -
  have "u256_from_le (blake3 ref_trex_libs (to_digits ref_trex_libs 0)) = Some 3"
    by (simp add: u256_from_le_def ref_libs_def le_val_le_digits min_digits_val)
  moreover have "hash_diff (toy_key 56) = 2 ^ 20"
    by (simp add: hash_diff_def toy_key_def POINT_DST_FACTOR_def push_bit_eq_mult)
  ultimately show ?thesis
    by (simp add: nonce_meets_def)
qed

theorem chosen_key_forges_witness:
  "trex_verify ref_trex_libs (replicate 32 0) (encode_seal ref_trex_libs
     (forged_seal ref_trex_libs (replicate 32 0) (replicate SEEDS_LEN (U128 1)) 1 56)) 56 = Some True
   \<and> trex_verify ref_trex_libs (replicate 32 255) (encode_seal ref_trex_libs
     (forged_seal ref_trex_libs (replicate 32 255) (replicate SEEDS_LEN (U128 1)) 1 56)) 56 = Some True"
  using chosen_key_forges [OF ref_trex.trex_node_axioms, of 56 "replicate SEEDS_LEN (U128 1)" 1] ref_nonce_meets
  by (simp del: SEEDS_LEN_176)

end
