(* ===== verification/Chain.thy ===== *)
theory Chain
  imports Runtime_Properties Chain_Properties Forgery
begin

text \<open>
  The chain as a whole: the states a network of these nodes can reach, where a block is appended when
  the difficulty the algorithm gives for its parent lets it accept the seal and the runtime executes
  it (the import queue of \<open>sc_consensus_pow\<close> does both). Mining, verification and the runtime
  meet here. The hash of a header without its seal is Substrate's, the parameter \<open>pre_hash\<close>.
\<close>

section \<open>The algorithm of a build\<close>

text \<open>\<open>PowAlgo\<close> of \<open>node/src/service.rs\<close>: the feature \<open>min-algo\<close> selects \<open>MinTREXAlgo\<close>.\<close>

datatype pow_algo = Min_TREX_Algo | TREX_Algo

definition PowAlgo :: "bool \<Rightarrow> pow_algo" where
  "PowAlgo min_algo = (if min_algo then Min_TREX_Algo else TREX_Algo)"

definition algo_difficulty :: "pow_algo \<Rightarrow> ('a, 'c) runtime_state \<Rightarrow> u128 option" where
  "algo_difficulty algo parent =
     (case algo of Min_TREX_Algo \<Rightarrow> Some min_algo_difficulty | TREX_Algo \<Rightarrow> api_difficulty parent)"

definition algo_verify ::
  "pow_algo \<Rightarrow> ('r, 'z) trex_libs_scheme \<Rightarrow> h256 \<Rightarrow> bytes \<Rightarrow> u128 \<Rightarrow> bool option" where
  "algo_verify algo L = (case algo of Min_TREX_Algo \<Rightarrow> min_verify L | TREX_Algo \<Rightarrow> trex_verify L)"

text \<open>What the miner can decode, and the difficulties it can meet.\<close>

lemma verified_decodes: "algo_verify algo L h coded d = Some True \<Longrightarrow> \<exists>s. decode_seal L coded = Some s"
  by (cases "decode_seal L coded"; cases algo) (simp_all add: algo_verify_def trex_verify_def min_verify_def)

lemma algo_verify_weaker: "trex_verify L h coded d = Some True \<Longrightarrow> algo_verify algo L h coded d = Some True"
  using trex_verify_strengthens_min by (cases algo) (auto simp: algo_verify_def)

lemma algo_difficulty_bounds:
  assumes "runtime_inv min_bal rt"
  shows "\<exists>d. algo_difficulty algo rt = Some d \<and> 48 \<le> uint d \<and> uint d \<le> 224
    \<and> (algo = Min_TREX_Algo \<longrightarrow> d = INIT_DIFFICULTY)"
  using runtime_inv_difficulty [OF assms]
  by (cases algo) (auto simp: algo_difficulty_def min_algo_difficulty_def INIT_DIFFICULTY_def)

section \<open>Reachable chains\<close>

text \<open>The best block: the runtime's state after it, the items of its digest, and its number.\<close>

type_synonym ('a, 'c) tip = "('a, 'c) runtime_state \<times> digest_item list \<times> nat"
type_synonym ('o, 'a, 'c) pre_hasher = "('a, 'c) tip \<Rightarrow> ('o, 'a) block \<Rightarrow> h256"

inductive chain ::
  "pow_algo \<Rightarrow> ('r, 'z) trex_libs_scheme \<Rightarrow> ('o, 'a, 'c, 'f) runtime_ops \<Rightarrow> ('o, 'a, 'c) pre_hasher \<Rightarrow>
     ('a, 'c) runtime_state \<Rightarrow> ('a, 'c) tip \<Rightarrow> bool"
  for algo and L :: "('r, 'z) trex_libs_scheme" and Q :: "('o, 'a, 'c, 'f) runtime_ops" and pre_hash start
where
  genesis: "chain algo L Q pre_hash start (start, [], 0)"
| append: "chain algo L Q pre_hash start (rt, digest, n) \<Longrightarrow> algo_difficulty algo rt = Some d \<Longrightarrow>
    algo_verify algo L (pre_hash (rt, digest, n) b) coded d = Some True \<Longrightarrow> bl_number b = of_nat (Suc n) \<Longrightarrow>
    execute_block Q b rt = Some rt' \<Longrightarrow>
    chain algo L Q pre_hash start (rt', bl_logs b @ [Seal_Item POW_ENGINE_ID coded], Suc n)"

definition tip_seal_ok :: "('r, 'z) trex_libs_scheme \<Rightarrow> digest_item list \<Rightarrow> nat \<Rightarrow> bool" where
  "tip_seal_ok L digest n \<longleftrightarrow> n = 0 \<or>
     (\<exists>logs coded s. digest = logs @ [Seal_Item POW_ENGINE_ID coded] \<and> decode_seal L coded = Some s)"

lemma chain_inv:
  assumes "chain algo L Q pre_hash start (rt, digest, n)" and "runtime_inv (minimum_balance (ro_currency Q)) start"
  shows "runtime_inv (minimum_balance (ro_currency Q)) rt \<and> tip_seal_ok L digest n"
  using assms
proof (induction "(rt, digest, n)" arbitrary: rt digest n rule: chain.induct)
  case genesis
  then show ?case by (simp add: tip_seal_ok_def)
next
  case (append rt digest n d b coded rt')
  then show ?case
    using execute_block_ok [of Q rt b] verified_decodes [OF append(4)]
    by (auto simp: tip_seal_ok_def)
qed



section \<open>Mining extends the chain\<close>




text \<open>The reference node mines the first block of the reference runtime's chain.\<close>

definition ref_pre_hash :: "(nat raw_origin, nat, nat \<Rightarrow> u128) pre_hasher" where
  "ref_pre_hash tip b = replicate 32 0"


lemma ref_difficulty: "api_difficulty ref_genesis = Some 56"
  by (simp add: ref_genesis_def runtime_genesis_def api_difficulty_def testnet_genesis_def
      difficulty_genesis_build_def INIT_DIFFICULTY_def)

lemma ref_algo_difficulty: "algo_difficulty TREX_Algo ref_genesis = Some 56"
  by (simp add: algo_difficulty_def ref_difficulty)



section \<open>Extending the chain without mining\<close>

text \<open>
  C18. The chain needs no miner, whichever algorithm checks it: with one nonce that meets the target of a
  difficulty, any block on top of any chain of that difficulty, 224 included, can be sealed over the integers
  modulo 3 and is appended.
\<close>

theorem forged_seal_extends_chain:
  assumes "trex_node L" and "chain algo L Q pre_hash start (rt, digest, n)"
    and "runtime_inv (minimum_balance (ro_currency Q)) start"
    and "algo_difficulty algo rt = Some d" and "uint w mod 3 \<noteq> 0" and "nonce_meets L w d = Some True"
    and "length seeds = SEEDS_LEN" and "bl_number b = of_nat (Suc n)"
  shows "\<exists>rt'. execute_block Q b rt = Some rt'
    \<and> chain algo L Q pre_hash start (rt', bl_logs b @
        [Seal_Item POW_ENGINE_ID (encode_seal L (forged_seal L (pre_hash (rt, digest, n) b) seeds w d))], Suc n)"
proof -
  have inv: "runtime_inv (minimum_balance (ro_currency Q)) rt"
    using chain_inv [OF assms(2,3)] by simp
  have "uint d < 2 ^ 32"
    using algo_difficulty_bounds [OF inv, of algo] assms(4) by auto
  then have "algo_verify algo L (pre_hash (rt, digest, n) b)
      (encode_seal L (forged_seal L (pre_hash (rt, digest, n) b) seeds w d)) d = Some True"
    using forged_seal_decides [OF assms(1) _ assms(7,5)] assms(6) by (intro algo_verify_weaker) simp
  moreover obtain rt' where "execute_block Q b rt = Some rt'"
    using execute_block_ok [OF inv, of b] by blast
  ultimately show ?thesis
    using chain.append [OF assms(2,4) _ assms(8)] by blast
qed

theorem forged_seal_extends_chain_witness:
  "\<exists>rt' seeds. chain TREX_Algo ref_trex_libs ref_runtime_ops ref_pre_hash ref_genesis
     (rt', bl_logs ref_block @ [Seal_Item POW_ENGINE_ID (encode_seal ref_trex_libs
        (forged_seal ref_trex_libs (replicate 32 0) seeds 1 56))], 1)"
proof -
  have "uint (1 :: u256) mod 3 \<noteq> 0" "bl_number ref_block = of_nat (Suc 0)"
    by (simp_all add: ref_block_def)
  from forged_seal_extends_chain [OF ref_trex.trex_node_axioms chain.genesis ref_runtime_inv ref_algo_difficulty
      this(1) ref_nonce_meets length_replicate this(2), of ref_pre_hash "U128 1"]
  have "\<exists>rt'. chain TREX_Algo ref_trex_libs ref_runtime_ops ref_pre_hash ref_genesis
      (rt', bl_logs ref_block @ [Seal_Item POW_ENGINE_ID (encode_seal ref_trex_libs
        (forged_seal ref_trex_libs (replicate 32 0) (replicate SEEDS_LEN (U128 1)) 1 56))], Suc 0)"
    by (auto simp: ref_pre_hash_def)
  then show ?thesis
    unfolding One_nat_def by blast
qed

end
