(* ===== verification/Rewards_Tests.thy ===== *)
theory Rewards_Tests
  imports Runtime_Properties
begin

text \<open>
  The mock runtime of the rewards pallet (\<open>pallets/rewards/src/mock.rs\<close>), the driver \<open>run_to_block\<close> and the
  reward curve of its tests (\<open>tests.rs\<close>), and the benchmark of the hook (\<open>benchmarking.rs\<close>). A run over many
  blocks pays every author by the schedule. Block numbers have the width of the runtime's pallet, 32
  bits, where the mock takes 64.
\<close>

section \<open>The mock runtime\<close>

text \<open>Accounts are \<open>u64\<close>, encoded in 8 bytes; the decoder ignores what follows them.\<close>

type_synonym account = u64

definition encode_account :: "account \<Rightarrow> bytes" where
  "encode_account who = le_digits 8 (uint who)"

definition decode_account :: "bytes \<Rightarrow> account option" where
  "decode_account bs = (if 8 \<le> length bs then Some (word_of_int (le_val (take 8 bs))) else None)"

definition mock_existential_deposit :: u128 where "mock_existential_deposit = 1"

abbreviation Balances :: "(account, account \<Rightarrow> u128) currency_ops" where
  "Balances \<equiv> balances_ops mock_existential_deposit"

record test_ext =
  te_number :: u32
  te_rewards :: "account rewards_storage"
  te_balances :: "account \<Rightarrow> u128"

text \<open>The digest of a block of the mock: one item, the author's.\<close>

definition author_digest :: "account \<Rightarrow> digest_item list" where
  "author_digest author = [Pre_Runtime POW_ENGINE_ID (encode_account author)]"

text \<open>\<open>System::initialize\<close> and \<open>Rewards::on_initialize\<close> of the block \<open>number\<close>; the hooks of \<open>Balances\<close> do nothing.\<close>

definition start_block :: "u32 \<Rightarrow> account \<Rightarrow> test_ext \<Rightarrow> test_ext" where
  "start_block number author ext =
     ext\<lparr>te_number := number,
         te_rewards := on_initialize decode_account (author_digest author) number (te_rewards ext)\<rparr>"

definition new_test_ext :: "account \<Rightarrow> test_ext" where
  "new_test_ext author =
     start_block 1 author
       \<lparr>te_number = 0, te_rewards = rewards_genesis_build 60 rewards_storage_empty, te_balances = (\<lambda>who. 0)\<rparr>"

definition finalize_block :: "test_ext \<Rightarrow> test_ext" where
  "finalize_block ext =
     (let (rewards, balances) = on_finalize Balances (te_rewards ext, te_balances ext)
      in ext\<lparr>te_rewards := rewards, te_balances := balances\<rparr>)"

lemma finalize_block_number [simp]: "te_number (finalize_block ext) = te_number ext"
  by (simp add: finalize_block_def split: prod.split)

lemma start_block_number [simp]: "te_number (start_block number author ext) = number"
  by (simp add: start_block_def)

lemma unat_next: "(x :: u32) < n \<Longrightarrow> unat (x + 1) = Suc (unat x)"
proof -
  assume less: "x < n"
  have "1 + x \<noteq> 0"
  proof
    assume "1 + x = 0"
    then have "x = - 1"
      by (metis add_eq_0_iff minus_minus)
    then show False
      using less by (simp add: leD)
  qed
  then show ?thesis
    using unatSuc [of x] by (simp add: add.commute)
qed

function run_to_block :: "u32 \<Rightarrow> account \<Rightarrow> test_ext \<Rightarrow> test_ext" where
  "run_to_block n author ext =
     (if te_number ext < n then
        (let ext = finalize_block ext;
             current_block = te_number ext + 1
         in run_to_block n author (start_block current_block author ext))
      else ext)"
  by auto

termination
  by (relation "measure (\<lambda>(n, author, ext). unat n - unat (te_number ext))")
    (auto simp: unat_next word_less_nat_alt)

declare run_to_block.simps [simp del]

definition test_curve :: "(u32 \<times> u128) list" where
  "test_curve = [(50, 20), (40, 25), (20, 50), (10, 100)]"

section \<open>One block\<close>

lemma decode_encode_account: "decode_account (encode_account who) = Some who"
proof -
  have "uint who mod 256 ^ 8 = uint who"
    using uint_lt2p [of who] by simp
  then show ?thesis
    by (simp add: decode_account_def encode_account_def le_val_le_digits)
qed

lemma author_digest_author: "digest_author decode_account (author_digest author) = Some author"
  by (simp add: digest_author_def author_digest_def as_pre_runtime_def decode_encode_account)

text \<open>The reward a schedule with the changes \<open>m\<close> gives a block, from the reward \<open>r\<close>.\<close>

definition reward_at :: "(u32, u128) btree_map \<Rightarrow> u128 \<Rightarrow> u32 \<Rightarrow> u128" where
  "reward_at m r n = (case rev (btree_range_to n m) of [] \<Rightarrow> r | (b, v) # due \<Rightarrow> v)"

lemma last_reward_at: "last_reward (btree_range_to n m) (Some r) = Some (reward_at m r n)"
  by (cases "btree_range_to n m" rule: rev_cases) (auto simp: last_reward_def reward_at_def)

text \<open>The value of the latest change at or before the block, and without one the reward stays.\<close>

lemma reward_at_latest:
  assumes "btree_ok m" and "map_of m b = Some v" and "b \<le> n" and "\<forall>b' \<in> dom (map_of m). b' \<le> n \<longrightarrow> b' \<le> b"
  shows "reward_at m r n = v"
proof -
  let ?s = "rewards_storage_empty\<lparr>rw_reward := Some r, rw_changes := Some m\<rparr>"
  have "\<forall>(b', v') \<in> set m. b' \<le> n \<longrightarrow> b' \<le> b" "(b, v) \<in> set m"
    using assms btree_ok_map_of [OF assms(1)] map_of_SomeD by fastforce+
  then have "rw_reward (mutate_changes n ?s) = Some v"
    using mutate_changes_scheduled [of ?s m n] assms(1,3) unfolding scheduled_def by auto
  then show ?thesis
    by (simp add: mutate_changes_eq due_changes_def last_reward_at)
qed

lemma reward_at_before: "\<forall>b \<in> dom (map_of m). n < b \<Longrightarrow> reward_at m r n = r"
proof -
  assume less: "\<forall>b \<in> dom (map_of m). n < b"
  have "n < b" if "(b, v) \<in> set m" for b v
    using less that by (auto simp: dom_map_of_conv_image_fst image_iff)
  then have "btree_range_to n m = []"
    by (auto simp: btree_range_to_def filter_empty_conv) (meson not_le)
  then show ?thesis
    by (simp add: reward_at_def)
qed

text \<open>A later block looks at the same list, from its start: what an earlier one applied does not matter.\<close>

lemma reward_at_again:
  assumes "k \<le> n"
  shows "reward_at m (reward_at m r k) n = reward_at m r n"
proof (cases "btree_range_to n m = []")
  case True
  then have "btree_range_to k m = []"
    using assms by (auto simp: btree_range_to_def filter_empty_conv)
  then show ?thesis
    by (simp add: reward_at_def)
next
  case False
  then obtain due x where "btree_range_to n m = due @ [x]"
    by (metis rev_exhaust)
  then show ?thesis
    by (simp add: reward_at_def split: prod.split)
qed

definition on_schedule :: "(u32, u128) btree_map \<Rightarrow> u128 \<Rightarrow> test_ext \<Rightarrow> bool" where
  "on_schedule m r ext \<longleftrightarrow> rw_changes (te_rewards ext) = Some m \<and> rw_reward (te_rewards ext) = Some r"

lemma on_schedule_block:
  assumes "on_schedule m r ext"
  shows "on_schedule m (reward_at m r n) (start_block n author (finalize_block ext))"
    and "rw_author (te_rewards (start_block n author (finalize_block ext))) = Some author"
  using assms
  by (auto simp: on_schedule_def start_block_def finalize_block_def on_finalize_def Let_def on_initialize_eq
      author_digest_author due_changes_def last_reward_at split: prod.split)

lemma finalize_block_pays:
  "te_balances (finalize_block ext) =
     (case rw_author (te_rewards ext) of None \<Rightarrow> te_balances ext
      | Some a \<Rightarrow> deposit_creating Balances a
          (case rw_reward (te_rewards ext) of Some r \<Rightarrow> r | None \<Rightarrow> 0) (te_balances ext))"
  by (auto simp: finalize_block_def on_finalize_def do_reward_def Let_def split: option.split)

lemma start_block_balances [simp]: "te_balances (start_block n author ext) = te_balances ext"
  by (simp add: start_block_def)

section \<open>Many blocks\<close>

definition next_block :: "account \<Rightarrow> test_ext \<Rightarrow> test_ext" where
  "next_block author ext = start_block (te_number ext + 1) author (finalize_block ext)"

lemma run_to_block_step:
  "te_number ext < n \<Longrightarrow> run_to_block n author ext = run_to_block n author (next_block author ext)"
  by (subst run_to_block.simps) (simp add: next_block_def Let_def)

lemma run_to_block_stop: "\<not> te_number ext < n \<Longrightarrow> run_to_block n author ext = ext"
  by (subst run_to_block.simps) simp

lemma next_block_number [simp]: "te_number (next_block author ext) = te_number ext + 1"
  by (simp add: next_block_def)

lemma next_le: "(x :: u32) < n \<Longrightarrow> x + 1 \<le> n"
  using unat_next [of x n] by (simp add: word_less_nat_alt word_le_nat_alt)

text \<open>Induction over the blocks of a run, from the last but one.\<close>

lemma run_induct [consumes 1, case_names Last Step]:
  assumes "te_number ext < (n :: u32)"
    and "\<And>ext. te_number ext < n \<Longrightarrow> te_number ext + 1 = n \<Longrightarrow> P ext"
    and "\<And>ext. te_number ext < n \<Longrightarrow> te_number ext + 1 < n \<Longrightarrow> P (next_block author ext) \<Longrightarrow> P ext"
  shows "P ext"
  using assms(1)
proof (induction "unat n - unat (te_number ext)" arbitrary: ext rule: less_induct)
  case less
  show ?case
  proof (cases "te_number ext + 1 = n")
    case True
    then show ?thesis
      using assms(2) less.prems by blast
  next
    case False
    then have lt: "te_number ext + 1 < n"
      using next_le [OF less.prems] by simp
    have "unat n - unat (te_number (next_block author ext)) < unat n - unat (te_number ext)"
      using less.prems unat_next [OF less.prems] by (simp add: word_less_nat_alt)
    then show ?thesis
      using assms(3) less.hyps [of "next_block author ext"] less.prems lt by simp
  qed
qed

lemma run_to_block_schedule:
  assumes "te_number ext < n" and "on_schedule m r ext"
  shows "te_number (run_to_block n author ext) = n
    \<and> on_schedule m (reward_at m r n) (run_to_block n author ext)
    \<and> rw_author (te_rewards (run_to_block n author ext)) = Some author"
  using assms
proof (induction ext arbitrary: r rule: run_induct [where author = author])
  case (Last ext r)
  then show ?case
    using on_schedule_block [OF Last.prems, of n author]
    by (simp add: run_to_block_step [OF Last.hyps(1)] run_to_block_stop) (simp add: next_block_def)
next
  case (Step ext r)
  have "on_schedule m (reward_at m r (te_number ext + 1)) (next_block author ext)"
    using on_schedule_block(1) [OF Step.prems] by (simp add: next_block_def)
  from Step.IH [OF this] show ?case
    by (simp add: run_to_block_step [OF Step.hyps(1)] reward_at_again [OF next_le [OF Step.hyps(1)]])
qed

text \<open>
  What a run pays: the block it starts in to the author pending there, the later ones, the last
  excepted, to the author of the run.
\<close>

definition later_rewards :: "(u32, u128) btree_map \<Rightarrow> u128 \<Rightarrow> u32 \<Rightarrow> u32 \<Rightarrow> int" where
  "later_rewards m r k n = (\<Sum>i\<leftarrow>[Suc (unat k)..<unat n]. uint (reward_at m r (of_nat i)))"

definition credit ::
  "(u32, u128) btree_map \<Rightarrow> u128 \<Rightarrow> u32 \<Rightarrow> u32 \<Rightarrow> account \<Rightarrow> account \<Rightarrow> account \<Rightarrow> int" where
  "credit m r k n pending author who =
     (if who = pending then uint r else 0) + (if who = author then later_rewards m r k n else 0)"

definition pays_all :: "(u32, u128) btree_map \<Rightarrow> u128 \<Rightarrow> bool" where
  "pays_all m r \<longleftrightarrow> mock_existential_deposit \<le> r \<and> (\<forall>(b, v) \<in> set m. mock_existential_deposit \<le> v)"

lemma later_rewards_last: "k < n \<Longrightarrow> k + 1 = n \<Longrightarrow> later_rewards m r k n = 0"
  using unat_next [of k n] by (simp add: later_rewards_def)

lemma later_rewards_step:
  assumes "k < n" and "k + 1 < n"
  shows "later_rewards m r k n =
    uint (reward_at m r (k + 1)) + later_rewards m (reward_at m r (k + 1)) (k + 1) n"
proof -
  have k: "unat (k + 1) = Suc (unat k)" "Suc (unat k) < unat n"
    using unat_next [OF assms(1)] assms(2) by (simp_all add: word_less_nat_alt)
  have "reward_at m (reward_at m r (k + 1)) (of_nat i) = reward_at m r (of_nat i)" if "Suc (unat k) \<le> i" "i < unat n" for i
  proof (rule reward_at_again)
    have "unat (of_nat i :: u32) = i"
      using that(2) unsigned_less [of n, where ?'a = nat] by (intro unat_of_nat_small) simp
    then show "k + 1 \<le> of_nat i"
      using that(1) k(1) by (simp add: word_le_nat_alt)
  qed
  then have "(\<Sum>i\<leftarrow>[Suc (Suc (unat k))..<unat n]. uint (reward_at m (reward_at m r (k + 1)) (of_nat i)))
      = (\<Sum>i\<leftarrow>[Suc (Suc (unat k))..<unat n]. uint (reward_at m r (of_nat i)))"
    by (intro arg_cong [where f = sum_list] map_cong) simp_all
  moreover have "of_nat (Suc (unat k)) = k + 1"
    by simp
  ultimately show ?thesis
    using upt_conv_Cons [OF k(2)] k(1) by (simp add: later_rewards_def del: of_nat_Suc)
qed

lemma reward_at_pays: "pays_all m r \<Longrightarrow> pays_all m (reward_at m r n)"
proof -
  assume ok: "pays_all m r"
  have "set (btree_range_to n m) \<subseteq> set m"
    by (auto simp: btree_range_to_def)
  then have "reward_at m r n = r \<or> (\<exists>b. (b, reward_at m r n) \<in> set m)"
    by (cases "btree_range_to n m" rule: rev_cases) (auto simp: reward_at_def)
  then show ?thesis
    using ok by (auto simp: pays_all_def)
qed

lemma later_rewards_nonneg: "0 \<le> later_rewards m r k n"
  unfolding later_rewards_def by (rule sum_list_nonneg) auto

lemma finalize_block_credits:
  assumes "on_schedule m r ext" and "pays_all m r" and "rw_author (te_rewards ext) = Some pending"
    and "uint (te_balances ext pending) + uint r < 2 ^ 128"
  shows "uint (te_balances (finalize_block ext) who) =
    uint (te_balances ext who) + (if who = pending then uint r else 0)"
proof -
  have eq: "te_balances (finalize_block ext) = deposit_creating Balances pending r (te_balances ext)"
    using assms(1,3) by (simp add: finalize_block_pays on_schedule_def)
  have "minimum_balance Balances \<le> r"
    using assms(2) by (simp add: pays_all_def balances_ops_def)
  then show ?thesis
    using balances.deposit_uint [of mock_existential_deposit r "te_balances ext" pending]
      balances.deposit_others [of who pending mock_existential_deposit r "te_balances ext"] assms(4)
    by (simp add: eq) (simp add: balances_ops_def)
qed

lemma run_to_block_pays:
  assumes "te_number ext < n" and "on_schedule m r ext" and "pays_all m r"
    and "rw_author (te_rewards ext) = Some pending"
    and "\<And>who. uint (te_balances ext who) + credit m r (te_number ext) n pending author who < 2 ^ 128"
  shows "uint (te_balances (run_to_block n author ext) who) =
    uint (te_balances ext who) + credit m r (te_number ext) n pending author who"
  using assms
proof (induction ext arbitrary: r pending rule: run_induct [where author = author])
  case (Last ext r pending)
  have none: "later_rewards m r (te_number ext) n = 0"
    by (rule later_rewards_last [OF Last.hyps])
  have "uint (te_balances ext pending) + uint r < 2 ^ 128"
    using Last.prems(4) [of pending] none by (simp add: credit_def split: if_split_asm)
  from finalize_block_credits [OF Last.prems(1-3) this] show ?case
    using Last.hyps by (simp add: run_to_block_step run_to_block_stop) (simp add: next_block_def credit_def none split: if_split)
next
  case (Step ext r pending)
  let ?k = "te_number ext" and ?r = "reward_at m r (te_number ext + 1)"
  have more: "later_rewards m r ?k n = uint ?r + later_rewards m ?r (?k + 1) n"
    by (rule later_rewards_step [OF Step.hyps])
  have "uint (te_balances ext pending) + uint r < 2 ^ 128"
    using Step.prems(4) [of pending] later_rewards_nonneg [of m r ?k n]
    by (simp add: credit_def split: if_split_asm)
  then have paid: "uint (te_balances (next_block author ext) who) =
      uint (te_balances ext who) + (if who = pending then uint r else 0)" for who
    using finalize_block_credits [OF Step.prems(1-3)] by (simp add: next_block_def)
  have credit: "uint (te_balances (next_block author ext) who) + credit m ?r (?k + 1) n author author who =
      uint (te_balances ext who) + credit m r ?k n pending author who" for who
    by (simp add: paid credit_def more)
  show ?case
    using Step.IH [of ?r author] on_schedule_block [OF Step.prems(1), of "?k + 1" author]
      reward_at_pays [OF Step.prems(2)] Step.prems(4) credit
    by (simp add: run_to_block_step [OF Step.hyps(1)]) (simp add: next_block_def)
qed

section \<open>What the tests promise\<close>

text \<open>
  C26. Over a run of blocks the reward follows the schedule: it is the value of the latest change at or
  before the block the run ends at, it stays what root set while every change lies ahead, and the
  author of that block is the one the digest names.
\<close>

theorem run_follows_schedule:
  assumes "te_number ext < n" and "on_schedule m r ext" and "btree_ok m"
  shows "(\<forall>b v. map_of m b = Some v \<and> b \<le> n \<and> (\<forall>b' \<in> dom (map_of m). b' \<le> n \<longrightarrow> b' \<le> b) \<longrightarrow>
      rw_reward (te_rewards (run_to_block n author ext)) = Some v)
    \<and> ((\<forall>b \<in> dom (map_of m). n < b) \<longrightarrow> rw_reward (te_rewards (run_to_block n author ext)) = Some r)
    \<and> rw_author (te_rewards (run_to_block n author ext)) = Some author
    \<and> te_number (run_to_block n author ext) = n"
  using run_to_block_schedule [OF assms(1,2), of author] reward_at_latest [OF assms(3), of _ _ n r]
    reward_at_before [of m n r]
  by (auto simp: on_schedule_def)

text \<open>The test \<open>curve_works\<close> up to its assertion that the schedule is empty in the end.\<close>

definition curve_map :: "(u32, u128) btree_map" where
  "curve_map = [(10, 100), (20, 50), (40, 25), (50, 20)]"

definition curve_ext :: test_ext where
  "curve_ext = (let ext = new_test_ext 1 in
     case set_schedule raw_origin_ops Balances Root 60 test_curve (te_rewards ext) of
       Inr s \<Rightarrow> ext\<lparr>te_rewards := s\<rparr> | Inl e \<Rightarrow> ext)"

lemma curve_ext_schedule: "on_schedule curve_map 60 curve_ext" "te_number curve_ext = 1" "btree_ok curve_map"
proof -
  have "btree_from_list test_curve = curve_map"
    by (simp add: btree_from_list_def test_curve_def curve_map_def)
  moreover have "\<forall>(b, r) \<in> set curve_map. mock_existential_deposit \<le> r"
    by (simp add: curve_map_def mock_existential_deposit_def)
  ultimately have "\<exists>s. set_schedule raw_origin_ops Balances Root 60 test_curve (te_rewards (new_test_ext 1)) = Inr s
      \<and> rw_changes s = Some curve_map \<and> rw_reward s = Some 60"
    by (simp add: set_schedule_Inr balances_ops_def mock_existential_deposit_def)
  then show "on_schedule curve_map 60 curve_ext" "te_number curve_ext = 1"
    by (auto simp: curve_ext_def Let_def on_schedule_def new_test_ext_def)
  show "btree_ok curve_map"
    by (simp add: btree_ok_def curve_map_def)
qed

theorem run_follows_schedule_witness:
  "list_all (\<lambda>(n, v). rw_reward (te_rewards (run_to_block n 1 curve_ext)) = Some v)
     [(9, 60), (10, 100), (20, 50), (30, 50), (40, 25), (50, 20), (100, 20)]"
proof -
  have at: "rw_reward (te_rewards (run_to_block n 1 curve_ext)) = Some v"
    if "1 < n" "map_of curve_map b = Some v" "b \<le> n" "\<forall>b' \<in> dom (map_of curve_map). b' \<le> n \<longrightarrow> b' \<le> b" for n b v
    using run_follows_schedule [of curve_ext n curve_map 60 1] curve_ext_schedule that by auto
  have "rw_reward (te_rewards (run_to_block 9 1 curve_ext)) = Some 60"
    using run_follows_schedule [of curve_ext 9 curve_map 60 1] curve_ext_schedule
    by (auto simp: curve_map_def split: if_splits)
  moreover note at [of 10 10] at [of 20 20] at [of 30 20] at [of 40 40] at [of 50 50] at [of 100 50]
  ultimately show ?thesis
    by (auto simp: curve_map_def split: if_splits)
qed

text \<open>
  C25. Every reward is paid, once, to the author it is due: a run credits the reward in force to the author
  pending at its start and those of the later blocks, the last excepted, to the author of the run, and
  nothing to anyone else.
\<close>

theorem run_pays_authors:
  assumes "te_number ext < n" and "on_schedule m r ext" and "pays_all m r"
    and "rw_author (te_rewards ext) = Some pending"
    and "\<And>who. uint (te_balances ext who) + credit m r (te_number ext) n pending author who < 2 ^ 128"
  shows "uint (te_balances (run_to_block n author ext) who) =
    uint (te_balances ext who)
      + (if who = pending then uint r else 0)
      + (if who = author then (\<Sum>i\<leftarrow>[Suc (unat (te_number ext))..<unat n]. uint (reward_at m r (of_nat i))) else 0)"
  using run_to_block_pays [OF assms] by (simp add: credit_def later_rewards_def)

text \<open>The curve, from block 1 to block 12: nine blocks of 60 and two of 100.\<close>

theorem run_pays_authors_witness:
  "uint (te_balances (run_to_block 12 2 curve_ext) 1) = 60 \<and> uint (te_balances (run_to_block 12 2 curve_ext) 2) = 680"
proof -
  have "rw_author (te_rewards (new_test_ext 1)) = Some 1" "te_balances (new_test_ext 1) = (\<lambda>who. 0)"
    by (simp_all add: new_test_ext_def) (simp add: start_block_def on_initialize_eq author_digest_author)
  then have start: "rw_author (te_rewards curve_ext) = Some 1" "te_balances curve_ext = (\<lambda>who. 0)"
    by (auto simp: curve_ext_def Let_def set_schedule_Inr split: sum.split)
  have pays: "pays_all curve_map 60"
    by (simp add: pays_all_def curve_map_def mock_existential_deposit_def)
  have sum: "(\<Sum>i\<leftarrow>[Suc (unat (1 :: u32))..<unat (12 :: u32)]. uint (reward_at curve_map 60 (of_nat i))) = 680"
    by (simp add: upt_rec reward_at_def curve_map_def btree_range_to_def)
  have "uint (te_balances curve_ext who) + credit curve_map 60 (te_number curve_ext) 12 1 2 who < 2 ^ 128" for who
    using sum curve_ext_schedule(2) start(2) by (simp add: credit_def later_rewards_def split: if_split)
  from run_pays_authors [OF _ curve_ext_schedule(1) pays start(1) this] show ?thesis
    using sum curve_ext_schedule(2) start(2) by simp
qed

section \<open>The benchmarks of the hooks\<close>

text \<open>
  Both cases end in their first assertion; the second one of \<open>on_finalize\<close> names a storage item that the
  pallet no longer has, and so does the benchmark of \<open>set_schedule\<close>.
\<close>

definition benchmark_on_initialize :: "account \<Rightarrow> test_ext \<Rightarrow> test_ext \<times> bool" where
  "benchmark_on_initialize author ext =
     (let logs = [Pre_Runtime POW_ENGINE_ID (encode_account author)];
          s = (te_rewards ext)\<lparr>rw_reward := Some (minimum_balance Balances)\<rparr>;
          block_number = te_number ext;
          s = on_initialize decode_account logs block_number s
      in (ext\<lparr>te_rewards := s\<rparr>, rw_author s = Some author))"

definition benchmark_on_finalize :: "account \<Rightarrow> test_ext \<Rightarrow> test_ext \<times> bool" where
  "benchmark_on_finalize author ext =
     (let reward = - 1;
          s = (te_rewards ext)\<lparr>rw_author := Some author, rw_reward := Some reward\<rparr>;
          (s, balances) = on_finalize Balances (s, te_balances ext)
      in (ext\<lparr>te_rewards := s, te_balances := balances\<rparr>, rw_author s = None))"

lemma benchmarks_verify: "snd (benchmark_on_initialize author ext)" "snd (benchmark_on_finalize author ext)"
  using author_digest_author [of author]
  by (auto simp: benchmark_on_initialize_def benchmark_on_finalize_def author_digest_def Let_def on_initialize_eq
      on_finalize_def)

end
