(* ===== verification/Executive.thy ===== *)
theory Executive
  imports Extrinsic Runtime_Properties
begin

text \<open>
  How \<open>runtime/src/lib.rs\<close> puts the runtime together: the pallets of \<open>construct_runtime!\<close> with the limits
  they are configured with, the methods of \<open>impl_runtime_apis!\<close> and the benchmarks. What Substrate's own
  pallets and its \<open>Executive\<close> do is a record of functions.
\<close>

section \<open>Pallets and limits\<close>

datatype pallet =
    System_Pallet | Randomness_Collective_Flip | Timestamp_Pallet | Balances_Pallet | Transaction_Payment_Pallet
  | Sudo_Pallet | Difficulty_Module | Storage_Module | TREX_Module | Rewards_Pallet

definition construct_runtime :: "pallet list" where
  "construct_runtime =
     [System_Pallet, Randomness_Collective_Flip, Timestamp_Pallet, Balances_Pallet, Transaction_Payment_Pallet,
      Sudo_Pallet, Difficulty_Module, Storage_Module, TREX_Module, Rewards_Pallet]"

text \<open>\<open>with_sensible_defaults\<close> and \<open>max_with_normal_ratio\<close> are \<open>frame_system\<close>'s; a \<open>Perbill\<close> counts billionths.\<close>

definition NORMAL_DISPATCH_RATIO :: u32 where "NORMAL_DISPATCH_RATIO = 75 * 10000000"

definition BlockWeights :: "(weight \<Rightarrow> u32 \<Rightarrow> 'w) \<Rightarrow> weight \<Rightarrow> 'w" where
  "BlockWeights with_sensible_defaults weight_per_second =
     with_sensible_defaults (2 * weight_per_second) NORMAL_DISPATCH_RATIO"

definition BlockLength :: "(u32 \<Rightarrow> u32 \<Rightarrow> 'l) \<Rightarrow> 'l" where
  "BlockLength max_with_normal_ratio = max_with_normal_ratio (5 * 1024 * 1024) NORMAL_DISPATCH_RATIO"

definition MaxConsumers :: u32 where "MaxConsumers = 16"
definition OperationalFeeMultiplier :: u8 where "OperationalFeeMultiplier = 5"

section \<open>The runtime APIs\<close>

text \<open>The state of the runtime: that of this repository's pallets, and \<open>'sys\<close>, that of Substrate's.\<close>

type_synonym ('a, 'c, 'sys) full_state = "('a, 'c) runtime_state \<times> 'sys"

datatype ('b, 'hd, 'x, 'd, 'src, 'a) api_call =
    Get_Sum | Get_Avg_Blocktime
  | Version | Execute_Block 'b | Initialize_Block 'hd
  | Metadata
  | Apply_Extrinsic 'x | Finalize_Block | Inherent_Extrinsics 'd | Check_Inherents 'b 'd
  | Validate_Transaction 'src 'x h256
  | Offchain_Worker 'hd
  | Generate_Session_Keys "bytes option" | Decode_Session_Keys bytes
  | Account_Nonce 'a
  | Query_Info 'x u32 | Query_Fee_Details 'x u32
  | Timestamp | Difficulty

text \<open>What a method returns; the encoded results of Substrate's are bytes.\<close>

datatype 'apis api_result =
    R_Unit | R_U32 u32 | R_U64 u64 | R_Difficulty u128 | R_Version "'apis runtime_version"
  | R_Keys "bytes" | R_Decoded_Keys "(bytes \<times> bytes) list option" | R_Opaque bytes

text \<open>\<open>Executive\<close>, \<open>System\<close>, \<open>Timestamp\<close>, \<open>TransactionPayment\<close> and \<open>InherentDataExt\<close>, over the whole state.\<close>

record ('st, 'b, 'hd, 'x, 'd, 'src, 'a) substrate_api =
  sa_execute_block :: "'b \<Rightarrow> 'st \<Rightarrow> 'st option"
  sa_initialize_block :: "'hd \<Rightarrow> 'st \<Rightarrow> 'st option"
  sa_metadata :: bytes
  sa_apply_extrinsic :: "'x \<Rightarrow> 'st \<Rightarrow> ('st \<times> bytes) option"
  sa_finalize_block :: "'st \<Rightarrow> ('st \<times> bytes) option"
  sa_create_extrinsics :: "'d \<Rightarrow> 'st \<Rightarrow> bytes option"
  sa_check_extrinsics :: "'d \<Rightarrow> 'b \<Rightarrow> 'st \<Rightarrow> bytes option"
  sa_validate_transaction :: "'src \<Rightarrow> 'x \<Rightarrow> h256 \<Rightarrow> 'st \<Rightarrow> ('st \<times> bytes) option"
  sa_offchain_worker :: "'hd \<Rightarrow> 'st \<Rightarrow> 'st option"
  sa_account_nonce :: "'a \<Rightarrow> 'st \<Rightarrow> u32"
  sa_query_info :: "'x \<Rightarrow> u32 \<Rightarrow> 'st \<Rightarrow> bytes option"
  sa_query_fee_details :: "'x \<Rightarrow> u32 \<Rightarrow> 'st \<Rightarrow> bytes option"
  sa_timestamp :: "'st \<Rightarrow> u64"

fun runtime_api ::
  "(('a, 'c, 'sys) full_state, 'b, 'hd, 'x, 'd, 'src, 'a) substrate_api \<Rightarrow> 'apis \<Rightarrow> ('b, 'hd, 'x, 'd, 'src, 'a) api_call \<Rightarrow>
     ('a, 'c, 'sys) full_state \<Rightarrow> (('a, 'c, 'sys) full_state \<times> 'apis api_result) option" where
  "runtime_api S apis Get_Sum st = Some (st, R_U32 (api_sum (fst st)))"
| "runtime_api S apis Get_Avg_Blocktime st = Some (st, R_U32 (api_avg_blocktime (fst st)))"
| "runtime_api S apis Version st = Some (st, R_Version (VERSION apis))"
| "runtime_api S apis (Execute_Block block) st = do { st \<leftarrow> sa_execute_block S block st; Some (st, R_Unit) }"
| "runtime_api S apis (Initialize_Block header) st = do { st \<leftarrow> sa_initialize_block S header st; Some (st, R_Unit) }"
| "runtime_api S apis Metadata st = Some (st, R_Opaque (sa_metadata S))"
| "runtime_api S apis (Apply_Extrinsic extrinsic) st = do { (st, r) \<leftarrow> sa_apply_extrinsic S extrinsic st; Some (st, R_Opaque r) }"
| "runtime_api S apis Finalize_Block st = do { (st, r) \<leftarrow> sa_finalize_block S st; Some (st, R_Opaque r) }"
| "runtime_api S apis (Inherent_Extrinsics data) st = do { r \<leftarrow> sa_create_extrinsics S data st; Some (st, R_Opaque r) }"
| "runtime_api S apis (Check_Inherents block data) st = do { r \<leftarrow> sa_check_extrinsics S data block st; Some (st, R_Opaque r) }"
| "runtime_api S apis (Validate_Transaction source tx block_hash) st = do {
     (st, r) \<leftarrow> sa_validate_transaction S source tx block_hash st; Some (st, R_Opaque r) }"
| "runtime_api S apis (Offchain_Worker header) st = do { st \<leftarrow> sa_offchain_worker S header st; Some (st, R_Unit) }"
| "runtime_api S apis (Generate_Session_Keys seed) st = Some (st, R_Keys (generate_session_keys seed))"
| "runtime_api S apis (Decode_Session_Keys encoded) st = Some (st, R_Decoded_Keys (decode_session_keys encoded))"
| "runtime_api S apis (Account_Nonce account) st = Some (st, R_U32 (sa_account_nonce S account st))"
| "runtime_api S apis (Query_Info uxt len) st = do { r \<leftarrow> sa_query_info S uxt len st; Some (st, R_Opaque r) }"
| "runtime_api S apis (Query_Fee_Details uxt len) st = do { r \<leftarrow> sa_query_fee_details S uxt len st; Some (st, R_Opaque r) }"
| "runtime_api S apis Timestamp st = Some (st, R_U64 (sa_timestamp S st))"
| "runtime_api S apis Difficulty st = do { d \<leftarrow> api_difficulty (fst st); Some (st, R_Difficulty d) }"

text \<open>A method that only asks leaves the state as it is.\<close>

fun asks_only :: "('b, 'hd, 'x, 'd, 'src, 'a) api_call \<Rightarrow> bool" where
  "asks_only (Execute_Block block) = False"
| "asks_only (Initialize_Block header) = False"
| "asks_only (Apply_Extrinsic extrinsic) = False"
| "asks_only Finalize_Block = False"
| "asks_only (Validate_Transaction source tx block_hash) = False"
| "asks_only (Offchain_Worker header) = False"
| "asks_only call = True"

lemma api_asks_only: "asks_only call \<Longrightarrow> runtime_api S apis call st = Some (st', r) \<Longrightarrow> st' = st"
  by (cases call) (auto simp: bind_eq_Some_conv)

text \<open>The difficulty method panics exactly on a state without a difficulty; a state of the chain has one.\<close>

lemma api_difficulty_panics:
  "runtime_api S apis Difficulty st = None \<longleftrightarrow> current_difficulty (rt_difficulty (fst st)) = None"
  by (cases "api_difficulty (fst st)") (simp_all add: api_difficulty_def)

lemma api_difficulty_answers:
  assumes "runtime_inv min_bal (fst st)"
  shows "\<exists>d. runtime_api S apis Difficulty st = Some (st, R_Difficulty d) \<and> 48 \<le> uint d \<and> uint d \<le> 224"
  using runtime_inv_difficulty [OF assms] by auto

section \<open>Signed extensions\<close>

text \<open>
  The tuple \<open>SignedExtra\<close>, with the data of the extensions that have any, and the implicit data
  \<open>command_helper.rs\<close> signs along with it.
\<close>

datatype 'era signed_extension =
    Check_Non_Zero_Sender | Check_Spec_Version | Check_Tx_Version | Check_Genesis | Check_Era 'era
  | Check_Nonce u32 | Check_Weight | Charge_Transaction_Payment u128

datatype 'h additional = No_Additional | Version_Number u32 | Block_Hash 'h

definition SignedExtra :: "'era signed_extra \<Rightarrow> 'era signed_extension list" where
  "SignedExtra e =
     [Check_Non_Zero_Sender, Check_Spec_Version, Check_Tx_Version, Check_Genesis, Check_Era (se_era e),
      Check_Nonce (se_nonce e), Check_Weight, Charge_Transaction_Payment (se_tip e)]"

definition implicit_tuple :: "'h additional_signed \<Rightarrow> 'h additional list" where
  "implicit_tuple a =
     [No_Additional, Version_Number (ad_spec_version a), Version_Number (ad_transaction_version a),
      Block_Hash (ad_genesis_hash a), Block_Hash (ad_era_hash a), No_Additional, No_Additional, No_Additional]"

text \<open>What an extension of Substrate adds to the payload, at a runtime of version \<open>v\<close>.\<close>

fun additional_of :: "'api runtime_version \<Rightarrow> 'h \<Rightarrow> ('era \<Rightarrow> 'h) \<Rightarrow> 'era signed_extension \<Rightarrow> 'h additional" where
  "additional_of v genesis birth_hash Check_Spec_Version = Version_Number (rv_spec_version v)"
| "additional_of v genesis birth_hash Check_Tx_Version = Version_Number (rv_transaction_version v)"
| "additional_of v genesis birth_hash Check_Genesis = Block_Hash genesis"
| "additional_of v genesis birth_hash (Check_Era era) = Block_Hash (birth_hash era)"
| "additional_of v genesis birth_hash e = No_Additional"

text \<open>The implicit data stand at the places of the extensions they belong to.\<close>

lemma implicit_tuple_matches:
  assumes "ad_spec_version a = rv_spec_version (VERSION apis)"
    and "ad_transaction_version a = rv_transaction_version (VERSION apis)"
    and "ad_genesis_hash a = genesis" and "ad_era_hash a = birth_hash (se_era e)"
  shows "implicit_tuple a = map (additional_of (VERSION apis) genesis birth_hash) (SignedExtra e)"
  using assms by (simp add: implicit_tuple_def SignedExtra_def)

section \<open>Benchmarks\<close>

datatype benchmarked = Baseline_Bench | System_Bench | Pallet_Bench pallet

definition benchmark_metadata :: "(string \<times> benchmarked) list" where
  "benchmark_metadata =
     [(''frame_benchmarking'', Baseline_Bench), (''frame_system'', System_Bench),
      (''pallet_balances'', Pallet_Bench Balances_Pallet), (''pallet_timestamp'', Pallet_Bench Timestamp_Pallet),
      (''pallet_difficulty'', Pallet_Bench Difficulty_Module), (''pallet_trex'', Pallet_Bench TREX_Module)]"

text \<open>\<open>add\<close> is \<open>add_benchmark!\<close>: it appends the batches of one entry, or returns its error.\<close>

definition whitelist :: "string list" where
  "whitelist =
     [''26aa394eea5630e07c48ae0c9558cef702a5c1b19ab7a04f536c519aca4983ac'',
      ''c2261276cc9d1f8598ea4b6a74b15c2f57c875e4cff74148e4628f264b974c80'',
      ''26aa394eea5630e07c48ae0c9558cef7ff553b5a9862a516939d82b3d3d8661a'',
      ''26aa394eea5630e07c48ae0c9558cef70a98fdbe9ce6c55837576c60c7af3850'',
      ''26aa394eea5630e07c48ae0c9558cef780d41e5e16056765bc8461851072c9d7'']"

definition dispatch_benchmark ::
  "(string list \<Rightarrow> string \<Rightarrow> benchmarked \<Rightarrow> 'm list \<Rightarrow> string + 'm list) \<Rightarrow> string + 'm list" where
  "dispatch_benchmark add =
     (let params = whitelist
      in bind_result (add params ''frame_benchmarking'' Baseline_Bench []) (\<lambda>batches.
         bind_result (add params ''frame_system'' System_Bench batches) (\<lambda>batches.
         bind_result (add params ''pallet_balances'' (Pallet_Bench Balances_Pallet) batches) (\<lambda>batches.
         bind_result (add params ''pallet_timestamp'' (Pallet_Bench Timestamp_Pallet) batches) (\<lambda>batches.
         bind_result (add params ''pallet_difficulty'' (Pallet_Bench Difficulty_Module) batches) (\<lambda>batches.
         bind_result (add params ''pallet_trex'' (Pallet_Bench TREX_Module) batches) (\<lambda>batches. Inr batches)))))))"

fun run_entries ::
  "(string \<Rightarrow> 'b \<Rightarrow> 'm list \<Rightarrow> 'e + 'm list) \<Rightarrow> (string \<times> 'b) list \<Rightarrow> 'm list \<Rightarrow> 'e + 'm list" where
  "run_entries add [] batches = Inr batches"
| "run_entries add ((name, bench) # entries) batches =
     bind_result (add name bench batches) (run_entries add entries)"

text \<open>What the command lists is what it runs, in that order; the rewards and storage pallets are in neither.\<close>

lemma dispatch_runs_metadata: "dispatch_benchmark add = run_entries (add whitelist) benchmark_metadata []"
  by (simp add: dispatch_benchmark_def benchmark_metadata_def Let_def bind_result_def split: sum.split)

lemma benchmarks_without_rewards:
  "Pallet_Bench Rewards_Pallet \<notin> snd ` set benchmark_metadata"
  "Pallet_Bench Storage_Module \<notin> snd ` set benchmark_metadata"
  by (simp_all add: benchmark_metadata_def)

end
