(* ===== verification/Rpc.thy ===== *)
theory Rpc
  imports Node Executive
begin

text \<open>
  The RPC server of a node, from a method's name to the storage of a pallet: the methods that
  \<open>pallets/difficulty/rpc\<close> and \<open>pallets/storage/rpc\<close> declare, their registration by \<open>create_full\<close>
  (\<open>node/src/rpc.rs\<close>), and the runtime API (\<open>impl_runtime_apis!\<close>) they call at a block.
\<close>

section \<open>Method tables\<close>

type_synonym ('h, 'v) rpc_method = "string \<times> ('h option \<Rightarrow> rpc_error + 'v)"

definition diff_adjustment_rpc :: "('e \<Rightarrow> string) \<Rightarrow> ('h, 'e) rpc_client \<Rightarrow> ('h, u32) rpc_method list" where
  "diff_adjustment_rpc debug client = [(''difficulty_getAvgBlockTime'', rpc_get_avg_blocktime debug client)]"

definition sum_storage_rpc :: "('h, 'e) rpc_client \<Rightarrow> ('h, u32) rpc_method list" where
  "sum_storage_rpc client = [(''sumStorage_getSum'', rpc_get_sum client)]"

text \<open>The tables of Substrate's two modules, and \<open>RpcModule::merge\<close>, which refuses a name that is taken.\<close>

record ('h, 'e) substrate_rpc =
  sr_system :: "('h, 'e) rpc_client \<Rightarrow> ('h, u32) rpc_method list"
  sr_payment :: "('h, 'e) rpc_client \<Rightarrow> ('h, u32) rpc_method list"

fun methods_of ::
  "('h, 'e) substrate_rpc \<Rightarrow> ('e \<Rightarrow> string) \<Rightarrow> (('h, 'e) rpc_client, 'p) rpc_module \<Rightarrow> ('h, u32) rpc_method list" where
  "methods_of S debug (System client pool deny_unsafe) = sr_system S client"
| "methods_of S debug (Transaction_Payment client) = sr_payment S client"
| "methods_of S debug (Diff_Adjustment client) = diff_adjustment_rpc debug client"
| "methods_of S debug (Sum_Storage client) = sum_storage_rpc client"

definition merge_methods ::
  "('h, 'e) substrate_rpc \<Rightarrow> ('e \<Rightarrow> string) \<Rightarrow> (('h, 'e) rpc_client, 'p) rpc_module \<Rightarrow> ('h, u32) rpc_method list \<Rightarrow>
     string + ('h, u32) rpc_method list" where
  "merge_methods S debug m methods =
     (case filter (\<lambda>name. name \<in> fst ` set methods) (map fst (methods_of S debug m)) of
        [] \<Rightarrow> Inr (methods @ methods_of S debug m)
      | name # taken \<Rightarrow> Inl (''Method already registered: '' @ name))"

section \<open>The client\<close>

text \<open>A call of the runtime at a block: \<open>states\<close> knows the blocks, and a panic of the runtime is an error.\<close>

datatype api_error = Unknown_Block | Runtime_Panicked | Bad_Encoding

definition call_u32 ::
  "(('a, 'c, 'sys) full_state, 'b, 'hd, 'x, 'd, 'src, 'a) substrate_api \<Rightarrow> ('h \<Rightarrow> ('a, 'c, 'sys) full_state option) \<Rightarrow>
     ('b, 'hd, 'x, 'd, 'src, 'a) api_call \<Rightarrow> 'h \<Rightarrow> api_error + u32" where
  "call_u32 S states call h =
     (case states h of
        None \<Rightarrow> Inl Unknown_Block
      | Some st \<Rightarrow>
          (case runtime_api S () call st of
             None \<Rightarrow> Inl Runtime_Panicked
           | Some (st', R_U32 v) \<Rightarrow> Inr v
           | Some (st', r) \<Rightarrow> Inl Bad_Encoding))"

definition node_client ::
  "(('a, 'c, 'sys) full_state, 'b, 'hd, 'x, 'd, 'src, 'a) substrate_api \<Rightarrow> ('h \<Rightarrow> ('a, 'c, 'sys) full_state option) \<Rightarrow>
     'h \<Rightarrow> ('h, api_error) rpc_client" where
  "node_client S states best =
     \<lparr>best_hash = best, api_get_sum = call_u32 S states Get_Sum,
      api_get_avg_blocktime = call_u32 S states Get_Avg_Blocktime\<rparr>"

section \<open>What a request is answered\<close>

lemma merge_methods_Inr:
  "merge_methods S debug m methods = Inr methods' \<longleftrightarrow>
     (\<forall>name \<in> fst ` set (methods_of S debug m). name \<notin> fst ` set methods)
     \<and> methods' = methods @ methods_of S debug m"
proof (cases "filter (\<lambda>name. name \<in> fst ` set methods) (map fst (methods_of S debug m))")
  case Nil
  then have "\<forall>name \<in> fst ` set (methods_of S debug m). name \<notin> fst ` set methods"
    unfolding filter_empty_conv by simp
  moreover have "merge_methods S debug m methods = Inr methods' \<longleftrightarrow> methods' = methods @ methods_of S debug m"
    unfolding merge_methods_def Nil by auto
  ultimately show ?thesis by blast
next
  case (Cons name taken)
  then have "name \<in> fst ` set (methods_of S debug m)" "name \<in> fst ` set methods"
    using filter_is_subset [of "\<lambda>name. name \<in> fst ` set methods" "map fst (methods_of S debug m)"]
      filter_set [of "\<lambda>name. name \<in> fst ` set methods" "map fst (methods_of S debug m)"] by auto
  moreover have "merge_methods S debug m methods \<noteq> Inr methods'"
    unfolding merge_methods_def Cons by simp
  ultimately show ?thesis by blast
qed

text \<open>A name that is new to a table is looked up behind it.\<close>

lemma map_of_behind: "k \<notin> fst ` set xs \<Longrightarrow> map_of (xs @ ys) k = map_of ys k"
  by (simp add: map_add_def map_of_eq_None_iff [THEN iffD2] split: option.split)

lemma create_full_Inr:
  assumes "create_full (merge_methods S debug) [] \<lparr>fd_client = client, fd_pool = pool, fd_deny_unsafe = deny\<rparr> = Inr methods"
  shows "methods = sr_system S client @ sr_payment S client @ diff_adjustment_rpc debug client @ sum_storage_rpc client"
    and "''difficulty_getAvgBlockTime'' \<notin> fst ` set (sr_system S client @ sr_payment S client)"
    and "''sumStorage_getSum'' \<notin> fst ` set (sr_system S client @ sr_payment S client)"
  using assms
  by (auto simp: create_full_def bind_result_Inr merge_methods_Inr diff_adjustment_rpc_def sum_storage_rpc_def)

text \<open>
  C32. From a request to the storage: once \<open>create_full\<close> has registered its four modules, the average block
  time and the sum are answered, by name, with what the pallets compute from the state of the
  block asked for, of the best block if none is; an unknown block is the error \<open>InvalidParams\<close>.
\<close>

theorem rpc_answers_from_state:
  assumes "create_full (merge_methods S debug) []
      \<lparr>fd_client = node_client A states best, fd_pool = pool, fd_deny_unsafe = deny\<rparr> = Inr methods"
  shows "\<exists>avg sum. map_of methods ''difficulty_getAvgBlockTime'' = Some avg
    \<and> map_of methods ''sumStorage_getSum'' = Some sum
    \<and> (\<forall>h. let asked = (case h of Some b \<Rightarrow> b | None \<Rightarrow> best) in
        case states asked of
          Some st \<Rightarrow> avg h = Inr (get_avg_blocktime TargetBlockTime (rt_difficulty (fst st)))
            \<and> sum h = Inr (storage_get_sum (rt_things (fst st)))
        | None \<Rightarrow> (\<exists>m. avg h = Inl (Invalid_Params m)) \<and> (\<exists>m. sum h = Inl (Invalid_Params m)))"
proof -
  let ?c = "node_client A states best"
  note made = create_full_Inr [OF assms]
  have "map_of methods ''difficulty_getAvgBlockTime'' = Some (rpc_get_avg_blocktime debug ?c)"
    "map_of methods ''sumStorage_getSum'' = Some (rpc_get_sum ?c)"
    using map_of_behind [OF made(2), of "diff_adjustment_rpc debug ?c @ sum_storage_rpc ?c"]
      map_of_behind [OF made(3), of "diff_adjustment_rpc debug ?c @ sum_storage_rpc ?c"]
    by (simp_all only: made(1) append_assoc) (simp_all add: diff_adjustment_rpc_def sum_storage_rpc_def)
  moreover have "case states (case h of Some b \<Rightarrow> b | None \<Rightarrow> best) of
          Some st \<Rightarrow> rpc_get_avg_blocktime debug ?c h = Inr (get_avg_blocktime TargetBlockTime (rt_difficulty (fst st)))
            \<and> rpc_get_sum ?c h = Inr (storage_get_sum (rt_things (fst st)))
        | None \<Rightarrow> (\<exists>m. rpc_get_avg_blocktime debug ?c h = Inl (Invalid_Params m))
            \<and> (\<exists>m. rpc_get_sum ?c h = Inl (Invalid_Params m))" for h
    by (auto simp: rpc_get_avg_blocktime_def rpc_get_sum_def node_client_def call_u32_def api_sum_def
        api_avg_blocktime_def Let_def split: option.split)
  ultimately show ?thesis
    unfolding Let_def by blast
qed

text \<open>The two modules of Substrate with the names they have, over handlers that do not matter here.\<close>

definition ref_substrate_rpc :: "(nat, api_error) substrate_rpc" where
  "ref_substrate_rpc =
     \<lparr>sr_system = (\<lambda>client. [(''system_accountNextIndex'', \<lambda>h. Inr 0), (''system_dryRun'', \<lambda>h. Inr 0)]),
      sr_payment = (\<lambda>client. [(''payment_queryInfo'', \<lambda>h. Inr 0), (''payment_queryFeeDetails'', \<lambda>h. Inr 0)])\<rparr>"

definition ref_api :: "((nat, nat \<Rightarrow> u128, unit) full_state, unit, unit, unit, unit, unit, nat) substrate_api" where
  "ref_api =
     \<lparr>sa_execute_block = (\<lambda>b. Some), sa_initialize_block = (\<lambda>hd. Some), sa_metadata = [],
      sa_apply_extrinsic = (\<lambda>x st. Some (st, [])), sa_finalize_block = (\<lambda>st. Some (st, [])),
      sa_create_extrinsics = (\<lambda>d st. Some []), sa_check_extrinsics = (\<lambda>d b st. Some []),
      sa_validate_transaction = (\<lambda>src x h st. Some (st, [])), sa_offchain_worker = (\<lambda>hd. Some),
      sa_account_nonce = (\<lambda>a st. 0), sa_query_info = (\<lambda>x len st. Some []),
      sa_query_fee_details = (\<lambda>x len st. Some []), sa_timestamp = (\<lambda>st. 0)\<rparr>"

lemma ref_create_full:
  "\<exists>methods. create_full (merge_methods ref_substrate_rpc debug) []
     \<lparr>fd_client = client, fd_pool = pool, fd_deny_unsafe = deny\<rparr> = Inr methods"
  by (simp add: create_full_def merge_methods_def ref_substrate_rpc_def diff_adjustment_rpc_def sum_storage_rpc_def)

theorem rpc_answers_from_state_witness:
  "\<exists>methods avg. create_full (merge_methods ref_substrate_rpc (\<lambda>e. ''error'')) []
      \<lparr>fd_client = node_client ref_api (\<lambda>h. if h = 0 then Some (ref_genesis, ()) else None) 0, fd_pool = (), fd_deny_unsafe = True\<rparr>
        = Inr methods
    \<and> map_of methods ''difficulty_getAvgBlockTime'' = Some avg \<and> avg None = Inr 59
    \<and> (\<exists>m. avg (Some 7) = Inl (Invalid_Params m))"
proof -
  let ?c = "node_client ref_api (\<lambda>h. if h = 0 then Some (ref_genesis, ()) else None) (0 :: nat)"
  obtain methods where made: "create_full (merge_methods ref_substrate_rpc (\<lambda>e. ''error'')) []
      \<lparr>fd_client = ?c, fd_pool = (), fd_deny_unsafe = True\<rparr> = Inr methods"
    using ref_create_full [of "\<lambda>e. ''error''" ?c "()" True] by blast
  have "get_avg_blocktime TargetBlockTime (rt_difficulty ref_genesis) = 59"
    unfolding ref_genesis_def runtime_genesis_def testnet_genesis_def by code_simp
  moreover obtain avg sum where "map_of methods ''difficulty_getAvgBlockTime'' = Some avg"
    and "\<forall>h. let asked = (case h of Some b \<Rightarrow> b | None \<Rightarrow> 0) in
        case (if asked = 0 then Some (ref_genesis, ()) else None) of
          Some st \<Rightarrow> avg h = Inr (get_avg_blocktime TargetBlockTime (rt_difficulty (fst st)))
            \<and> sum h = Inr (storage_get_sum (rt_things (fst st)))
        | None \<Rightarrow> (\<exists>m. avg h = Inl (Invalid_Params m)) \<and> (\<exists>m. sum h = Inl (Invalid_Params m))"
    using rpc_answers_from_state [OF made] by blast
  moreover from this(2) [rule_format, of None] this(2) [rule_format, of "Some 7"]
  have "avg None = Inr (get_avg_blocktime TargetBlockTime (rt_difficulty ref_genesis))"
    "\<exists>m. avg (Some 7) = Inl (Invalid_Params m)"
    by simp_all
  ultimately show ?thesis
    using made by auto
qed

end
