(* ===== verification/Entry.thy ===== *)
theory Entry
  imports Command Extrinsic
begin

text \<open>
  The entry of the program: \<open>main\<close> (\<open>node/src/main.rs\<close>) and what the command line says of itself, the
  implementation of \<open>SubstrateCli\<close> in \<open>node/src/command.rs\<close>. The build fixes the environment variables.
  Then what \<open>node/src/service.rs\<close> gives the executor, \<open>ExecutorDispatch\<close>, and the block import,
  \<open>CreateInherentDataProviders\<close>.
\<close>

record substrate_cli =
  sc_impl_name :: string
  sc_impl_version :: string
  sc_description :: string
  sc_author :: string
  sc_support_url :: string
  sc_copyright_start_year :: int

definition substrate_cli_of :: "(string \<Rightarrow> string) \<Rightarrow> substrate_cli" where
  "substrate_cli_of env =
     \<lparr>sc_impl_name = ''TREX PoW Node'', sc_impl_version = env ''SUBSTRATE_CLI_IMPL_VERSION'',
      sc_description = env ''CARGO_PKG_DESCRIPTION'', sc_author = env ''CARGO_PKG_AUTHORS'',
      sc_support_url = ''https://github.com/NexTokenTech/TREX/issues'', sc_copyright_start_year = 2019\<rparr>"

definition native_runtime_version :: "'spec \<Rightarrow> 'api \<Rightarrow> 'api runtime_version" where
  "native_runtime_version spec apis = VERSION apis"

text \<open>\<open>Cli::from_args\<close> ends the process on arguments it cannot parse: \<open>None\<close>.\<close>

definition main_program ::
  "('k, 'c, 'z) cli_ops_scheme \<Rightarrow> (string list \<Rightarrow> 'c cli option) \<Rightarrow> string list \<Rightarrow>
     ('c service \<times> (string + unit)) option" where
  "main_program A from_args args = do {
     cli \<leftarrow> from_args args;
     Some (run A cli service_empty) }"

text \<open>
  Only a build with the feature \<open>runtime-benchmarks\<close> adds host functions. \<open>dispatch\<close> is the function
  \<open>impl_runtime_apis!\<close> generates.
\<close>

definition extend_host_functions :: "bool \<Rightarrow> 'host \<Rightarrow> 'host option" where
  "extend_host_functions with_benchmarks benchmarking = (if with_benchmarks then Some benchmarking else None)"

definition executor_dispatch ::
  "(string \<Rightarrow> bytes \<Rightarrow> bytes option) \<Rightarrow> string \<Rightarrow> bytes \<Rightarrow> bytes option" where
  "executor_dispatch api_dispatch method data = api_dispatch method data"

definition executor_native_version :: "'api \<Rightarrow> 'api native_version" where
  "executor_native_version apis = native_version apis"

text \<open>The provider of the timestamp is the same for every parent; \<open>now\<close> is the system time.\<close>

definition create_inherent_data_providers :: "'time \<Rightarrow> 'hash \<Rightarrow> unit \<Rightarrow> string + 'time" where
  "create_inherent_data_providers now parent extra_args = Inr now"

text \<open>The version the command line reports is that of the native runtime the node executes.\<close>

lemma native_version_agrees:
  "native_runtime_version spec apis = nv_runtime_version (executor_native_version apis)"
  by (simp add: native_runtime_version_def executor_native_version_def native_version_def)

end
