(* ===== verification/Solver_Steps.thy ===== *)
theory Solver_Steps
  imports Solver
begin

text \<open>
  \<open>solve_dist\<close> action by action (\<open>consensus/trex-pow/src/algorithm.rs\<close>). The flag it polls is shared,
  so an action is what the solver does up to and including one access to the flag; the walk between
  two accesses is local. The lemmas show that a run of the actions computes the function
  \<open>solve_dist\<close> of the values it loads, in at most \<open>4 n + 5\<close> actions, and that it gives up at most
  \<open>2 grain + 3\<close> actions after the flag is set.
\<close>

section \<open>The actions\<close>

datatype 'c dist_pc =
    Apart nat rho_state rho_state 'c 'c u32           \<comment> \<open>at the first \<open>while &i < &n\<close>\<close>
  | Apart_Load nat rho_state rho_state 'c 'c          \<comment> \<open>before the load of its loop\<close>
  | Together nat rho_state rho_state 'c 'c u32        \<comment> \<open>at the second \<open>while &i < &n\<close>\<close>
  | Together_Load nat rho_state rho_state 'c 'c bool  \<comment> \<open>before the first load of its loop, and \<open>overflowed_1\<close>\<close>
  | Point_Load rho_state rho_state 'c                 \<comment> \<open>at a distinguished point, before the load\<close>
  | Store_Found "int solutions" 'c                    \<comment> \<open>before \<open>flag.store(true)\<close>\<close>
  | Dist_Returned "int solutions option" 'c
  | Dist_Crashed

definition dist_start :: "('r, 'z) libs_scheme \<Rightarrow> public_key \<Rightarrow> 'c \<Rightarrow> int \<Rightarrow> 'c dist_pc" where
  "dist_start L k compute seed =
     (case from_pub_key L k seed of
        None \<Rightarrow> Dist_Crashed
      | Some s \<Rightarrow> Apart (search_len L k) s s compute compute 0)"

text \<open>The end of an iteration of the first loop.\<close>

definition compare_apart ::
  "nat \<Rightarrow> nat \<Rightarrow> rho_state \<Rightarrow> rho_state \<Rightarrow> 'c \<Rightarrow> 'c \<Rightarrow> u32 \<Rightarrow> 'c dist_pc" where
  "compare_apart n m s1 s2 c1 c2 counter =
     (if st_work s1 = st_work s2 then
        (if st_solution s1 \<noteq> st_solution s2 then Together n s1 s2 c1 c2 0 else Dist_Returned None c1)
      else Apart m s1 s2 c1 c2 (counter + 1))"

text \<open>The end of an iteration of the second loop.\<close>

definition test_point ::
  "nat \<Rightarrow> rho_state \<Rightarrow> rho_state \<Rightarrow> 'c \<Rightarrow> 'c \<Rightarrow> bool \<Rightarrow> u32 \<Rightarrow> 'c dist_pc" where
  "test_point m s1 s2 c1 c2 overflowed_1 counter =
     (if \<not> overflowed_1 then Point_Load s1 s2 c1 else Together m s1 s2 c1 c2 (counter + 1))"

definition walk_apart ::
  "('r, 'z) libs_scheme \<Rightarrow> 'c hash_trait \<Rightarrow> public_key \<Rightarrow> u32 \<Rightarrow> nat \<Rightarrow> rho_state \<Rightarrow> rho_state \<Rightarrow>
     'c \<Rightarrow> 'c \<Rightarrow> u32 \<Rightarrow> 'c dist_pc option" where
  "walk_apart L H k grain m s1 s2 c1 c2 counter = do {
     (s1, c1) \<leftarrow> step L H s1 c1;
     (s2, c2) \<leftarrow> step L H s2 c2;
     (s2, c2) \<leftarrow> step L H s2 c2;
     Some (if grain \<le> counter then Apart_Load m s1 s2 c1 c2
           else compare_apart (search_len L k) m s1 s2 c1 c2 counter) }"

definition walk_together ::
  "('r, 'z) libs_scheme \<Rightarrow> 'c hash_trait \<Rightarrow> public_key \<Rightarrow> u32 \<Rightarrow> nat \<Rightarrow> rho_state \<Rightarrow> rho_state \<Rightarrow>
     'c \<Rightarrow> 'c \<Rightarrow> u32 \<Rightarrow> 'c dist_pc option" where
  "walk_together L H k grain m s1 s2 c1 c2 counter = do {
     (s1, c1) \<leftarrow> step L H s1 c1;
     (s2, c2) \<leftarrow> step L H s2 c2;
     overflowed_1 \<leftarrow> overflowed L s1 (hash_diff k);
     Some (if grain \<le> counter then Together_Load m s1 s2 c1 c2 overflowed_1
           else test_point m s1 s2 c1 c2 overflowed_1 counter) }"

definition or_crash :: "'c dist_pc option \<Rightarrow> 'c dist_pc" where
  "or_crash r = (case r of None \<Rightarrow> Dist_Crashed | Some pc \<Rightarrow> pc)"

text \<open>\<open>found\<close> is the flag; \<open>None\<close> when the solver has returned or crashed.\<close>

fun dist_action ::
  "('r, 'z) libs_scheme \<Rightarrow> 'c hash_trait \<Rightarrow> public_key \<Rightarrow> u32 \<Rightarrow> bool \<Rightarrow> 'c dist_pc \<Rightarrow>
     (bool \<times> 'c dist_pc) option" where
  "dist_action L H k grain found (Apart m s1 s2 c1 c2 counter) =
     Some (found, case m of
        0 \<Rightarrow> Together (search_len L k) s1 s2 c1 c2 0
      | Suc m \<Rightarrow> or_crash (walk_apart L H k grain m s1 s2 c1 c2 counter))"
| "dist_action L H k grain found (Apart_Load m s1 s2 c1 c2) =
     Some (found, if found then Dist_Returned None c1
                  else compare_apart (search_len L k) m s1 s2 c1 c2 0)"
| "dist_action L H k grain found (Together m s1 s2 c1 c2 counter) =
     Some (found, case m of
        0 \<Rightarrow> Dist_Returned None c1
      | Suc m \<Rightarrow> or_crash (walk_together L H k grain m s1 s2 c1 c2 counter))"
| "dist_action L H k grain found (Together_Load m s1 s2 c1 c2 overflowed_1) =
     Some (found, if found then Dist_Returned None c1 else test_point m s1 s2 c1 c2 overflowed_1 0)"
| "dist_action L H k grain found (Point_Load s1 s2 c1) =
     Some (found, if found then Dist_Returned None c1
                  else if st_work s1 = st_work s2 \<and> st_solution s1 \<noteq> st_solution s2
                  then Store_Found (st_solution s1, st_solution s2) c1
                  else Dist_Returned None c1)"
| "dist_action L H k grain found (Store_Found sols c) = Some (True, Dist_Returned (Some sols) c)"
| "dist_action L H k grain found (Dist_Returned r c) = None"
| "dist_action L H k grain found Dist_Crashed = None"

fun loading :: "'c dist_pc \<Rightarrow> bool" where
  "loading (Apart_Load _ _ _ _ _) = True"
| "loading (Together_Load _ _ _ _ _ _) = True"
| "loading (Point_Load _ _ _) = True"
| "loading _ = False"

fun halted :: "'c dist_pc \<Rightarrow> bool" where
  "halted (Dist_Returned _ _) = True"
| "halted Dist_Crashed = True"
| "halted _ = False"

lemma dist_action_None_iff: "dist_action L H k grain found pc = None \<longleftrightarrow> halted pc"
  by (cases pc) simp_all

section \<open>The actions compute \<open>solve_dist\<close>\<close>

text \<open>
  What is left to compute at a program counter, when the next load is number \<open>loads\<close> and load \<open>i\<close>
  returns \<open>obs i\<close>.
\<close>

definition resume_together where
  "resume_together L H k grain obs m s1 s2 c1 c2 counter loads =
     find_point_dist L H (hash_diff k) grain obs m s1 s2 c1 c2 counter loads"

definition resume_apart where
  "resume_apart L H k grain obs m s1 s2 c1 c2 counter loads = do {
     r \<leftarrow> find_collision_dist L H grain obs m s1 s2 c1 c2 counter loads;
     (case r of
        Dist_Drop c1 \<Rightarrow> Some (None, c1, False)
      | Dist_Proceed s1 s2 c1 c2 loads \<Rightarrow>
          resume_together L H k grain obs (search_len L k) s1 s2 c1 c2 0 loads) }"

fun resume_local ::
  "('r, 'z) libs_scheme \<Rightarrow> 'c hash_trait \<Rightarrow> public_key \<Rightarrow> u32 \<Rightarrow> (nat \<Rightarrow> bool) \<Rightarrow> 'c dist_pc \<Rightarrow> nat \<Rightarrow>
     (int solutions option \<times> 'c \<times> bool) option" where
  "resume_local L H k grain obs (Apart m s1 s2 c1 c2 counter) loads =
     resume_apart L H k grain obs m s1 s2 c1 c2 counter loads"
| "resume_local L H k grain obs (Together m s1 s2 c1 c2 counter) loads =
     resume_together L H k grain obs m s1 s2 c1 c2 counter loads"
| "resume_local L H k grain obs (Point_Load s1 s2 c1) loads =
     (if obs loads then Some (None, c1, False)
      else if st_work s1 = st_work s2 \<and> st_solution s1 \<noteq> st_solution s2
      then Some (Some (st_solution s1, st_solution s2), c1, True)
      else Some (None, c1, False))"
| "resume_local L H k grain obs (Store_Found sols c) loads = Some (Some sols, c, True)"
| "resume_local L H k grain obs (Dist_Returned r c) loads = Some (r, c, r \<noteq> None)"
| "resume_local L H k grain obs _ loads = None"

fun resume ::
  "('r, 'z) libs_scheme \<Rightarrow> 'c hash_trait \<Rightarrow> public_key \<Rightarrow> u32 \<Rightarrow> (nat \<Rightarrow> bool) \<Rightarrow> 'c dist_pc \<Rightarrow> nat \<Rightarrow>
     (int solutions option \<times> 'c \<times> bool) option" where
  "resume L H k grain obs (Apart_Load m s1 s2 c1 c2) loads =
     (if obs loads then Some (None, c1, False)
      else resume_local L H k grain obs (compare_apart (search_len L k) m s1 s2 c1 c2 0) (Suc loads))"
| "resume L H k grain obs (Together_Load m s1 s2 c1 c2 ov) loads =
     (if obs loads then Some (None, c1, False)
      else resume_local L H k grain obs (test_point m s1 s2 c1 c2 ov 0) (Suc loads))"
| "resume L H k grain obs pc loads = resume_local L H k grain obs pc loads"

lemma resume_together_eq:
  "resume_together L H k grain obs m s1 s2 c1 c2 counter = find_point_dist L H (hash_diff k) grain obs m s1 s2 c1 c2 counter"
  by (simp add: fun_eq_iff resume_together_def)

lemma resume_start: "resume L H k grain obs (dist_start L k c seed) 0 = solve_dist L H k c seed grain obs"
  by (auto simp: dist_start_def solve_dist_def resume_apart_def resume_together_eq Let_def
      split: option.split Option.bind_split dist_search.split)

lemma resume_compare_apart [simp]:
  "resume L H k grain obs (compare_apart n m s1 s2 c1 c2 counter) loads =
     resume_local L H k grain obs (compare_apart n m s1 s2 c1 c2 counter) loads"
  by (simp add: compare_apart_def)

lemma resume_test_point [simp]:
  "resume L H k grain obs (test_point m s1 s2 c1 c2 ov counter) loads =
     resume_local L H k grain obs (test_point m s1 s2 c1 c2 ov counter) loads"
  by (simp add: test_point_def)

lemma resume_walk_apart:
  "resume_apart L H k grain obs (Suc m) s1 s2 c1 c2 counter loads =
     resume L H k grain obs (or_crash (walk_apart L H k grain m s1 s2 c1 c2 counter)) loads"
  by (auto simp: resume_apart_def walk_apart_def or_crash_def compare_apart_def Let_def
      split: Option.bind_splits)

lemma resume_walk_together:
  "resume_together L H k grain obs (Suc m) s1 s2 c1 c2 counter loads =
     resume L H k grain obs (or_crash (walk_together L H k grain m s1 s2 c1 c2 counter)) loads"
  by (auto simp: resume_together_def walk_together_def or_crash_def test_point_def Let_def
      split: Option.bind_splits)

lemma resume_zero:
  "resume_apart L H k grain obs 0 s1 s2 c1 c2 counter loads =
     resume_together L H k grain obs (search_len L k) s1 s2 c1 c2 0 loads"
  "resume_together L H k grain obs 0 s1 s2 c1 c2 counter loads = Some (None, c1, False)"
  by (simp_all add: resume_apart_def resume_together_def)

text \<open>An action keeps what is left to compute, if \<open>obs\<close> tells what it loads.\<close>

lemma dist_action_resume:
  assumes "dist_action L H k grain found pc = Some (found', pc')" and "loading pc \<longrightarrow> obs loads = found"
  shows "resume L H k grain obs pc loads =
    resume L H k grain obs pc' (if loading pc then Suc loads else loads)"
  using assms
  by (cases pc)
    (auto simp: resume_walk_apart resume_walk_together resume_zero split: nat.splits)

section \<open>Runs against a flag that others change\<close>

text \<open>\<open>fs\<close> holds the value of the flag before each action; what the solver loads from it is determined.\<close>

fun dist_exec ::
  "('r, 'z) libs_scheme \<Rightarrow> 'c hash_trait \<Rightarrow> public_key \<Rightarrow> u32 \<Rightarrow> bool list \<Rightarrow> 'c dist_pc \<Rightarrow> 'c dist_pc option" where
  "dist_exec L H k grain [] pc = Some pc"
| "dist_exec L H k grain (f # fs) pc = do {
     (f', pc') \<leftarrow> dist_action L H k grain f pc;
     dist_exec L H k grain fs pc' }"

fun dist_loads ::
  "('r, 'z) libs_scheme \<Rightarrow> 'c hash_trait \<Rightarrow> public_key \<Rightarrow> u32 \<Rightarrow> bool list \<Rightarrow> 'c dist_pc \<Rightarrow> bool list" where
  "dist_loads L H k grain [] pc = []"
| "dist_loads L H k grain (f # fs) pc =
     (if loading pc then [f] else [])
     @ (case dist_action L H k grain f pc of None \<Rightarrow> [] | Some (f', pc') \<Rightarrow> dist_loads L H k grain fs pc')"

text \<open>\<open>obs\<close> answers the loads from number \<open>n\<close> on as \<open>xs\<close> says.\<close>

definition answers :: "(nat \<Rightarrow> bool) \<Rightarrow> nat \<Rightarrow> bool list \<Rightarrow> bool" where
  "answers obs n xs \<longleftrightarrow> (\<forall>i < length xs. obs (n + i) = xs ! i)"

lemma answers_Nil [simp]: "answers obs n []"
  by (simp add: answers_def)

lemma answers_Cons [simp]: "answers obs n (x # xs) \<longleftrightarrow> obs n = x \<and> answers obs (Suc n) xs"
  unfolding answers_def by (auto simp: nth_Cons split: nat.split)

lemma answers_append: "answers obs n (xs @ ys) \<longleftrightarrow> answers obs n xs \<and> answers obs (n + length xs) ys"
  by (induction xs arbitrary: n) auto

definition observed :: "bool list \<Rightarrow> nat \<Rightarrow> bool" where
  "observed xs i \<longleftrightarrow> i < length xs \<and> xs ! i"

lemma answers_observed [simp]: "answers (observed xs) 0 xs"
  by (simp add: answers_def observed_def)

lemma dist_exec_resume:
  "dist_exec L H k grain fs pc = Some pc' \<Longrightarrow> answers obs n (dist_loads L H k grain fs pc) \<Longrightarrow>
   resume L H k grain obs pc n = resume L H k grain obs pc' (n + length (dist_loads L H k grain fs pc))"
proof (induction fs arbitrary: pc n)
  case Nil
  then show ?case by simp
next
  case (Cons f fs)
  then obtain f1 pc1 where step: "dist_action L H k grain f pc = Some (f1, pc1)"
    and run: "dist_exec L H k grain fs pc1 = Some pc'"
    by (auto simp: bind_eq_Some_conv)
  show ?case
    using dist_action_resume [OF step, of obs n] Cons.IH [OF run, of "if loading pc then Suc n else n"]
      Cons.prems(2) step by auto
qed

text \<open>The result of a run is that of \<open>solve_dist\<close> on what the run loaded.\<close>

lemma dist_exec_solve_dist:
  assumes "dist_exec L H k grain fs (dist_start L k c seed) = Some (Dist_Returned r c')"
  shows "solve_dist L H k c seed grain (observed (dist_loads L H k grain fs (dist_start L k c seed)))
    = Some (r, c', r \<noteq> None)"
  using dist_exec_resume [OF assms, of "observed (dist_loads L H k grain fs (dist_start L k c seed))" 0]
  by (simp add: resume_start)

section \<open>Bounds on the number of actions\<close>

fun dist_measure :: "nat \<Rightarrow> 'c dist_pc \<Rightarrow> nat" where
  "dist_measure n (Apart m _ _ _ _ _) = 2 * m + 2 * n + 5"
| "dist_measure n (Apart_Load m _ _ _ _) = 2 * m + 2 * n + 6"
| "dist_measure n (Together m _ _ _ _ _) = 2 * m + 4"
| "dist_measure n (Together_Load m _ _ _ _ _) = 2 * m + 5"
| "dist_measure n (Point_Load _ _ _) = 2"
| "dist_measure n (Store_Found _ _) = 1"
| "dist_measure n (Dist_Returned _ _) = 0"
| "dist_measure n Dist_Crashed = 0"

lemma dist_measure_compare: "2 * m + 2 * n + 6 \<le> b \<Longrightarrow> dist_measure n (compare_apart n m s1 s2 c1 c2 counter) < b"
  by (simp add: compare_apart_def)

lemma dist_measure_test: "2 * m + 5 \<le> b \<Longrightarrow> dist_measure n (test_point m s1 s2 c1 c2 ov counter) < b"
  by (simp add: test_point_def)

lemma dist_measure_walk_apart:
  "n = search_len L k \<Longrightarrow>
   dist_measure n (or_crash (walk_apart L H k grain m s1 s2 c1 c2 counter)) < 2 * Suc m + 2 * n + 5"
  by (auto simp: walk_apart_def or_crash_def dist_measure_compare split: option.split Option.bind_split)

lemma dist_measure_walk_together:
  "dist_measure n (or_crash (walk_together L H k grain m s1 s2 c1 c2 counter)) < 2 * Suc m + 4"
  by (auto simp: walk_together_def or_crash_def dist_measure_test split: option.split Option.bind_split)

lemma dist_action_measure:
  assumes "dist_action L H k grain found pc = Some (found', pc')"
  shows "dist_measure (search_len L k) pc' < dist_measure (search_len L k) pc"
  using assms dist_measure_walk_apart [OF refl, of L k H grain] dist_measure_walk_together [of _ L H k grain]
  by (cases pc) (auto simp: dist_measure_compare dist_measure_test split: nat.splits)

text \<open>
  Once the flag is set, and as long as it stays set, every action but the last two of a solver that has
  already won brings it closer to giving up: both loops load the flag after \<open>grain\<close> iterations.
\<close>

fun won :: "'c dist_pc \<Rightarrow> bool" where
  "won (Store_Found _ _) = True"
| "won (Dist_Returned r _) = (r \<noteq> None)"
| "won _ = False"

fun stop_measure :: "u32 \<Rightarrow> 'c dist_pc \<Rightarrow> nat" where
  "stop_measure grain (Apart _ _ _ _ _ counter) = (unat grain - unat counter) + unat grain + 3"
| "stop_measure grain (Together _ _ _ _ _ counter) = (unat grain - unat counter) + 2"
| "stop_measure grain (Apart_Load _ _ _ _ _) = 1"
| "stop_measure grain (Together_Load _ _ _ _ _ _) = 1"
| "stop_measure grain (Point_Load _ _ _) = 1"
| "stop_measure grain _ = 0"

lemma stop_measure_bound: "stop_measure grain pc \<le> 2 * unat grain + 3"
  by (cases pc) simp_all

lemma counter_Suc:
  fixes counter :: u32
  assumes "\<not> grain \<le> counter"
  shows "unat grain - unat (counter + 1) < unat grain - unat counter"
proof -
  have "unat counter < unat grain"
    using assms by (simp add: word_less_nat_alt not_le)
  moreover from this have "unat counter + 1 < 2 ^ 32"
    using unsigned_less [of grain, where 'a = nat] by simp
  then have "unat (counter + 1) = unat counter + 1"
    by (simp add: unat_word_ariths)
  ultimately show ?thesis by simp
qed

lemma dist_action_stops:
  assumes "dist_action L H k grain True pc = Some (found', pc')" and "\<not> won pc"
  shows "found' \<and> \<not> won pc' \<and> stop_measure grain pc' < stop_measure grain pc"
  using assms
  by (cases pc)
    (auto simp: walk_apart_def walk_together_def or_crash_def compare_apart_def test_point_def
      counter_Suc split: nat.splits option.splits Option.bind_splits if_splits)

end
