(* ===== verification/Mining_Thread.thy ===== *)
theory Mining_Thread
  imports Mining Solver_Steps
begin

text \<open>
  The mining thread of \<open>node/src/service.rs\<close> action by action, among the imports and the worker of
  Substrate's that build blocks. \<open>Mining\<close> has an iteration of its loop as a function of what it finds
  outside; here it reads the metadata, the best block and its header one after the other, resets the
  flag, and runs the solver, the single-threaded one with the actions of \<open>Solver_Steps\<close> and the parallel
  one with those of the workers of \<open>Parallel\<close>, and between two actions anything may be imported or built.
\<close>

section \<open>The node around the thread\<close>

record 'h node_shared =
  ns_found :: bool
  ns_metadata :: "(u128 \<times> h256) option"      \<comment> \<open>\<open>worker.metadata()\<close>\<close>
  ns_chain :: "'h blockchain"

datatype solver_run = Dist_Run "compute dist_pc" | Par_Run "compute par_state"

record attempt =
  at_compute :: compute                          \<comment> \<open>the header the attempt began with\<close>
  at_pubkey :: public_key
  at_seeds :: "raw_seed list"
  at_solver :: solver_run

datatype 'h thread_pc =
    Read_Metadata
  | Read_Info "(u128 \<times> h256) option"
  | Read_Header "(u128 \<times> h256) option" 'h u32
  | Reset_Flag u128 h256 seal
  | Solving attempt
  | Submit bytes
  | Panicked

record 'h mining_thread =
  mt_pc :: "'h thread_pc"
  mt_state :: mining_state
  mt_log :: "mining_outcome list"

definition thread_start :: "mining_state \<Rightarrow> 'h mining_thread" where
  "thread_start st = \<lparr>mt_pc = Read_Metadata, mt_state = st, mt_log = []\<rparr>"

text \<open>An iteration ends, and the next one begins.\<close>

definition next_iteration :: "mining_state \<Rightarrow> mining_outcome \<Rightarrow> 'h mining_thread \<Rightarrow> 'h mining_thread" where
  "next_iteration st out th = \<lparr>mt_pc = Read_Metadata, mt_state = st, mt_log = mt_log th @ [out]\<rparr>"

section \<open>The actions of the thread\<close>

text \<open>What follows \<open>find_seal\<close>, up to the store that resets the flag.\<close>

definition decide ::
  "(u128 \<times> h256) option \<Rightarrow> seal option \<Rightarrow> u32 \<Rightarrow> 'h mining_thread \<Rightarrow> 'h mining_thread" where
  "decide metadata s current_number th =
     (case (metadata, s) of
        (Some (difficulty, pre_hash), Some s) \<Rightarrow>
          if mn_number (mt_state th) \<noteq> 0 \<and> mn_number (mt_state th) = current_number
          then next_iteration (mt_state th) Slept th
          else th\<lparr>mt_pc := Reset_Flag difficulty pre_hash s,
                  mt_state := (mt_state th)\<lparr>mn_number := current_number\<rparr>\<rparr>
      | _ \<Rightarrow> next_iteration (mt_state th) Slept th)"

text \<open>\<open>try_cpu_mining\<close> up to the call of the solver, and after it.\<close>

definition start_solver ::
  "('r, 'z) trex_libs_scheme \<Rightarrow> u8 option \<Rightarrow> public_key \<Rightarrow> compute \<Rightarrow> int \<Rightarrow> solver_run option" where
  "start_solver L cpus puzzle compute seed =
     (let dist = Some (Dist_Run (dist_start L puzzle compute seed))
      in (case cpus of
            Some cpu_count \<Rightarrow>
              if 1 < cpu_count then map_option Par_Run (par_init L puzzle compute seed False cpu_count) else dist
          | None \<Rightarrow> dist))"

definition begin_attempt ::
  "('r, 'z) trex_libs_scheme \<Rightarrow> u8 option \<Rightarrow> u128 \<Rightarrow> h256 \<Rightarrow> seal \<Rightarrow> u256 \<Rightarrow> attempt option" where
  "begin_attempt L cpus difficulty pre_hash s mining_seed = do {
     let compute = \<lparr>cmp_difficulty = difficulty, cmp_pre_hash = pre_hash, cmp_nonce = 1\<rparr>;
     new_pubkey \<leftarrow> puzzle_of L s difficulty;
     seeds \<leftarrow> new_seeds L 0 (yield_pub_keys L (seal_seeds s)) (replicate SEEDS_LEN (U128 1));
     solver \<leftarrow> start_solver L cpus new_pubkey compute (u256_bigint L mining_seed);
     Some \<lparr>at_compute = compute, at_pubkey = new_pubkey, at_seeds = seeds, at_solver = solver\<rparr> }"

definition end_attempt ::
  "('r, 'z) trex_libs_scheme \<Rightarrow> attempt \<Rightarrow> int solutions option \<Rightarrow> compute \<Rightarrow> 'h mining_thread \<Rightarrow> 'h mining_thread" where
  "end_attempt L a r compute th =
     (case r of
        None \<Rightarrow> next_iteration ((mt_state th)\<lparr>mn_seed := next_seed (mn_seed (mt_state th))\<rparr>) Failed th
      | Some sols \<Rightarrow>
          (case do {
              sol_1 \<leftarrow> to_u256 L (fst sols);
              sol_2 \<leftarrow> to_u256 L (snd sols);
              Some \<lparr>seal_difficulty = cmp_difficulty (at_compute a), seal_pubkey = to_raw L (at_pubkey a), seal_seeds = at_seeds a,
                    seal_solutions = (sol_1, sol_2), seal_nonce = get_nonce compute\<rparr> } of
             None \<Rightarrow> th\<lparr>mt_pc := Panicked\<rparr>
           | Some new_seal \<Rightarrow>
               th\<lparr>mt_pc := Submit (encode_seal L new_seal), mt_state := (mt_state th)\<lparr>mn_seed := 1\<rparr>\<rparr>))"

text \<open>
  \<open>thread.join().expect(..)\<close> on the workers in turn: \<open>None\<close> while one of them runs, and a panic when one
  has crashed.
\<close>

fun join_workers :: "'c worker list \<Rightarrow> bool option" where
  "join_workers [] = Some True"
| "join_workers (w # ws) =
     (case w_pc w of Returned \<Rightarrow> join_workers ws | Crashed \<Rightarrow> Some False | _ \<Rightarrow> None)"

definition solving_action ::
  "('r, 'z) trex_libs_scheme \<Rightarrow> attempt \<Rightarrow> 'h node_shared \<Rightarrow> 'h mining_thread \<Rightarrow>
     ('h node_shared \<times> 'h mining_thread) option" where
  "solving_action L a sh th =
     (case at_solver a of
        Dist_Run pc \<Rightarrow>
          (case dist_action L (blake3_compute L) (at_pubkey a) MINING_GRAIN (ns_found sh) pc of
             Some (found, pc) \<Rightarrow>
               Some (sh\<lparr>ns_found := found\<rparr>, th\<lparr>mt_pc := Solving (a\<lparr>at_solver := Dist_Run pc\<rparr>)\<rparr>)
           | None \<Rightarrow>
               Some (sh, case pc of
                 Dist_Returned r compute \<Rightarrow> end_attempt L a r compute th
               | _ \<Rightarrow> th\<lparr>mt_pc := Panicked\<rparr>))
      | Par_Run ps \<Rightarrow> do {
          ok \<leftarrow> join_workers (ps_workers ps);
          Some (sh, case (if ok then par_result (blake3_compute L) ps (at_compute a) else None) of
              Some (r, compute) \<Rightarrow> end_attempt L a r compute th
            | None \<Rightarrow> th\<lparr>mt_pc := Panicked\<rparr>) })"

text \<open>
  An action of the \<open>i\<close>-th worker; \<open>found\<close> is the flag of the node. Workers that outlive a thread that has
  panicked are left out, as nobody reads what they do.
\<close>

definition worker_acts ::
  "('r, 'z) trex_libs_scheme \<Rightarrow> nat \<Rightarrow> 'h node_shared \<Rightarrow> 'h mining_thread \<Rightarrow> ('h node_shared \<times> 'h mining_thread) option"
where
  "worker_acts L i sh th =
     (case mt_pc th of
        Solving a \<Rightarrow>
          (case at_solver a of
             Par_Run ps \<Rightarrow> do {
               ps \<leftarrow> par_action L (blake3_compute L) (at_pubkey a) MINING_GRAIN i
                 (ps\<lparr>ps_shared := (ps_shared ps)\<lparr>sh_found := ns_found sh\<rparr>\<rparr>);
               Some (sh\<lparr>ns_found := sh_found (ps_shared ps)\<rparr>,
                     th\<lparr>mt_pc := Solving (a\<lparr>at_solver := Par_Run ps\<rparr>)\<rparr>) }
           | Dist_Run _ \<Rightarrow> None)
      | _ \<Rightarrow> None)"

text \<open>\<open>None\<close> when the thread has panicked, or waits for a worker.\<close>

definition thread_action ::
  "('r, 'z) trex_libs_scheme \<Rightarrow> u8 option \<Rightarrow> 'h node_shared \<Rightarrow> 'h mining_thread \<Rightarrow> ('h node_shared \<times> 'h mining_thread) option" where
  "thread_action L cpus sh th =
     (case mt_pc th of
        Read_Metadata \<Rightarrow> Some (sh, th\<lparr>mt_pc := Read_Info (ns_metadata sh)\<rparr>)
      | Read_Info metadata \<Rightarrow>
          (let best_hash = bc_best_hash (ns_chain sh); best_num = bc_best_number (ns_chain sh)
           in Some (sh, if best_num = 0 then decide metadata (Some (genesis_seal INIT_DIFFICULTY)) best_num th
                        else th\<lparr>mt_pc := Read_Header metadata best_hash best_num\<rparr>))
      | Read_Header metadata best_hash best_num \<Rightarrow>
          Some (sh, case do {
              header \<leftarrow> bc_header (ns_chain sh) best_hash;
              (case header of Some digest \<Rightarrow> pop_seal L (rev digest) | None \<Rightarrow> Some None) } of
            None \<Rightarrow> th\<lparr>mt_pc := Panicked\<rparr>
          | Some s \<Rightarrow> decide metadata s best_num th)
      | Reset_Flag difficulty pre_hash s \<Rightarrow>
          Some (sh\<lparr>ns_found := False\<rparr>,
            case begin_attempt L cpus difficulty pre_hash s (mn_seed (mt_state th)) of
              None \<Rightarrow> th\<lparr>mt_pc := Panicked\<rparr>
            | Some a \<Rightarrow> th\<lparr>mt_pc := Solving a\<rparr>)
      | Solving a \<Rightarrow> solving_action L a sh th
      | Submit seal \<Rightarrow> Some (sh, next_iteration (mt_state th) (Submitted seal) th)
      | Panicked \<Rightarrow> None)"

section \<open>The environment\<close>

text \<open>
  \<open>import_block\<close> sets the flag and then runs the import it wraps, which is when the best block may
  change; the worker rebuilds its block when it likes.
\<close>

datatype 'h node_action =
    Thread_Acts
  | Worker_Acts nat
  | Import_Begins
  | Import_Ends "'h blockchain"
  | Rebuilt "(u128 \<times> h256) option"

fun node_event ::
  "('r, 'z) trex_libs_scheme \<Rightarrow> u8 option \<Rightarrow> 'h node_action \<Rightarrow> 'h node_shared \<times> 'h mining_thread \<Rightarrow>
     ('h node_shared \<times> 'h mining_thread) option" where
  "node_event L cpus Thread_Acts (sh, th) = thread_action L cpus sh th"
| "node_event L cpus (Worker_Acts i) (sh, th) = worker_acts L i sh th"
| "node_event L cpus Import_Begins (sh, th) = Some (sh\<lparr>ns_found := True\<rparr>, th)"
| "node_event L cpus (Import_Ends bc) (sh, th) = Some (sh\<lparr>ns_chain := bc\<rparr>, th)"
| "node_event L cpus (Rebuilt md) (sh, th) = Some (sh\<lparr>ns_metadata := md\<rparr>, th)"

fun node_run ::
  "('r, 'z) trex_libs_scheme \<Rightarrow> u8 option \<Rightarrow> 'h node_action list \<Rightarrow> 'h node_shared \<times> 'h mining_thread \<Rightarrow>
     ('h node_shared \<times> 'h mining_thread) option" where
  "node_run L cpus [] x = Some x"
| "node_run L cpus (e # es) x = do { x \<leftarrow> node_event L cpus e x; node_run L cpus es x }"

text \<open>The shared states of a run, the first and the last included.\<close>

fun node_seen ::
  "('r, 'z) trex_libs_scheme \<Rightarrow> u8 option \<Rightarrow> 'h node_action list \<Rightarrow> 'h node_shared \<times> 'h mining_thread \<Rightarrow> 'h node_shared list" where
  "node_seen L cpus [] x = [fst x]"
| "node_seen L cpus (e # es) x =
     fst x # (case node_event L cpus e x of None \<Rightarrow> [] | Some x \<Rightarrow> node_seen L cpus es x)"

lemma node_run_append: "node_run L cpus (es @ fs) x = do { y \<leftarrow> node_run L cpus es x; node_run L cpus fs y }"
  by (induction es arbitrary: x) (auto split: Option.bind_split)

lemma node_seen_append:
  "node_run L cpus es x = Some y \<Longrightarrow> node_event L cpus e y = Some z \<Longrightarrow> node_seen L cpus (es @ [e]) x = node_seen L cpus es x @ [fst z]"
  by (induction es arbitrary: x) (auto simp: bind_eq_Some_conv)

lemma last_node_seen: "node_run L cpus es x = Some y \<Longrightarrow> last (node_seen L cpus es x) = fst y \<and> node_seen L cpus es x \<noteq> []"
proof (induction es arbitrary: x)
  case Nil
  then show ?case by simp
next
  case (Cons e es)
  then obtain x' where x': "node_event L cpus e x = Some x'" "node_run L cpus es x' = Some y"
    by (auto simp: bind_eq_Some_conv)
  show ?case
    using Cons.IH [OF x'(2)] x'(1) by simp
qed

lemma import_begins_is_dist_import:
  "node_event L cpus Import_Begins (sh, th) = Some (sh\<lparr>ns_found := fst (dist_import_block I block (ns_found sh))\<rparr>, th)"
  by (simp add: dist_import_block_def)

end
