(* ===== verification/Thread_Refinement.thy ===== *)
theory Thread_Refinement
  imports Mining_Thread
begin

text \<open>
  The actions of the mining thread refine the loop of \<open>Mining\<close>: whatever is imported and built between
  them, the iterations the thread has finished are \<open>mining_step\<close> on what it read. What an iteration reads
  is recorded beside the run, by a function of the program counter and the shared state before each
  action, so that every value is the one of the instant at which the source reads it.
\<close>

section \<open>What an iteration reads\<close>

record 'h reading =
  rd_metadata :: "(u128 \<times> h256) option"
  rd_chain :: "'h blockchain"
  rd_loads :: "bool list"                  \<comment> \<open>what \<open>solve_dist\<close> loaded from the flag\<close>
  rd_sched :: "event list"                 \<comment> \<open>the actions of the workers and the imports\<close>

definition reading_start :: "'h node_shared \<Rightarrow> 'h reading" where
  "reading_start sh = \<lparr>rd_metadata = ns_metadata sh, rd_chain = ns_chain sh, rd_loads = [], rd_sched = []\<rparr>"

text \<open>
  The metadata, the best block and its header are read by three actions in turn, the flag by the loads
  of \<open>solve_dist\<close>; the schedule of \<open>solve_parallel\<close> has an event for every action of a worker and every
  import while the solver runs.
\<close>

definition reads_at :: "'h node_action \<Rightarrow> 'h node_shared \<Rightarrow> 'h thread_pc \<Rightarrow> 'h reading \<Rightarrow> 'h reading" where
  "reads_at e sh pc r =
     (case pc of
        Read_Metadata \<Rightarrow> if e = Thread_Acts then reading_start sh else r
      | Read_Info _ \<Rightarrow> if e = Thread_Acts then r\<lparr>rd_chain := ns_chain sh\<rparr> else r
      | Read_Header _ _ _ \<Rightarrow>
          if e = Thread_Acts then r\<lparr>rd_chain := (rd_chain r)\<lparr>bc_header := bc_header (ns_chain sh)\<rparr>\<rparr> else r
      | Solving a \<Rightarrow>
          (case e of
             Thread_Acts \<Rightarrow>
               (case at_solver a of
                  Dist_Run pc \<Rightarrow> if loading pc then r\<lparr>rd_loads := rd_loads r @ [ns_found sh]\<rparr> else r
                | Par_Run _ \<Rightarrow> r)
           | Worker_Acts i \<Rightarrow> r\<lparr>rd_sched := rd_sched r @ [Act i]\<rparr>
           | Import_Begins \<Rightarrow> r\<lparr>rd_sched := rd_sched r @ [Import]\<rparr>
           | _ \<Rightarrow> r)
      | _ \<Rightarrow> r)"

text \<open>
  The readings of a run: of the iterations that end in it, one after the other, and of the one under
  way. An iteration ends when the thread logs its outcome.
\<close>

fun readings ::
  "('r, 'z) trex_libs_scheme \<Rightarrow> u8 option \<Rightarrow> 'h node_action list \<Rightarrow> 'h node_shared \<times> 'h mining_thread \<Rightarrow>
     'h reading list \<times> 'h reading \<Rightarrow> 'h reading list \<times> 'h reading" where
  "readings L cpus [] x rs = rs"
| "readings L cpus (e # es) x (rs, r) =
     (case node_event L cpus e x of
        None \<Rightarrow> (rs, r)
      | Some y \<Rightarrow>
          (let r' = reads_at e (fst x) (mt_pc (snd x)) r
           in readings L cpus es y (if mt_log (snd y) = mt_log (snd x) then (rs, r') else (rs @ [r'], r'))))"

definition env_of :: "'h reading \<Rightarrow> 'h mining_env" where
  "env_of r = \<lparr>env_metadata = rd_metadata r, env_chain = rd_chain r, env_obs = observed (rd_loads r), env_sched = rd_sched r\<rparr>"

text \<open>The iteration panics on what it has read, however the schedule of the workers goes on.\<close>

definition panics_on ::
  "('r, 'z) trex_libs_scheme \<Rightarrow> u8 option \<Rightarrow> 'h reading \<Rightarrow> mining_state \<Rightarrow> bool" where
  "panics_on L cpus r st \<longleftrightarrow> (\<forall>later. mining_step L cpus (env_of (r\<lparr>rd_sched := rd_sched r @ later\<rparr>)) st = None)"

lemma observed_Nil [simp]: "\<not> observed [] i"
  by (simp add: observed_def)

lemma env_of_simps [simp]:
  "env_metadata (env_of r) = rd_metadata r" "env_chain (env_of r) = rd_chain r"
  "env_obs (env_of r) = observed (rd_loads r)" "env_sched (env_of r) = rd_sched r"
  by (simp_all add: env_of_def)

lemma readings_append:
  "node_run L cpus es x = Some y \<Longrightarrow> node_event L cpus e y = Some z \<Longrightarrow> readings L cpus es x p = (rs, r) \<Longrightarrow>
   readings L cpus (es @ [e]) x p =
     (let r' = reads_at e (fst y) (mt_pc (snd y)) r in if mt_log (snd z) = mt_log (snd y) then (rs, r') else (rs @ [r'], r'))"
proof (induction es arbitrary: x p)
  case Nil
  then show ?case by (simp add: Let_def)
next
  case (Cons e' es)
  then show ?case by (cases p) (auto simp: bind_eq_Some_conv Let_def)
qed

section \<open>The stages of an iteration\<close>

text \<open>What is left of the iteration that began in the state \<open>st\<close> and has read \<open>r\<close>.\<close>

definition prepared ::
  "('r, 'z) trex_libs_scheme \<Rightarrow> 'h reading \<Rightarrow> mining_state \<Rightarrow> u128 \<Rightarrow> h256 \<Rightarrow> seal \<Rightarrow> mining_state \<Rightarrow> bool" where
  "prepared L r st d h s st' \<longleftrightarrow>
     rd_metadata r = Some (d, h) \<and> find_seal L (rd_chain r) = Some (Some s, mn_number st')
     \<and> \<not> rests st (mn_number st') \<and> mn_seed st' = mn_seed st"

definition several :: "u8 option \<Rightarrow> bool" where
  "several cpus = (case cpus of None \<Rightarrow> False | Some v \<Rightarrow> 1 < v)"

text \<open>The workers read the flag of the node.\<close>

definition flagged :: "bool \<Rightarrow> 'c par_state \<Rightarrow> 'c par_state" where
  "flagged found ps = ps\<lparr>ps_shared := (ps_shared ps)\<lparr>sh_found := found\<rparr>\<rparr>"

definition solver_at ::
  "('r, 'z) trex_libs_scheme \<Rightarrow> u8 option \<Rightarrow> u128 \<Rightarrow> h256 \<Rightarrow> seal \<Rightarrow> u256 \<Rightarrow> bool \<Rightarrow> bool list \<Rightarrow> event list \<Rightarrow> attempt \<Rightarrow> bool" where
  "solver_at L cpus d h s seed found xs sched a \<longleftrightarrow>
     at_compute a = \<lparr>cmp_difficulty = d, cmp_pre_hash = h, cmp_nonce = 1\<rparr>
     \<and> puzzle_of L s d = Some (at_pubkey a)
     \<and> new_seeds L 0 (yield_pub_keys L (seal_seeds s)) (replicate SEEDS_LEN (U128 1)) = Some (at_seeds a)
     \<and> (case at_solver a of
          Dist_Run pc \<Rightarrow> \<not> several cpus \<and>
            (\<forall>obs. answers obs 0 xs \<longrightarrow>
              solve_dist L (blake3_compute L) (at_pubkey a) (at_compute a) (u256_bigint L seed) MINING_GRAIN obs
              = resume L (blake3_compute L) (at_pubkey a) MINING_GRAIN obs pc (length xs))
        | Par_Run ps \<Rightarrow> several cpus \<and>
            (\<exists>ps0. par_init L (at_pubkey a) (at_compute a) (u256_bigint L seed) False (the cpus) = Some ps0
              \<and> par_run L (blake3_compute L) (at_pubkey a) MINING_GRAIN sched ps0 = Some (flagged found ps)))"

text \<open>\<open>found\<close> is the flag.\<close>

fun stage ::
  "('r, 'z) trex_libs_scheme \<Rightarrow> u8 option \<Rightarrow> 'h reading \<Rightarrow> bool \<Rightarrow> mining_state \<Rightarrow> 'h thread_pc \<Rightarrow> mining_state \<Rightarrow> bool"
where
  "stage L cpus r found st Read_Metadata st' \<longleftrightarrow> st' = st"
| "stage L cpus r found st (Read_Info md) st' \<longleftrightarrow> st' = st \<and> md = rd_metadata r \<and> rd_loads r = [] \<and> rd_sched r = []"
| "stage L cpus r found st (Read_Header md best_hash best_num) st' \<longleftrightarrow> st' = st \<and> best_num \<noteq> 0 \<and> md = rd_metadata r
     \<and> best_hash = bc_best_hash (rd_chain r) \<and> best_num = bc_best_number (rd_chain r) \<and> rd_loads r = [] \<and> rd_sched r = []"
| "stage L cpus r found st (Reset_Flag d h s) st' \<longleftrightarrow> prepared L r st d h s st' \<and> rd_loads r = [] \<and> rd_sched r = []"
| "stage L cpus r found st (Solving a) st' \<longleftrightarrow>
     (\<exists>d h s. prepared L r st d h s st' \<and> solver_at L cpus d h s (mn_seed st) found (rd_loads r) (rd_sched r) a)"
| "stage L cpus r found st (Submit coded) st' \<longleftrightarrow> mining_step L cpus (env_of r) st = Some (st', Submitted coded)"
| "stage L cpus r found st Panicked st' \<longleftrightarrow> panics_on L cpus r st"

section \<open>One action\<close>

text \<open>Either the iteration goes on, or it ends as \<open>mining_step\<close> does on what it has read.\<close>

definition progress ::
  "('r, 'z) trex_libs_scheme \<Rightarrow> u8 option \<Rightarrow> 'h reading \<Rightarrow> bool \<Rightarrow> mining_state \<Rightarrow> 'h mining_thread \<Rightarrow>
     'h mining_thread \<Rightarrow> bool" where
  "progress L cpus r found st th th' \<longleftrightarrow>
     mt_log th' = mt_log th \<and> stage L cpus r found st (mt_pc th') (mt_state th')
   \<or> (\<exists>out. mining_step L cpus (env_of r) st = Some (mt_state th', out) \<and> th' = next_iteration (mt_state th') out th)"

lemma progress_ends:
  "mining_step L cpus (env_of r) st = Some (st', out) \<Longrightarrow> progress L cpus r found st th (next_iteration st' out th)"
  by (auto simp: progress_def next_iteration_def)

lemma progress_goes_on:
  "mt_log th' = mt_log th \<Longrightarrow> stage L cpus r found st (mt_pc th') (mt_state th') \<Longrightarrow> progress L cpus r found st th th'"
  by (simp add: progress_def)

lemma progress_panics: "panics_on L cpus r st \<Longrightarrow> progress L cpus r found st th (th\<lparr>mt_pc := Panicked\<rparr>)"
  by (rule progress_goes_on) auto

lemma decide_progress:
  assumes "rd_loads r = []" and "rd_sched r = []"
    and "find_seal L (rd_chain r) = Some (s, num)" and "mt_state th = st"
  shows "progress L cpus r found st th (decide (rd_metadata r) s num th)"
proof (cases "rd_metadata r = None \<or> s = None \<or> rests st num")
  case True
  then have "mining_step L cpus (env_of r) st = Some (st, Slept)"
    using assms(3) by (auto simp: mining_step_def rests_def split: option.split)
  moreover have "decide (rd_metadata r) s num th = next_iteration st Slept th"
    using True assms(4) by (auto simp: decide_def rests_def split: option.split)
  ultimately show ?thesis
    using progress_ends by simp
next
  case False
  then obtain d h t where e: "rd_metadata r = Some (d, h)" "s = Some t" "\<not> rests st num"
    by auto
  then have "decide (rd_metadata r) s num th
      = th\<lparr>mt_pc := Reset_Flag d h t, mt_state := st\<lparr>mn_number := num\<rparr>\<rparr>"
    using assms(4) by (auto simp: decide_def rests_def)
  moreover have "prepared L r st d h t (st\<lparr>mn_number := num\<rparr>)"
    using assms e by (simp add: prepared_def)
  ultimately show ?thesis
    using assms(1,2) by (intro progress_goes_on) auto
qed

section \<open>The solver\<close>

text \<open>The iteration as a function of what \<open>solve_on\<close> returns.\<close>

lemma mining_step_prepared:
  assumes "prepared L r st d h s st'"
  shows "mining_step L cpus (env_of (r\<lparr>rd_sched := sched\<rparr>)) st = do {
      (res, c) \<leftarrow> try_cpu_mining L s \<lparr>cmp_difficulty = d, cmp_pre_hash = h, cmp_nonce = 1\<rparr>
        (mn_seed st') cpus (observed (rd_loads r)) False sched;
      (case res of
         Some new \<Rightarrow> Some (st'\<lparr>mn_seed := 1\<rparr>, Submitted (encode_seal L new))
       | None \<Rightarrow> Some (st'\<lparr>mn_seed := next_seed (mn_seed st')\<rparr>, Failed)) }"
proof -
  have st': "\<lparr>mn_seed = x, mn_number = mn_number st'\<rparr> = st'\<lparr>mn_seed := x\<rparr>" for x
    by (cases st') simp
  have seed: "mn_seed st' = mn_seed st"
    using assms by (simp add: prepared_def)
  show ?thesis
    using assms mining_step_mines [of L "env_of (r\<lparr>rd_sched := sched\<rparr>)" s "mn_number st'" st d h cpus]
    unfolding prepared_def st' seed by simp
qed

text \<open>What the solver returns on the schedule of the run, and can return on a longer one.\<close>

definition settled ::
  "('r, 'z) trex_libs_scheme \<Rightarrow> u8 option \<Rightarrow> u256 \<Rightarrow> bool list \<Rightarrow> event list \<Rightarrow> attempt \<Rightarrow> (int solutions option \<times> compute) option \<Rightarrow> bool"
where
  "settled L cpus seed xs sched a res \<longleftrightarrow>
     (\<forall>later. let r = solve_on L (blake3_compute L) (at_pubkey a) (at_compute a) (u256_bigint L seed) cpus
                (observed xs) False (sched @ later)
             in (r = None \<or> r = res) \<and> (later = [] \<longrightarrow> r = res))"

lemma settledD:
  assumes "settled L cpus seed xs sched a res"
  shows "solve_on L (blake3_compute L) (at_pubkey a) (at_compute a) (u256_bigint L seed) cpus (observed xs) False sched = res"
    and "solve_on L (blake3_compute L) (at_pubkey a) (at_compute a) (u256_bigint L seed) cpus (observed xs) False (sched @ later) = None
      \<or> solve_on L (blake3_compute L) (at_pubkey a) (at_compute a) (u256_bigint L seed) cpus (observed xs) False (sched @ later) = res"
  using assms [unfolded settled_def, rule_format, of "[]"] assms [unfolded settled_def, rule_format, of later]
  by (simp_all add: Let_def)

lemma mining_step_solved:
  assumes p: "prepared L r st d h s st'" and a: "solver_at L cpus d h s (mn_seed st) found (rd_loads r) sched' a"
    and solved: "solve_on L (blake3_compute L) (at_pubkey a) (at_compute a) (u256_bigint L (mn_seed st)) cpus
      (observed (rd_loads r)) False sched = Some (res, c)"
  shows "mining_step L cpus (env_of (r\<lparr>rd_sched := sched\<rparr>)) st =
     (case res of
        None \<Rightarrow> Some (st'\<lparr>mn_seed := next_seed (mn_seed st')\<rparr>, Failed)
      | Some sols \<Rightarrow> do {
          sol_1 \<leftarrow> to_u256 L (fst sols);
          sol_2 \<leftarrow> to_u256 L (snd sols);
          Some (st'\<lparr>mn_seed := 1\<rparr>, Submitted (encode_seal L
            \<lparr>seal_difficulty = d, seal_pubkey = to_raw L (at_pubkey a), seal_seeds = at_seeds a,
              seal_solutions = (sol_1, sol_2), seal_nonce = get_nonce c\<rparr>)) })"
proof -
  have c: "at_compute a = \<lparr>cmp_difficulty = d, cmp_pre_hash = h, cmp_nonce = 1\<rparr>"
    using a by (simp add: solver_at_def)
  have seed: "mn_seed st' = mn_seed st"
    using p by (simp add: prepared_def)
  show ?thesis
    using a by (simp add: mining_step_prepared [OF p] try_cpu_mining_def solver_at_def solved [unfolded c] seed Let_def
        split: option.split Option.bind_split)
qed

lemma mining_step_unsolved:
  assumes p: "prepared L r st d h s st'" and a: "solver_at L cpus d h s (mn_seed st) found (rd_loads r) sched' a"
    and solved: "solve_on L (blake3_compute L) (at_pubkey a) (at_compute a) (u256_bigint L (mn_seed st)) cpus
      (observed (rd_loads r)) False sched = None"
  shows "mining_step L cpus (env_of (r\<lparr>rd_sched := sched\<rparr>)) st = None"
proof -
  have c: "at_compute a = \<lparr>cmp_difficulty = d, cmp_pre_hash = h, cmp_nonce = 1\<rparr>"
    using a by (simp add: solver_at_def)
  have seed: "mn_seed st' = mn_seed st"
    using p by (simp add: prepared_def)
  show ?thesis
    using a by (simp add: mining_step_prepared [OF p] try_cpu_mining_def solver_at_def solved [unfolded c] seed Let_def)
qed

lemma end_attempt_progress:
  assumes p: "prepared L r st d h s (mt_state th)"
    and a: "solver_at L cpus d h s (mn_seed st) found (rd_loads r) (rd_sched r) a"
    and settled: "settled L cpus (mn_seed st) (rd_loads r) (rd_sched r) a (Some (res, c))"
  shows "progress L cpus r found' st th (end_attempt L a res c th)"
proof -
  note step = mining_step_solved [OF p a settledD(1) [OF settled]]
  show ?thesis
  proof (cases res)
    case None
    then show ?thesis
      using progress_ends step by (simp add: end_attempt_def)
  next
    case (Some sols)
    show ?thesis
    proof (cases "to_u256 L (fst sols) = None \<or> to_u256 L (snd sols) = None")
      case True
      have "mining_step L cpus (env_of (r\<lparr>rd_sched := rd_sched r @ later\<rparr>)) st = None" for later
        using settledD(2) [OF settled, of later]
      proof
        assume "solve_on L (blake3_compute L) (at_pubkey a) (at_compute a) (u256_bigint L (mn_seed st)) cpus
          (observed (rd_loads r)) False (rd_sched r @ later) = None"
        then show ?thesis
          by (rule mining_step_unsolved [OF p a])
      next
        assume "solve_on L (blake3_compute L) (at_pubkey a) (at_compute a) (u256_bigint L (mn_seed st)) cpus
          (observed (rd_loads r)) False (rd_sched r @ later) = Some (res, c)"
        then show ?thesis
          using mining_step_solved [OF p a] Some True by (auto split: Option.bind_split)
      qed
      then have "panics_on L cpus r st"
        by (simp add: panics_on_def)
      then show ?thesis
        using Some True progress_panics by (auto simp: end_attempt_def split: option.split Option.bind_split)
    next
      case False
      then show ?thesis
        using Some step a by (auto simp: end_attempt_def solver_at_def intro!: progress_goes_on)
    qed
  qed
qed

lemma end_attempt_panics:
  assumes p: "prepared L r st d h s (mt_state th)"
    and a: "solver_at L cpus d h s (mn_seed st) found (rd_loads r) (rd_sched r) a"
    and settled: "settled L cpus (mn_seed st) (rd_loads r) (rd_sched r) a None"
  shows "progress L cpus r found' st th (th\<lparr>mt_pc := Panicked\<rparr>)"
proof (rule progress_panics)
  have "mining_step L cpus (env_of (r\<lparr>rd_sched := rd_sched r @ later\<rparr>)) st = None" for later
    using settledD(2) [OF settled, of later] by (intro mining_step_unsolved [OF p a]) blast
  then show "panics_on L cpus r st"
    by (simp add: panics_on_def)
qed

lemma solve_on_dist:
  "\<not> several cpus \<Longrightarrow> solve_on L H k c seed cpus obs flag sched = do {
    (r, c, stored) \<leftarrow> solve_dist L H k c seed MINING_GRAIN obs; Some (r, c) }"
  by (auto simp: solve_on_def several_def Let_def split: option.splits)

lemma solve_on_parallel:
  "several cpus \<Longrightarrow> solve_on L H k c seed cpus obs flag sched =
     solve_parallel L H k c seed MINING_GRAIN flag (the cpus) sched"
  by (auto simp: solve_on_def several_def Let_def split: option.splits)

lemma flagged_same: "sh_found (ps_shared ps) = found \<Longrightarrow> flagged found ps = ps"
  by (cases ps; cases "ps_shared ps") (simp add: flagged_def)

lemma start_solver_None:
  "start_solver L cpus k c seed = None \<Longrightarrow> solve_on L (blake3_compute L) k c seed cpus obs False sched = None"
  by (auto simp: start_solver_def solve_on_def solve_parallel_def Let_def split: option.splits if_splits)

lemma begin_attempt_stage:
  assumes p: "prepared L r st d h s st'"
  shows "begin_attempt L cpus d h s (mn_seed st') = None \<Longrightarrow> panics_on L cpus r st"
    and "begin_attempt L cpus d h s (mn_seed st') = Some a \<Longrightarrow> solver_at L cpus d h s (mn_seed st) False [] [] a"
proof -
  have seed: "mn_seed st' = mn_seed st"
    using p by (simp add: prepared_def)
  show "begin_attempt L cpus d h s (mn_seed st') = None \<Longrightarrow> panics_on L cpus r st"
    unfolding panics_on_def mining_step_prepared [OF p]
    by (auto simp: begin_attempt_def try_cpu_mining_def start_solver_None Let_def split: Option.bind_splits)
  show "begin_attempt L cpus d h s (mn_seed st') = Some a \<Longrightarrow> solver_at L cpus d h s (mn_seed st) False [] [] a"
    by (auto simp: begin_attempt_def solver_at_def start_solver_def several_def resume_start seed Let_def
        bind_eq_Some_conv par_init_def flagged_def split: option.splits if_splits)
qed


text \<open>An action of \<open>solve_dist\<close>.\<close>

lemma settled_dist:
  assumes "\<not> several cpus"
    and "solve_dist L (blake3_compute L) (at_pubkey a) (at_compute a) (u256_bigint L seed) MINING_GRAIN (observed xs)
      = map_option (\<lambda>(r, c). (r, c, r \<noteq> None)) res"
  shows "settled L cpus seed xs sched a res"
  using assms by (cases res) (auto simp: settled_def solve_on_dist)

lemma dist_progress:
  assumes p: "prepared L r st d h s (mt_state th)"
    and a: "solver_at L cpus d h s (mn_seed st) found (rd_loads r) (rd_sched r) a"
    and th: "mt_pc th = Solving a" and pc: "at_solver a = Dist_Run pc"
    and act: "solving_action L a sh th = Some (sh', th')"
  shows "progress L cpus (reads_at Thread_Acts sh (mt_pc th) r) (ns_found sh') st th th'"
proof -
  let ?H = "blake3_compute L" and ?k = "at_pubkey a" and ?r = "reads_at Thread_Acts sh (mt_pc th) r"
  have single: "\<not> several cpus"
    and solve: "answers obs 0 (rd_loads r) \<Longrightarrow> solve_dist L ?H ?k (at_compute a) (u256_bigint L (mn_seed st)) MINING_GRAIN obs
      = resume L ?H ?k MINING_GRAIN obs pc (length (rd_loads r))" for obs
    using a unfolding solver_at_def pc solver_run.case by blast+
  define ys where "ys = (if loading pc then rd_loads r @ [ns_found sh] else rd_loads r)"
  have r: "?r = r\<lparr>rd_loads := ys\<rparr>"
    using th pc by (simp add: reads_at_def ys_def)
  show ?thesis
  proof (cases "dist_action L ?H ?k MINING_GRAIN (ns_found sh) pc")
    case None
    then have halted: "halted pc"
      by (simp only: dist_action_None_iff)
    then have same: "?r = r"
      by (cases pc) (simp_all add: r ys_def)
    note s = solve [OF answers_observed]
    show ?thesis
    proof (cases pc)
      case Dist_Crashed
      then have "settled L cpus (mn_seed st) (rd_loads r) (rd_sched r) a None"
        using s by (intro settled_dist [OF single]) simp
      then show ?thesis
        using end_attempt_panics [OF p a] act None pc Dist_Crashed same by (auto simp: solving_action_def)
    next
      case (Dist_Returned res c)
      then have "settled L cpus (mn_seed st) (rd_loads r) (rd_sched r) a (Some (res, c))"
        using s by (intro settled_dist [OF single]) simp
      then show ?thesis
        using end_attempt_progress [OF p a] act None pc Dist_Returned same by (auto simp: solving_action_def)
    qed (use halted in simp_all)
  next
    case (Some y)
    then obtain found' pc' where da: "dist_action L ?H ?k MINING_GRAIN (ns_found sh) pc = Some (found', pc')"
      by (cases y) auto
    have p': "prepared L ?r st d h s (mt_state th)"
      using p by (simp add: r prepared_def)
    have "solve_dist L ?H ?k (at_compute a) (u256_bigint L (mn_seed st)) MINING_GRAIN obs
        = resume L ?H ?k MINING_GRAIN obs pc' (length ys)" if "answers obs 0 ys" for obs
    proof -
      have "answers obs 0 (rd_loads r)" "loading pc \<longrightarrow> obs (length (rd_loads r)) = ns_found sh"
        using that by (auto simp: ys_def answers_append split: if_splits)
      then show ?thesis
        using solve dist_action_resume [OF da, of obs "length (rd_loads r)"] by (simp add: ys_def)
    qed
    then have "solver_at L cpus d h s (mn_seed st) (ns_found sh') (rd_loads ?r) (rd_sched ?r) (a\<lparr>at_solver := Dist_Run pc'\<rparr>)"
      using a pc by (simp add: r solver_at_def)
    with p' have "stage L cpus ?r (ns_found sh') st (Solving (a\<lparr>at_solver := Dist_Run pc'\<rparr>)) (mt_state th)"
      by (simp only: stage.simps) blast
    then show ?thesis
      using act da pc by (intro progress_goes_on) (auto simp: solving_action_def simp del: stage.simps)
  qed
qed

text \<open>The end of \<open>solve_parallel\<close>: no event changes what the threads that have been joined leave behind.\<close>

lemma join_workers_Some: "join_workers ws = Some ok \<Longrightarrow> ok \<longleftrightarrow> list_all (\<lambda>w. w_pc w = Returned) ws"
  by (induction ws) (auto split: pc.splits)

lemma join_workers_crashed: "join_workers ws = Some False \<Longrightarrow> list_ex (\<lambda>w. w_pc w = Crashed) ws"
  by (induction ws) (auto split: pc.splits)

lemma crashed_stays:
  assumes "par_run L H k grain es ps = Some ps'" and "list_ex (\<lambda>w. w_pc w = Crashed) (ps_workers ps)"
  shows "list_ex (\<lambda>w. w_pc w = Crashed) (ps_workers ps')"
  using assms
proof (induction es arbitrary: ps)
  case Nil
  then show ?case by simp
next
  case (Cons e es)
  then obtain ps1 where ps1: "par_event L H k grain e ps = Some ps1" "par_run L H k grain es ps1 = Some ps'"
    by (auto simp: bind_eq_Some_conv)
  obtain j where j: "j < length (ps_workers ps)" "w_pc (ps_workers ps ! j) = Crashed"
    using Cons.prems(2) by (auto simp: list_ex_length)
  have "list_ex (\<lambda>w. w_pc w = Crashed) (ps_workers ps1)"
  proof (cases e)
    case (Act i)
    then have "i \<noteq> j"
      using ps1(1) j by (auto simp: par_action_def worker_action_def split: if_splits)
    then show ?thesis
      using ps1(1) j Act by (auto simp: par_action_def bind_eq_Some_conv list_ex_length split: if_splits intro!: exI [of _ j])
  qed (use ps1(1) Cons.prems(2) in auto)
  then show ?case
    by (rule Cons.IH [OF ps1(2)])
qed

lemma joined_stays: "joined ps \<Longrightarrow> par_run L H k grain es ps = Some ps' \<Longrightarrow> \<exists>found. ps' = flagged found ps"
proof (induction es arbitrary: ps)
  case Nil
  then show ?case
    using flagged_same [OF refl, of ps] by (intro exI [of _ "sh_found (ps_shared ps)"]) simp
next
  case (Cons e es)
  then obtain ps1 where ps1: "par_event L H k grain e ps = Some ps1" "par_run L H k grain es ps1 = Some ps'"
    by (auto simp: bind_eq_Some_conv)
  have ps: "ps1 = flagged True ps"
  proof (cases e)
    case (Act i)
    then have "i < length (ps_workers ps)" "par_action L H k grain i ps = Some ps1"
      using ps1(1) by (auto simp: par_action_def split: if_splits)
    moreover from this have "w_pc (ps_workers ps ! i) = Returned"
      using Cons.prems(1) by (simp add: joined_def list_all_length)
    ultimately show ?thesis
      by (simp add: par_action_def worker_action_def)
  qed (use ps1(1) in \<open>simp add: flagged_def\<close>)
  then have "joined ps1"
    using Cons.prems(1) by (simp add: joined_def flagged_def)
  then show ?case
    using Cons.IH [OF _ ps1(2)] unfolding ps by (auto simp: flagged_def)
qed

lemma settled_par:
  assumes init: "several cpus" "par_init L (at_pubkey a) (at_compute a) (u256_bigint L seed) False (the cpus) = Some ps0"
      "par_run L (blake3_compute L) (at_pubkey a) MINING_GRAIN sched ps0 = Some (flagged found ps)"
    and ok: "join_workers (ps_workers ps) = Some ok"
  shows "settled L cpus seed xs sched a (if ok then par_result (blake3_compute L) ps (at_compute a) else None)"
proof -
  have ends: "(if joined ps' then par_result (blake3_compute L) ps' (at_compute a) else None)
      = (if ok then par_result (blake3_compute L) ps (at_compute a) else None)"
    if run: "par_run L (blake3_compute L) (at_pubkey a) MINING_GRAIN es (flagged found ps) = Some ps'" for es ps'
  proof (cases ok)
    case True
    then have "joined (flagged found ps)"
      using join_workers_Some [OF ok] by (simp add: joined_def flagged_def)
    then show ?thesis
      using joined_stays [OF _ run] True by (auto simp: joined_def flagged_def par_result_def)
  next
    case False
    then have "list_ex (\<lambda>w. w_pc w = Crashed) (ps_workers ps)"
      using join_workers_crashed ok by simp
    then have "list_ex (\<lambda>w. w_pc w = Crashed) (ps_workers ps')"
      using crashed_stays [OF run] by (simp add: flagged_def)
    then show ?thesis
      using False by (auto simp: joined_def list_ex_iff list_all_iff)
  qed
  show ?thesis
    unfolding settled_def Let_def solve_on_parallel [OF init(1)] solve_parallel_def init(2) Option.bind.simps par_run_append init(3)
    using ends [of "[]"] ends by (auto split: Option.bind_split)
qed

lemma join_progress:
  assumes p: "prepared L r st d h s (mt_state th)"
    and a: "solver_at L cpus d h s (mn_seed st) found (rd_loads r) (rd_sched r) a"
    and th: "mt_pc th = Solving a" and ps: "at_solver a = Par_Run ps" and act: "solving_action L a sh th = Some (sh', th')"
  shows "progress L cpus (reads_at Thread_Acts sh (mt_pc th) r) (ns_found sh') st th th'"
proof -
  have r: "reads_at Thread_Acts sh (mt_pc th) r = r"
    using th ps by (simp add: reads_at_def)
  obtain ok where ok: "join_workers (ps_workers ps) = Some ok"
    using act ps by (auto simp: solving_action_def bind_eq_Some_conv)
  have settled: "settled L cpus (mn_seed st) (rd_loads r) (rd_sched r) a (if ok then par_result (blake3_compute L) ps (at_compute a) else None)"
  proof -
    obtain ps0 where "several cpus" "par_init L (at_pubkey a) (at_compute a) (u256_bigint L (mn_seed st)) False (the cpus) = Some ps0"
        "par_run L (blake3_compute L) (at_pubkey a) MINING_GRAIN (rd_sched r) ps0 = Some (flagged found ps)"
      using a ps unfolding solver_at_def by auto
    then show ?thesis
      by (rule settled_par [OF _ _ _ ok])
  qed
  show ?thesis
  proof (cases "if ok then par_result (blake3_compute L) ps (at_compute a) else None")
    case None
    then show ?thesis
      using end_attempt_panics [OF p a] settled act ps ok r by (auto simp: solving_action_def)
  next
    case (Some rc)
    then obtain res c where rc: "(if ok then par_result (blake3_compute L) ps (at_compute a) else None) = Some (res, c)"
      by (cases rc) auto
    then have "th' = end_attempt L a res c th"
      using act ps ok by (auto simp: solving_action_def split: if_splits)
    then show ?thesis
      using end_attempt_progress [OF p a settled [unfolded rc]] by (simp add: r)
  qed
qed

text \<open>An action of a worker, and an import while the solver runs.\<close>

lemma stage_solving:
  "prepared L r st d h s st' \<Longrightarrow> solver_at L cpus d h s (mn_seed st) found (rd_loads r) (rd_sched r) a \<Longrightarrow>
   stage L cpus r found st (Solving a) st'"
  by (simp only: stage.simps) blast

lemma worker_progress:
  assumes st: "stage L cpus r (ns_found sh) st (mt_pc th) (mt_state th)"
    and act: "worker_acts L i sh th = Some (sh', th')"
  shows "progress L cpus (reads_at (Worker_Acts i) sh (mt_pc th) r) (ns_found sh') st th th'"
proof -
  obtain a where pc: "mt_pc th = Solving a"
    using act by (auto simp: worker_acts_def split: thread_pc.splits)
  then obtain d h s where p: "prepared L r st d h s (mt_state th)"
      and a: "solver_at L cpus d h s (mn_seed st) (ns_found sh) (rd_loads r) (rd_sched r) a"
    using st by (simp only: stage.simps) blast
  obtain ps ps' where ps: "at_solver a = Par_Run ps"
      and act': "par_action L (blake3_compute L) (at_pubkey a) MINING_GRAIN i (flagged (ns_found sh) ps) = Some ps'"
      and sh': "ns_found sh' = sh_found (ps_shared ps')"
      and th': "th' = th\<lparr>mt_pc := Solving (a\<lparr>at_solver := Par_Run ps'\<rparr>)\<rparr>"
    using act pc by (auto simp: worker_acts_def flagged_def bind_eq_Some_conv split: solver_run.splits)
  let ?r = "r\<lparr>rd_sched := rd_sched r @ [Act i]\<rparr>"
  have r: "reads_at (Worker_Acts i) sh (mt_pc th) r = ?r"
    using pc by (simp add: reads_at_def)
  have "flagged (ns_found sh') ps' = ps'"
    using sh' by (simp add: flagged_same)
  then have "solver_at L cpus d h s (mn_seed st) (ns_found sh') (rd_loads ?r) (rd_sched ?r) (a\<lparr>at_solver := Par_Run ps'\<rparr>)"
    using a ps act' by (auto simp: solver_at_def par_run_append)
  then have "stage L cpus ?r (ns_found sh') st (Solving (a\<lparr>at_solver := Par_Run ps'\<rparr>)) (mt_state th)"
    using p by (intro stage_solving) (simp_all add: prepared_def)
  then show ?thesis
    unfolding r using th' by (intro progress_goes_on) (simp_all del: stage.simps)
qed

lemma import_progress:
  assumes st: "stage L cpus r (ns_found sh) st (mt_pc th) (mt_state th)"
  shows "stage L cpus (reads_at Import_Begins sh (mt_pc th) r) True st (mt_pc th) (mt_state th)"
proof (cases "mt_pc th")
  case (Solving a)
  then obtain d h s where p: "prepared L r st d h s (mt_state th)"
      and a: "solver_at L cpus d h s (mn_seed st) (ns_found sh) (rd_loads r) (rd_sched r) a"
    using st by (simp only: stage.simps) blast
  let ?r = "r\<lparr>rd_sched := rd_sched r @ [Import]\<rparr>"
  have "solver_at L cpus d h s (mn_seed st) True (rd_loads ?r) (rd_sched ?r) a"
    using a by (auto simp: solver_at_def par_run_append flagged_def split: solver_run.splits)
  moreover have "prepared L ?r st d h s (mt_state th)"
    using p by (simp add: prepared_def)
  moreover have "reads_at Import_Begins sh (mt_pc th) r = ?r"
    using Solving by (simp add: reads_at_def)
  ultimately show ?thesis
    unfolding Solving by (simp only: Solving stage_solving)
qed (use st in \<open>auto simp: reads_at_def\<close>)

lemma thread_action_progress:
  assumes act: "thread_action L cpus sh th = Some (sh', th')" and st: "stage L cpus r (ns_found sh) st (mt_pc th) (mt_state th)"
  shows "progress L cpus (reads_at Thread_Acts sh (mt_pc th) r) (ns_found sh') st th th'"
proof (cases "mt_pc th")
  case Read_Metadata
  then show ?thesis
    using act st by (intro progress_goes_on) (auto simp: thread_action_def reads_at_def reading_start_def)
next
  case (Read_Info md)
  let ?r = "reads_at Thread_Acts sh (mt_pc th) r"
  have r: "?r = r\<lparr>rd_chain := ns_chain sh\<rparr>" and md: "md = rd_metadata r" "rd_loads r = []" "rd_sched r = []" "mt_state th = st"
    using st Read_Info by (simp_all add: reads_at_def)
  show ?thesis
  proof (cases "bc_best_number (ns_chain sh) = 0")
    case True
    have "progress L cpus ?r (ns_found sh') st th (decide (rd_metadata ?r) (Some (genesis_seal INIT_DIFFICULTY)) 0 th)"
      by (rule decide_progress) (simp_all add: r md find_seal_def True)
    moreover have "th' = decide (rd_metadata ?r) (Some (genesis_seal INIT_DIFFICULTY)) 0 th"
      using act True md(1) Read_Info by (auto simp: thread_action_def Let_def reads_at_def)
    ultimately show ?thesis
      by simp
  next
    case False
    then show ?thesis
      using act Read_Info md by (intro progress_goes_on) (auto simp: thread_action_def Let_def reads_at_def)
  qed
next
  case (Read_Header md best_hash best_num)
  let ?r = "reads_at Thread_Acts sh (mt_pc th) r"
  have r: "?r = r\<lparr>rd_chain := (rd_chain r)\<lparr>bc_header := bc_header (ns_chain sh)\<rparr>\<rparr>"
    and md: "md = rd_metadata r" "best_hash = bc_best_hash (rd_chain r)" "best_num = bc_best_number (rd_chain r)" "best_num \<noteq> 0"
      "rd_loads r = []" "rd_sched r = []" "mt_state th = st"
    using st Read_Header by (auto simp: reads_at_def)
  define s where "s = do {
      header \<leftarrow> bc_header (ns_chain sh) best_hash;
      (case header of Some digest \<Rightarrow> pop_seal L (rev digest) | None \<Rightarrow> Some None) }"
  have fs: "find_seal L (rd_chain ?r) = map_option (\<lambda>s. (s, best_num)) s"
    using md(4) by (auto simp: find_seal_def r md(2,3) s_def map_option_case split: Option.bind_splits option.splits)
  have th': "th' = (case s of None \<Rightarrow> th\<lparr>mt_pc := Panicked\<rparr> | Some s \<Rightarrow> decide md s best_num th)"
    using act unfolding thread_action_def Read_Header thread_pc.case s_def by blast
  show ?thesis
  proof (cases s)
    case None
    then have "panics_on L cpus ?r st"
      using fs by (simp add: panics_on_def mining_step_def)
    then show ?thesis
      using None th' progress_panics by simp
  next
    case (Some seal)
    then have "progress L cpus ?r (ns_found sh') st th (decide (rd_metadata ?r) seal best_num th)"
      using fs md by (intro decide_progress) (simp_all add: r)
    then show ?thesis
      using Some th' md(1) by (simp add: r)
  qed
next
  case (Reset_Flag d h s)
  then have p: "prepared L r st d h s (mt_state th)" and none: "rd_loads r = []" "rd_sched r = []"
    using st by simp_all
  have r: "reads_at Thread_Acts sh (mt_pc th) r = r"
    using Reset_Flag by (simp add: reads_at_def)
  show ?thesis
  proof (cases "begin_attempt L cpus d h s (mn_seed (mt_state th))")
    case None
    then show ?thesis
      using act Reset_Flag progress_panics [OF begin_attempt_stage(1) [OF p None]] by (auto simp: thread_action_def reads_at_def)
  next
    case (Some a)
    then have "stage L cpus r False st (Solving a) (mt_state th)"
      using begin_attempt_stage(2) [OF p Some] none by (intro stage_solving [OF p]) simp
    then show ?thesis
      using act Reset_Flag Some by (intro progress_goes_on) (auto simp: thread_action_def reads_at_def simp del: stage.simps)
  qed
next
  case (Solving a)
  then obtain d h s where p: "prepared L r st d h s (mt_state th)"
      and a: "solver_at L cpus d h s (mn_seed st) (ns_found sh) (rd_loads r) (rd_sched r) a"
    using st by (simp only: stage.simps) blast
  have act': "solving_action L a sh th = Some (sh', th')"
    using act Solving by (simp add: thread_action_def)
  show ?thesis
    by (cases "at_solver a") (use dist_progress [OF p a Solving _ act'] join_progress [OF p a Solving _ act'] in simp_all)
next
  case (Submit coded)
  then show ?thesis
    using act st progress_ends by (fastforce simp: thread_action_def reads_at_def)
next
  case Panicked
  then show ?thesis
    using act by (simp add: thread_action_def)
qed

section \<open>Runs\<close>

lemma mining_run_snoc:
  "mining_run L cpus envs st0 = Some (st, outs) \<Longrightarrow> mining_step L cpus e st = Some (st', out) \<Longrightarrow>
   mining_run L cpus (envs @ [e]) st0 = Some (st', outs @ [out])"
  by (induction envs arbitrary: st0 outs) (auto simp: bind_eq_Some_conv)

text \<open>The iterations that are over, and the stage of the current one.\<close>

definition refines ::
  "('r, 'z) trex_libs_scheme \<Rightarrow> u8 option \<Rightarrow> mining_state \<Rightarrow> 'h reading list \<times> 'h reading \<Rightarrow> bool \<Rightarrow> 'h mining_thread \<Rightarrow> bool" where
  "refines L cpus st0 rs found th \<longleftrightarrow> (\<exists>st. mining_run L cpus (map env_of (fst rs)) st0 = Some (st, mt_log th)
     \<and> stage L cpus (snd rs) found st (mt_pc th) (mt_state th))"

lemma refines_event:
  assumes ref: "refines L cpus st0 (rs, r) (ns_found sh) th" and ev: "node_event L cpus e (sh, th) = Some (sh', th')"
  defines "r' \<equiv> reads_at e sh (mt_pc th) r"
  shows "refines L cpus st0 (if mt_log th' = mt_log th then (rs, r') else (rs @ [r'], r')) (ns_found sh') th'"
proof -
  obtain st where run: "mining_run L cpus (map env_of rs) st0 = Some (st, mt_log th)"
      and stage: "stage L cpus r (ns_found sh) st (mt_pc th) (mt_state th)"
    using ref by (auto simp: refines_def)
  have progress: ?thesis if prog: "progress L cpus r' (ns_found sh') st th th'"
    using prog unfolding progress_def
  proof
    assume "mt_log th' = mt_log th \<and> stage L cpus r' (ns_found sh') st (mt_pc th') (mt_state th')"
    then show ?thesis
      using run by (auto simp: refines_def)
  next
    assume "\<exists>out. mining_step L cpus (env_of r') st = Some (mt_state th', out) \<and> th' = next_iteration (mt_state th') out th"
    then obtain out where step: "mining_step L cpus (env_of r') st = Some (mt_state th', out)"
        and th': "th' = next_iteration (mt_state th') out th"
      by blast
    from th' have th'': "mt_pc th' = Read_Metadata" "mt_log th' = mt_log th @ [out]"
      by (cases th'; simp add: next_iteration_def)+
    then show ?thesis
      using mining_run_snoc [OF run step] by (auto simp: refines_def)
  qed
  have elsewhere: "progress L cpus r (ns_found sh') st th th'" if "th' = th" "ns_found sh' = ns_found sh"
    using that stage by (intro progress_goes_on) simp_all
  show ?thesis
  proof (cases e)
    case Thread_Acts
    then show ?thesis
      using progress thread_action_progress [OF _ stage] ev by (simp add: r'_def)
  next
    case (Worker_Acts i)
    then show ?thesis
      using progress worker_progress [OF stage] ev by (simp add: r'_def)
  next
    case Import_Begins
    then show ?thesis
      using import_progress [OF stage] ev by (intro progress progress_goes_on) (auto simp: r'_def simp del: stage.simps)
  qed (use progress elsewhere ev in \<open>auto simp: r'_def reads_at_def split: thread_pc.splits\<close>)
qed

abbreviation run_readings where
  "run_readings L cpus es sh0 st0 \<equiv> readings L cpus es (sh0, thread_start st0) ([], reading_start sh0)"

lemma node_run_refines:
  "node_run L cpus es (sh0, thread_start st0) = Some (sh, th) \<Longrightarrow>
   refines L cpus st0 (run_readings L cpus es sh0 st0) (ns_found sh) th"
proof (induction es arbitrary: sh th rule: rev_induct)
  case Nil
  then show ?case
    by (auto simp: refines_def thread_start_def)
next
  case (snoc e es)
  then obtain sh1 th1 where run: "node_run L cpus es (sh0, thread_start st0) = Some (sh1, th1)"
      and ev: "node_event L cpus e (sh1, th1) = Some (sh, th)"
    by (auto simp: node_run_append bind_eq_Some_conv)
  obtain rs r where rs: "run_readings L cpus es sh0 st0 = (rs, r)"
    by fastforce
  show ?case
    using refines_event [OF snoc.IH [OF run, unfolded rs] ev] readings_append [OF run ev rs] by (simp add: Let_def)
qed

text \<open>Every value an iteration read is one the node had at some time of the run.\<close>

definition taken :: "'h node_shared list \<Rightarrow> 'h reading \<Rightarrow> bool" where
  "taken seen r \<longleftrightarrow> rd_metadata r \<in> ns_metadata ` set seen
     \<and> (\<exists>x \<in> set seen. bc_best_hash (rd_chain r) = bc_best_hash (ns_chain x) \<and> bc_best_number (rd_chain r) = bc_best_number (ns_chain x))
     \<and> (\<exists>x \<in> set seen. bc_header (rd_chain r) = bc_header (ns_chain x))"

lemma taken_append: "taken seen r \<Longrightarrow> taken (seen @ xs) r"
  by (auto simp: taken_def)

lemma taken_reads: "taken seen r \<Longrightarrow> sh \<in> set seen \<Longrightarrow> taken seen (reads_at e sh pc r)"
  by (auto simp: taken_def reads_at_def reading_start_def split: thread_pc.split node_action.split solver_run.split)

lemma run_readings_taken:
  assumes "node_run L cpus es (sh0, thread_start st0) = Some y"
  shows "list_all (taken (node_seen L cpus es (sh0, thread_start st0)))
    (snd (run_readings L cpus es sh0 st0) # fst (run_readings L cpus es sh0 st0))"
  using assms
proof (induction es arbitrary: y rule: rev_induct)
  case Nil
  then show ?case
    by (auto simp: taken_def reading_start_def)
next
  case (snoc e es)
  then obtain x where run: "node_run L cpus es (sh0, thread_start st0) = Some x" and ev: "node_event L cpus e x = Some y"
    by (auto simp: node_run_append bind_eq_Some_conv)
  obtain rs r where rs: "run_readings L cpus es sh0 st0 = (rs, r)"
    by fastforce
  let ?seen = "node_seen L cpus es (sh0, thread_start st0)"
  have seen: "fst x \<in> set ?seen"
    using last_node_seen [OF run] last_in_set by metis
  have "list_all (taken ?seen) (reads_at e (fst x) (mt_pc (snd x)) r # rs)"
    using snoc.IH [OF run] rs taken_reads [OF _ seen] by simp
  then have "list_all (taken (?seen @ [fst y])) (reads_at e (fst x) (mt_pc (snd x)) r # rs)"
    by (auto simp: list_all_iff taken_append)
  then show ?case
    by (simp add: readings_append [OF run ev rs] node_seen_append [OF run ev] Let_def)
qed

end
