(* ===== verification/Thread_Runs.thy ===== *)
theory Thread_Runs
  imports Thread_Refinement Chain_Properties
begin

text \<open>
  Runs of the mining thread: when it can act, how a search ends after an import, a thread that rests at
  its height, a thread that nothing disturbs, and the runs of the reference node that the witnesses use.
\<close>

section \<open>What a run reads\<close>

text \<open>What the thread needs of the node not to panic, and what it then submits.\<close>

definition readable :: "('r, 'z) trex_libs_scheme \<Rightarrow> 'h node_shared \<Rightarrow> 'h node_shared \<Rightarrow> bool" where
  "readable L x y \<longleftrightarrow> find_seal L \<lparr>bc_best_hash = bc_best_hash (ns_chain x),
     bc_best_number = bc_best_number (ns_chain x), bc_header = bc_header (ns_chain y)\<rparr> \<noteq> None"

definition buildable :: "'h node_shared \<Rightarrow> bool" where
  "buildable x \<longleftrightarrow> (case ns_metadata x of None \<Rightarrow> True | Some (d, h) \<Rightarrow> difficulty_ok d)"

lemma taken_readable:
  assumes "taken seen r" and "list_all (\<lambda>x. list_all (readable L x) seen) seen"
  shows "find_seal L (rd_chain r) \<noteq> None"
proof -
  obtain x y where xy: "x \<in> set seen" "y \<in> set seen"
      "bc_best_hash (rd_chain r) = bc_best_hash (ns_chain x)" "bc_best_number (rd_chain r) = bc_best_number (ns_chain x)"
      "bc_header (rd_chain r) = bc_header (ns_chain y)"
    using assms(1) unfolding taken_def by blast
  then have "readable L x y"
    using assms(2) by (simp add: list_all_iff)
  moreover have "rd_chain r = \<lparr>bc_best_hash = bc_best_hash (ns_chain x),
     bc_best_number = bc_best_number (ns_chain x), bc_header = bc_header (ns_chain y)\<rparr>"
    using xy(3-5) by (cases "rd_chain r") simp
  ultimately show ?thesis
    by (simp add: readable_def)
qed

lemma taken_buildable:
  assumes "taken seen r" and "list_all buildable seen" and "rd_metadata r = Some (d, h)"
  shows "difficulty_ok d"
proof -
  obtain x where "x \<in> set seen" "ns_metadata x = Some (d, h)"
    using assms(1,3) by (auto simp: taken_def)
  then show ?thesis
    using assms(2) by (auto simp: list_all_iff buildable_def)
qed

lemma several_None: "\<not> several None"
  by (simp add: several_def)

lemma not_several: "\<not> several cpus \<Longrightarrow> cpus = None \<or> cpus = Some (the cpus) \<and> the cpus \<le> 1"
  by (auto simp: several_def split: option.splits)

lemma single_thread_acts:
  assumes "trex_node L" and run: "node_run L cpus es (sh0, thread_start st0) = Some (sh, th)"
    and "list_all (\<lambda>x. list_all (readable L x) (node_seen L cpus es (sh0, thread_start st0))) (node_seen L cpus es (sh0, thread_start st0))"
    and "list_all buildable (node_seen L cpus es (sh0, thread_start st0))" and single: "\<not> several cpus"
  shows "mt_pc th \<noteq> Panicked" and "thread_action L cpus sh th \<noteq> None"
proof -
  let ?r = "snd (run_readings L cpus es sh0 st0)"
  obtain st where stage: "stage L cpus ?r (ns_found sh) st (mt_pc th) (mt_state th)"
    using node_run_refines [OF run] by (auto simp: refines_def)
  have taken: "taken (node_seen L cpus es (sh0, thread_start st0)) ?r"
    using run_readings_taken [OF run] by simp
  show panicked: "mt_pc th \<noteq> Panicked"
  proof
    assume "mt_pc th = Panicked"
    then have "panics_on L cpus ?r st"
      using stage by simp
    then have e: "mining_step L cpus (env_of (?r\<lparr>rd_sched := rd_sched ?r @ []\<rparr>)) st = None"
      unfolding panics_on_def by blast
    have "\<exists>st' out. mining_step L cpus (env_of (?r\<lparr>rd_sched := rd_sched ?r @ []\<rparr>)) st = Some (st', out)"
      by (rule mining_step_returns [OF assms(1) not_several [OF single]])
        (use taken_readable [OF taken assms(3)] taken_buildable [OF taken assms(4)] in simp_all)
    then show False
      using e by simp
  qed
  have "\<exists>pc. at_solver a = Dist_Run pc" if "mt_pc th = Solving a" for a
  proof (cases "at_solver a")
    case (Par_Run ps)
    then show ?thesis
      using stage single that by (auto simp: solver_at_def)
  qed simp
  then show "thread_action L cpus sh th \<noteq> None"
    using panicked by (cases "mt_pc th") (auto simp: thread_action_def solving_action_def Let_def split: option.split)
qed

lemma submitted_in_run:
  "mining_run L cpus envs st0 = Some (st, outs) \<Longrightarrow> out \<in> set outs \<Longrightarrow>
   \<exists>e \<in> set envs. \<exists>st1 st2. mining_step L cpus e st1 = Some (st2, out)"
  by (induction envs arbitrary: st0 outs) (fastforce simp: bind_eq_Some_conv)+

section \<open>An import stops the search\<close>

fun acts :: "'h node_action list \<Rightarrow> nat" where
  "acts [] = 0"
| "acts (Thread_Acts # es) = Suc (acts es)"
| "acts (_ # es) = acts es"

fun no_workers :: "'h node_action list \<Rightarrow> bool" where
  "no_workers [] = True"
| "no_workers (Worker_Acts i # es) = False"
| "no_workers (_ # es) = no_workers es"

text \<open>A run along \<open>fs\<close> reaches \<open>th'\<close>, the flag set, by at most \<open>b\<close> actions of the thread.\<close>

definition reaches_within ::
  "('r, 'z) trex_libs_scheme \<Rightarrow> u8 option \<Rightarrow> nat \<Rightarrow> 'h node_action list \<Rightarrow> 'h node_shared \<Rightarrow> 'h mining_thread \<Rightarrow> 'h mining_thread \<Rightarrow> bool"
where
  "reaches_within L cpus b fs sh th th' \<longleftrightarrow> (\<exists>gs hs sh'. fs = gs @ hs \<and> acts gs \<le> b
     \<and> node_run L cpus gs (sh, th) = Some (sh', th') \<and> ns_found sh')"

lemma reaches_now: "ns_found sh \<Longrightarrow> reaches_within L cpus b fs sh th th"
  unfolding reaches_within_def by (intro exI [of _ "[]"] exI [of _ fs] exI [of _ sh]) simp

lemma reaches_mono: "reaches_within L cpus b fs sh th th' \<Longrightarrow> b \<le> b' \<Longrightarrow> reaches_within L cpus b' fs sh th th'"
  unfolding reaches_within_def by (blast intro: le_trans)

lemma reaches_Cons:
  assumes "node_event L cpus e (sh, th) = Some (sh1, th1)" and "reaches_within L cpus b fs sh1 th1 th'" and "acts [e] + b \<le> b'"
  shows "reaches_within L cpus b' (e # fs) sh th th'"
proof -
  obtain gs hs sh' where gs: "fs = gs @ hs" "acts gs \<le> b" "node_run L cpus gs (sh1, th1) = Some (sh', th')" "ns_found sh'"
    using assms(2) by (auto simp: reaches_within_def)
  have "acts (e # gs) = acts [e] + acts gs"
    by (cases e) simp_all
  then show ?thesis
    unfolding reaches_within_def using gs assms(1,3)
    by (intro exI [of _ "e # gs"] exI [of _ hs] exI [of _ sh']) simp
qed

lemma reaches_around:
  assumes "node_event L cpus e (sh, th) = Some (sh1, th)" and "acts [e] = 0" and "reaches_within L cpus b fs sh1 th th'"
  shows "reaches_within L cpus b (e # fs) sh th th'"
  by (rule reaches_Cons [OF assms(1,3)]) (simp add: assms(2))

text \<open>What a search that reads a set flag from now on still does, whatever happens around it.\<close>

definition gives_up :: "'h mining_thread \<Rightarrow> 'h mining_thread" where
  "gives_up th = next_iteration ((mt_state th)\<lparr>mn_seed := next_seed (mn_seed (mt_state th))\<rparr>) Failed th"

lemma search_stops:
  assumes "mt_pc th = Solving a" and "at_solver a = Dist_Run pc" and "\<not> won pc" and "ns_found sh"
    and "resume L (blake3_compute L) (at_pubkey a) MINING_GRAIN obs pc n \<noteq> None" and "\<forall>i \<ge> n. obs i"
    and "stop_measure MINING_GRAIN pc < acts fs" and "no_workers fs"
  shows "reaches_within L cpus (Suc (stop_measure MINING_GRAIN pc)) fs sh th (gives_up th)"
  using assms
proof (induction fs arbitrary: sh th a pc n)
  case Nil
  then show ?case by simp
next
  case (Cons e fs)
  show ?case
  proof (cases e)
    case Thread_Acts
    show ?thesis
    proof (cases "dist_action L (blake3_compute L) (at_pubkey a) MINING_GRAIN True pc")
      case None
      then have "halted pc"
        by (simp only: dist_action_None_iff)
      then obtain r c where r: "pc = Dist_Returned r c"
        using Cons.prems(5) by (cases pc) auto
      then have "pc = Dist_Returned None c"
        using Cons.prems(3) by (simp del: not_None_eq)
      then have "node_event L cpus e (sh, th) = Some (sh, gives_up th)"
        using Thread_Acts Cons.prems(1,2)
        by (simp add: thread_action_def solving_action_def end_attempt_def gives_up_def)
      then show ?thesis
        by (rule reaches_Cons [OF _ reaches_now [OF Cons.prems(4), where b = 0]]) (simp add: Thread_Acts)
    next
      case (Some r)
      then obtain found pc' where act: "dist_action L (blake3_compute L) (at_pubkey a) MINING_GRAIN True pc = Some (found, pc')"
        by (cases r) auto
      let ?a = "a\<lparr>at_solver := Dist_Run pc'\<rparr>" and ?n = "if loading pc then Suc n else n"
      let ?th = "th\<lparr>mt_pc := Solving ?a\<rparr>" and ?sh = "sh\<lparr>ns_found := True\<rparr>"
      have stop: "found" "\<not> won pc'" "stop_measure MINING_GRAIN pc' < stop_measure MINING_GRAIN pc"
        using dist_action_stops [OF act Cons.prems(3)] by simp_all
      have found: "ns_found sh = True"
        using Cons.prems(4) by simp
      have ev: "node_event L cpus e (sh, th) = Some (?sh, ?th)"
        using Thread_Acts Cons.prems(1,2) act stop(1) found by (simp add: thread_action_def solving_action_def)
      have "resume L (blake3_compute L) (at_pubkey a) MINING_GRAIN obs pc' ?n \<noteq> None"
        using dist_action_resume [OF act, of obs n] Cons.prems(5,6) by simp
      then have "reaches_within L cpus (Suc (stop_measure MINING_GRAIN pc')) fs ?sh ?th (gives_up ?th)"
        using Cons.IH [of ?th ?a pc' ?sh ?n] stop Cons.prems(6-8) Thread_Acts by simp
      moreover have "gives_up ?th = gives_up th"
        by (simp add: gives_up_def next_iteration_def)
      moreover have "acts [e] + Suc (stop_measure MINING_GRAIN pc') \<le> Suc (stop_measure MINING_GRAIN pc)"
        using stop(3) Thread_Acts by simp
      ultimately show ?thesis
        using reaches_Cons [OF ev] by simp
    qed
  next
    case (Worker_Acts i)
    then show ?thesis
      using Cons.prems(8) by simp
  next
    case Import_Begins
    then show ?thesis
      using Cons.IH [OF Cons.prems(1-3) _ Cons.prems(5,6), of "sh\<lparr>ns_found := True\<rparr>"] Cons.prems(7,8)
      by (intro reaches_around [of _ _ _ _ _ "sh\<lparr>ns_found := True\<rparr>"]) simp_all
  next
    case (Import_Ends bc)
    then show ?thesis
      using Cons.IH [OF Cons.prems(1-3) _ Cons.prems(5,6), of "sh\<lparr>ns_chain := bc\<rparr>"] Cons.prems(4,7,8)
      by (intro reaches_around [of _ _ _ _ _ "sh\<lparr>ns_chain := bc\<rparr>"]) simp_all
  next
    case (Rebuilt md)
    then show ?thesis
      using Cons.IH [OF Cons.prems(1-3) _ Cons.prems(5,6), of "sh\<lparr>ns_metadata := md\<rparr>"] Cons.prems(4,7,8)
      by (intro reaches_around [of _ _ _ _ _ "sh\<lparr>ns_metadata := md\<rparr>"]) simp_all
  qed
qed

context trex_node
begin

lemma node_solve_dist_returns: "key_ok k \<Longrightarrow> solve_dist L (blake3_compute L) k c seed grain obs \<noteq> None"
  using node.solve_dist_ok [of k c seed grain obs] by auto

end

lemma reached_search_stops:
  assumes "trex_node L" and "node_run L cpus es (sh0, thread_start st0) = Some (sh, th)"
    and "list_all buildable (node_seen L cpus es (sh0, thread_start st0))"
    and "mt_pc th = Solving a" and "at_solver a = Dist_Run pc" and "\<not> won pc" and "ns_found sh"
    and "20004 \<le> acts fs" and "no_workers fs"
  shows "reaches_within L cpus 20004 fs sh th (gives_up th)"
proof -
  let ?r = "snd (run_readings L cpus es sh0 st0)" and ?xs = "rd_loads (snd (run_readings L cpus es sh0 st0))"
  obtain d h s st where p: "prepared L ?r st d h s (mt_state th)"
      and a: "solver_at L cpus d h s (mn_seed st) (ns_found sh) ?xs (rd_sched ?r) a"
    using node_run_refines [OF assms(2)] unfolding refines_def assms(4) stage.simps by blast
  have "taken (node_seen L cpus es (sh0, thread_start st0)) ?r"
    using run_readings_taken [OF assms(2)] by simp
  then have "length (seal_seeds s) = SEEDS_LEN" and "difficulty_ok d"
    using p trex_node.find_seal_seeds [OF assms(1)] taken_buildable [OF _ assms(3)] by (auto simp: prepared_def)
  then have k: "key_ok (at_pubkey a)"
    using trex_node.puzzle_of_ok [OF assms(1), of s d] a by (auto simp: solver_at_def)
  define obs where "obs i = (i < length ?xs \<longrightarrow> ?xs ! i)" for i
  have "answers obs 0 ?xs"
    by (simp add: answers_def obs_def)
  then have "resume L (blake3_compute L) (at_pubkey a) MINING_GRAIN obs pc (length ?xs) \<noteq> None"
    using a trex_node.node_solve_dist_returns [OF assms(1) k] unfolding solver_at_def assms(5) solver_run.case by metis
  moreover have bound: "Suc (stop_measure MINING_GRAIN pc) \<le> 20004"
    using stop_measure_bound [of MINING_GRAIN pc] by (simp add: MINING_GRAIN_def)
  ultimately have "reaches_within L cpus (Suc (stop_measure MINING_GRAIN pc)) fs sh th (gives_up th)"
    using assms(4-9) by (intro search_stops) (auto simp: obs_def)
  then show ?thesis
    by (rule reaches_mono [OF _ bound])
qed

section \<open>An import silences the height\<close>

text \<open>A thread that has failed at the height \<open>num\<close> and finds it again.\<close>

definition resting :: "mining_state \<Rightarrow> mining_outcome list \<Rightarrow> 'h mining_thread \<Rightarrow> bool" where
  "resting st past th \<longleftrightarrow> mt_state th = st \<and> (\<exists>n. mt_log th = past @ replicate n Slept)
     \<and> (case mt_pc th of
          Read_Metadata \<Rightarrow> True | Read_Info _ \<Rightarrow> True | Read_Header _ _ num \<Rightarrow> num = mn_number st | Panicked \<Rightarrow> True
        | _ \<Rightarrow> False)"

lemma resting_sleeps: "resting st past th \<Longrightarrow> resting st past (next_iteration st Slept th)"
proof -
  assume r: "resting st past th"
  then obtain n where "mt_log th = past @ replicate n Slept"
    by (auto simp: resting_def)
  then have "mt_log (next_iteration st Slept th) = past @ replicate (Suc n) Slept"
    by (simp add: next_iteration_def replicate_append_same)
  then show ?thesis
    unfolding resting_def by (intro conjI exI [of _ "Suc n"]) (simp_all add: next_iteration_def)
qed

lemma resting_decides:
  assumes "resting st past th" and "mn_number st \<noteq> 0"
  shows "resting st past (decide md s (mn_number st) th)"
proof -
  have "mt_state th = st"
    using assms(1) by (simp add: resting_def)
  then have "decide md s (mn_number st) th = next_iteration st Slept th"
    using assms(2) by (auto simp: decide_def split: option.split)
  then show ?thesis
    using resting_sleeps [OF assms(1)] by simp
qed

lemma resting_action:
  assumes r: "resting st past th" and num: "mn_number st \<noteq> 0" "bc_best_number (ns_chain sh) = mn_number st"
    and act: "thread_action L cpus sh th = Some (sh', th')"
  shows "resting st past th'"
proof -
  have pc: "resting st past (th\<lparr>mt_pc := pc\<rparr>)"
    if "pc = Panicked \<or> (\<exists>md. pc = Read_Info md) \<or> (\<exists>md h. pc = Read_Header md h (mn_number st))" for pc
    using r that by (auto simp: resting_def)
  show ?thesis
    using r act num pc resting_decides [OF r num(1)]
    by (auto simp: resting_def [of _ _ th] thread_action_def Let_def split: thread_pc.splits option.splits)
qed

lemma resting_run:
  assumes "resting st past th" and "mn_number st \<noteq> 0" and "node_run L cpus hs (sh, th) = Some (sh', th')"
    and "list_all (\<lambda>x. bc_best_number (ns_chain x) = mn_number st) (node_seen L cpus hs (sh, th))"
  shows "resting st past th'"
  using assms(1,3,4)
proof (induction hs arbitrary: sh th)
  case Nil
  then show ?case by simp
next
  case (Cons e hs)
  obtain sh1 th1 where ev: "node_event L cpus e (sh, th) = Some (sh1, th1)" and run: "node_run L cpus hs (sh1, th1) = Some (sh', th')"
    using Cons.prems(2) by (auto simp: bind_eq_Some_conv)
  have num: "bc_best_number (ns_chain sh) = mn_number st"
      and later: "list_all (\<lambda>x. bc_best_number (ns_chain x) = mn_number st) (node_seen L cpus hs (sh1, th1))"
    using Cons.prems(3) ev by simp_all
  have "resting st past th1"
  proof (cases e)
    case Thread_Acts
    then show ?thesis
      using resting_action [OF Cons.prems(1) assms(2) num] ev by simp
  next
    case (Worker_Acts i)
    then show ?thesis
      using ev Cons.prems(1) by (auto simp: worker_acts_def resting_def split: thread_pc.splits)
  qed (use ev Cons.prems(1) in auto)
  then show ?case
    by (rule Cons.IH [OF _ run later])
qed

lemma node_seen_suffix:
  "node_run L cpus gs x = Some y \<Longrightarrow> set (node_seen L cpus hs y) \<subseteq> set (node_seen L cpus (gs @ hs) x)"
proof (induction gs arbitrary: x)
  case Nil
  then show ?case by simp
next
  case (Cons e gs)
  then obtain x' where x': "node_event L cpus e x = Some x'" "node_run L cpus gs x' = Some y"
    by (auto simp: bind_eq_Some_conv)
  show ?case
    using Cons.IH [OF x'(2)] x'(1) by auto
qed

section \<open>The thread alone\<close>

lemma node_run_Suc:
  "node_event L cpus e x = Some y \<Longrightarrow> node_run L cpus es y = Some z \<Longrightarrow> node_run L cpus (e # es) x = Some z"
  by simp

lemma solver_alone:
  assumes "resume L (blake3_compute L) (at_pubkey a) MINING_GRAIN (\<lambda>i. False) pc n = Some (r, c, b)"
    and "\<not> ns_found sh" and "mt_pc th = Solving a" and "at_solver a = Dist_Run pc"
  shows "\<exists>m found. node_run L cpus (replicate m Thread_Acts) (sh, th) =
    Some (sh\<lparr>ns_found := found\<rparr>, th\<lparr>mt_pc := Solving (a\<lparr>at_solver := Dist_Run (Dist_Returned r c)\<rparr>)\<rparr>)"
  using assms
proof (induction "dist_measure (search_len L (at_pubkey a)) pc" arbitrary: pc a sh th n rule: less_induct)
  case less
  show ?case
  proof (cases "dist_action L (blake3_compute L) (at_pubkey a) MINING_GRAIN False pc")
    case None
    then have "halted pc"
      by (simp only: dist_action_None_iff)
    then have "pc = Dist_Returned r c"
      using less.prems(1) by (cases pc) auto
    then have "node_run L cpus (replicate 0 Thread_Acts) (sh, th) =
        Some (sh\<lparr>ns_found := False\<rparr>, th\<lparr>mt_pc := Solving (a\<lparr>at_solver := Dist_Run (Dist_Returned r c)\<rparr>)\<rparr>)"
      using less.prems(2-4) by (cases sh; cases th; cases a) simp
    then show ?thesis
      by blast
  next
    case (Some q)
    then obtain found pc' where act: "dist_action L (blake3_compute L) (at_pubkey a) MINING_GRAIN False pc = Some (found, pc')"
      by (cases q) auto
    let ?a = "a\<lparr>at_solver := Dist_Run pc'\<rparr>"
    let ?sh = "sh\<lparr>ns_found := found\<rparr>" and ?th = "th\<lparr>mt_pc := Solving ?a\<rparr>"
    have ev: "node_event L cpus Thread_Acts (sh, th) = Some (?sh, ?th)"
      using less.prems(2-4) act by (simp add: thread_action_def solving_action_def)
    have left: "resume L (blake3_compute L) (at_pubkey a) MINING_GRAIN (\<lambda>i. False) pc'
        (if loading pc then Suc n else n) = Some (r, c, b)"
      using dist_action_resume [OF act, of "\<lambda>i. False" n] less.prems(1) by simp
    show ?thesis
    proof (cases found)
      case True
      then have "pc' = Dist_Returned r c"
        using act left by (cases pc) auto
      then have "node_run L cpus (replicate (Suc 0) Thread_Acts) (sh, th) =
          Some (?sh, th\<lparr>mt_pc := Solving (a\<lparr>at_solver := Dist_Run (Dist_Returned r c)\<rparr>)\<rparr>)"
        using ev by simp
      then show ?thesis
        by blast
    next
      case False
      then obtain m f where "node_run L cpus (replicate m Thread_Acts) (?sh, ?th) =
          Some (?sh\<lparr>ns_found := f\<rparr>, ?th\<lparr>mt_pc := Solving (?a\<lparr>at_solver := Dist_Run (Dist_Returned r c)\<rparr>)\<rparr>)"
        using less.hyps [of ?a pc' _ ?sh ?th] dist_action_measure [OF act] left by fastforce
      then have "node_run L cpus (replicate (Suc m) Thread_Acts) (sh, th) =
          Some (sh\<lparr>ns_found := f\<rparr>, th\<lparr>mt_pc := Solving (a\<lparr>at_solver := Dist_Run (Dist_Returned r c)\<rparr>)\<rparr>)"
        using node_run_Suc [OF ev] by simp
      then show ?thesis
        by blast
    qed
  qed
qed

text \<open>From the reset of the flag on, an undisturbed attempt that succeeds submits its seal.\<close>

lemma attempt_alone:
  assumes "mt_pc th = Reset_Flag d h s"
    and "try_cpu_mining L s \<lparr>cmp_difficulty = d, cmp_pre_hash = h, cmp_nonce = 1\<rparr> (mn_seed (mt_state th)) cpus
      (\<lambda>i. False) flag sched = Some (Some new, c')" and "\<not> several cpus"
  shows "\<exists>m found. node_run L cpus (replicate m Thread_Acts) (sh, th) =
    Some (sh\<lparr>ns_found := found\<rparr>, next_iteration ((mt_state th)\<lparr>mn_seed := 1\<rparr>) (Submitted (encode_seal L new)) th)"
proof -
  let ?c = "\<lparr>cmp_difficulty = d, cmp_pre_hash = h, cmp_nonce = 1\<rparr>" and ?seed = "mn_seed (mt_state th)"
  obtain k seeds sols t u b where k: "puzzle_of L s d = Some k"
      "new_seeds L 0 (yield_pub_keys L (seal_seeds s)) (replicate SEEDS_LEN (U128 1)) = Some seeds"
      and solve: "solve_dist L (blake3_compute L) k ?c (u256_bigint L ?seed) MINING_GRAIN (\<lambda>i. False) = Some (Some sols, c', b)"
      and tu: "to_u256 L (fst sols) = Some t" "to_u256 L (snd sols) = Some u"
      and new: "new = \<lparr>seal_difficulty = d, seal_pubkey = to_raw L k, seal_seeds = seeds,
        seal_solutions = (t, u), seal_nonce = get_nonce c'\<rparr>"
    using assms(2)
    by (auto simp: try_cpu_mining_def solve_on_dist [OF assms(3)] Let_def bind_eq_Some_conv simp del: SEEDS_LEN_176
        split: option.splits)
  define pc where "pc = dist_start L k ?c (u256_bigint L ?seed)"
  define a where "a = \<lparr>at_compute = ?c, at_pubkey = k, at_seeds = seeds, at_solver = Dist_Run pc\<rparr>"
  have a: "begin_attempt L cpus d h s ?seed = Some a"
    using k assms(3)
    by (auto simp: begin_attempt_def start_solver_def several_def a_def pc_def Let_def simp del: SEEDS_LEN_176 split: option.splits)
  let ?sh = "sh\<lparr>ns_found := False\<rparr>" and ?th = "th\<lparr>mt_pc := Solving a\<rparr>"
  have reset: "node_event L cpus Thread_Acts (sh, th) = Some (?sh, ?th)"
    using assms(1) a by (simp add: thread_action_def)
  have "resume L (blake3_compute L) (at_pubkey a) MINING_GRAIN (\<lambda>i. False) pc 0 = Some (Some sols, c', b)"
    using solve by (simp add: a_def pc_def resume_start)
  then obtain m found where run: "node_run L cpus (replicate m Thread_Acts) (?sh, ?th) =
      Some (?sh\<lparr>ns_found := found\<rparr>, ?th\<lparr>mt_pc := Solving (a\<lparr>at_solver := Dist_Run (Dist_Returned (Some sols) c')\<rparr>)\<rparr>)"
    using solver_alone [of L a pc 0 "Some sols" c' b ?sh ?th cpus] by (auto simp: a_def)
  have ends: "node_run L cpus [Thread_Acts, Thread_Acts]
      (sh\<lparr>ns_found := found\<rparr>, th\<lparr>mt_pc := Solving (a\<lparr>at_solver := Dist_Run (Dist_Returned (Some sols) c')\<rparr>)\<rparr>)
    = Some (sh\<lparr>ns_found := found\<rparr>, next_iteration ((mt_state th)\<lparr>mn_seed := 1\<rparr>) (Submitted (encode_seal L new)) th)"
    using tu by (simp add: thread_action_def solving_action_def end_attempt_def new next_iteration_def a_def)
  have "node_run L cpus (replicate m Thread_Acts @ [Thread_Acts, Thread_Acts]) (?sh, ?th) =
      Some (sh\<lparr>ns_found := found\<rparr>, next_iteration ((mt_state th)\<lparr>mn_seed := 1\<rparr>) (Submitted (encode_seal L new)) th)"
    using run ends by (simp add: node_run_append del: node_run.simps)
  from node_run_Suc [OF reset this]
  have "node_run L cpus (replicate (Suc (m + 2)) Thread_Acts) (sh, th) =
      Some (sh\<lparr>ns_found := found\<rparr>, next_iteration ((mt_state th)\<lparr>mn_seed := 1\<rparr>) (Submitted (encode_seal L new)) th)"
    by (simp only: replicate_Suc replicate_add numeral_2_eq_2 replicate_0)
  then show ?thesis
    by blast
qed

lemma late_import_run:
  assumes "mt_pc th = Read_Metadata" and "ns_metadata sh = Some (d, h)"
    and "find_seal L bc = Some (Some s, num)" and "bc_best_number bc \<noteq> 0" and "\<not> rests (mt_state th) num"
    and "try_cpu_mining L s \<lparr>cmp_difficulty = d, cmp_pre_hash = h, cmp_nonce = 1\<rparr> (mn_seed (mt_state th)) cpus
      (\<lambda>i. False) False [] = Some (Some new, c')" and "\<not> several cpus"
  shows "\<exists>m found. node_run L cpus ([Thread_Acts, Import_Begins, Import_Ends bc, Rebuilt md] @ replicate m Thread_Acts) (sh, th) =
      Some (\<lparr>ns_found = found, ns_metadata = md, ns_chain = bc\<rparr>,
        next_iteration \<lparr>mn_seed = 1, mn_number = num\<rparr> (Submitted (encode_seal L new)) th)"
proof -
  let ?sh = "\<lparr>ns_found = True, ns_metadata = md, ns_chain = bc\<rparr>"
  let ?th = "th\<lparr>mt_pc := Reset_Flag d h s, mt_state := (mt_state th)\<lparr>mn_number := num\<rparr>\<rparr>"
  have num: "num = bc_best_number bc"
    and header: "do { header \<leftarrow> bc_header bc (bc_best_hash bc);
        (case header of Some digest \<Rightarrow> pop_seal L (rev digest) | None \<Rightarrow> Some None) } = Some (Some s)"
    using assms(3,4) by (auto simp: find_seal_def split: Option.bind_splits option.splits)
  have before: "node_run L cpus [Thread_Acts, Import_Begins, Import_Ends bc, Rebuilt md] (sh, th) =
      Some (?sh, th\<lparr>mt_pc := Read_Info (Some (d, h))\<rparr>)"
    using assms(1,2) by (cases sh) (simp add: thread_action_def)
  have info: "node_event L cpus Thread_Acts (?sh, th\<lparr>mt_pc := Read_Info (Some (d, h))\<rparr>) =
      Some (?sh, th\<lparr>mt_pc := Read_Header (Some (d, h)) (bc_best_hash bc) num\<rparr>)"
    using assms(4) by (simp add: thread_action_def num)
  have decided: "node_event L cpus Thread_Acts (?sh, th\<lparr>mt_pc := Read_Header (Some (d, h)) (bc_best_hash bc) num\<rparr>) = Some (?sh, ?th)"
    using assms(5) by (auto simp: thread_action_def decide_def rests_def header)
  obtain m found where run: "node_run L cpus (replicate m Thread_Acts) (?sh, ?th) =
      Some (?sh\<lparr>ns_found := found\<rparr>, next_iteration ((mt_state ?th)\<lparr>mn_seed := 1\<rparr>) (Submitted (encode_seal L new)) ?th)"
    using attempt_alone [of ?th d h s L cpus False "[]" new c' ?sh] assms(6,7) by auto
  have "next_iteration ((mt_state ?th)\<lparr>mn_seed := 1\<rparr>) out ?th = next_iteration \<lparr>mn_seed = 1, mn_number = num\<rparr> out th" for out
    by (cases "mt_state th") (simp add: next_iteration_def)
  then have "node_run L cpus (replicate (Suc (Suc m)) Thread_Acts) (?sh, th\<lparr>mt_pc := Read_Info (Some (d, h))\<rparr>) =
      Some (\<lparr>ns_found = found, ns_metadata = md, ns_chain = bc\<rparr>,
        next_iteration \<lparr>mn_seed = 1, mn_number = num\<rparr> (Submitted (encode_seal L new)) th)"
    using node_run_Suc [OF info node_run_Suc [OF decided run]] by simp
  then show ?thesis
    using before by (intro exI [of _ "Suc (Suc m)"] exI [of _ found]) (simp only: node_run_append Option.bind.simps)
qed

section \<open>Reference runs\<close>

definition ref_shared :: "nat node_shared" where
  "ref_shared = \<lparr>ns_found = False, ns_metadata = Some (56, replicate 32 0), ns_chain = env_chain ref_env\<rparr>"

lemma ref_mines_alone:
  "\<exists>new. try_cpu_mining ref_trex_libs (genesis_seal 56) \<lparr>cmp_difficulty = 56, cmp_pre_hash = replicate 32 0, cmp_nonce = 1\<rparr>
     1 None (\<lambda>i. False) False [] = Some (Some new, ref_header 56 3)"
  using ref_try_cpu_mining [OF genesis_seal_seeds, of 56 False "[]"] by (simp add: ref_header_def)

text \<open>The actions of the thread alone change neither the chain nor the block being built.\<close>

lemma thread_action_keeps:
  "thread_action L cpus sh th = Some (sh', th') \<Longrightarrow> ns_metadata sh' = ns_metadata sh \<and> ns_chain sh' = ns_chain sh"
  by (auto simp: thread_action_def solving_action_def Let_def bind_eq_Some_conv
      split: thread_pc.splits solver_run.splits option.splits prod.splits)

fun quiet :: "'h node_action list \<Rightarrow> bool" where
  "quiet [] = True"
| "quiet (Thread_Acts # es) = quiet es"
| "quiet (Import_Begins # es) = quiet es"
| "quiet (_ # es) = False"

lemma quiet_replicate: "quiet (replicate m Thread_Acts)"
  by (induction m) simp_all

lemma quiet_append: "quiet (es @ fs) \<longleftrightarrow> quiet es \<and> quiet fs"
  by (induction es rule: quiet.induct) simp_all

lemma quiet_seen:
  "quiet es \<Longrightarrow> list_all (\<lambda>x. ns_metadata x = ns_metadata sh \<and> ns_chain x = ns_chain sh) (node_seen L cpus es (sh, th))"
proof (induction es arbitrary: sh th)
  case Nil
  then show ?case by simp
next
  case (Cons e es)
  show ?case
  proof (cases "node_event L cpus e (sh, th)")
    case None
    then show ?thesis by simp
  next
    case (Some x)
    then obtain sh' th' where ev: "node_event L cpus e (sh, th) = Some (sh', th')"
      by (cases x) auto
    then have "ns_metadata sh' = ns_metadata sh \<and> ns_chain sh' = ns_chain sh"
      using Cons.prems thread_action_keeps [of L cpus sh th sh' th'] by (cases e) auto
    moreover have "quiet es"
      using Cons.prems by (cases e) simp_all
    ultimately show ?thesis
      using Cons.IH [of sh' th'] ev by simp
  qed
qed

lemma ref_thread_run:
  "\<exists>m sh th coded. node_run ref_trex_libs None (replicate m Thread_Acts) (ref_shared, thread_start ref_mining) = Some (sh, th)
     \<and> mt_pc th = Read_Metadata \<and> mt_log th = [Submitted coded]"
proof -
  let ?th = "(thread_start ref_mining :: nat mining_thread)\<lparr>mt_pc := Reset_Flag 56 (replicate 32 0) (genesis_seal 56)\<rparr>"
  have pc: "mt_pc ?th = Reset_Flag 56 (replicate 32 0) (genesis_seal 56)" and seed: "mn_seed (mt_state ?th) = 1"
    by (simp_all add: thread_start_def ref_mining_def)
  obtain new where "try_cpu_mining ref_trex_libs (genesis_seal 56)
      \<lparr>cmp_difficulty = 56, cmp_pre_hash = replicate 32 0, cmp_nonce = 1\<rparr> (mn_seed (mt_state ?th)) None (\<lambda>i. False) False []
      = Some (Some new, ref_header 56 3)"
    using ref_mines_alone unfolding seed by blast
  then obtain m found where "node_run ref_trex_libs None (replicate m Thread_Acts) (ref_shared, ?th) =
      Some (ref_shared\<lparr>ns_found := found\<rparr>, next_iteration ((mt_state ?th)\<lparr>mn_seed := 1\<rparr>) (Submitted (encode_seal ref_trex_libs new)) ?th)"
    using attempt_alone [OF pc _ several_None] by blast
  moreover have "node_run ref_trex_libs None [Thread_Acts, Thread_Acts] (ref_shared, thread_start ref_mining) = Some (ref_shared, ?th)"
    by (simp add: thread_action_def thread_start_def decide_def ref_shared_def ref_env_def ref_mining_def INIT_DIFFICULTY_def)
  ultimately have "node_run ref_trex_libs None ([Thread_Acts, Thread_Acts] @ replicate m Thread_Acts) (ref_shared, thread_start ref_mining) =
      Some (ref_shared\<lparr>ns_found := found\<rparr>, next_iteration ((mt_state ?th)\<lparr>mn_seed := 1\<rparr>) (Submitted (encode_seal ref_trex_libs new)) ?th)"
    by (simp only: node_run_append Option.bind.simps)
  moreover have "[Thread_Acts, Thread_Acts] @ replicate m Thread_Acts = replicate (Suc (Suc m)) Thread_Acts"
    by simp
  ultimately show ?thesis
    by (intro exI [of _ "Suc (Suc m)"]) (auto simp: next_iteration_def thread_start_def)
qed

lemma ref_chain_readable:
  assumes "ns_chain x = env_chain ref_env \<or> ns_chain x = env_chain ref_env_1" and "ns_chain y = ns_chain x"
  shows "readable ref_trex_libs x y"
proof -
  have "find_seal ref_trex_libs (ns_chain x) \<noteq> None"
    using assms(1) ref_find_seal ref_find_seal_1 by auto
  moreover have "\<lparr>bc_best_hash = bc_best_hash (ns_chain x), bc_best_number = bc_best_number (ns_chain x),
      bc_header = bc_header (ns_chain y)\<rparr> = ns_chain x"
    using assms(2) by simp
  ultimately show ?thesis
    unfolding readable_def by (simp only:) simp
qed

lemma ref_buildable: "ns_metadata x = Some (56, replicate 32 0) \<Longrightarrow> buildable x"
  by (simp add: buildable_def ref_difficulty_ok)

text \<open>A run in which only the thread acts, after the events \<open>es\<close> have left chain and metadata alone.\<close>

lemma ref_constant_ok:
  assumes "list_all (\<lambda>x. ns_metadata x = Some (56, replicate 32 0) \<and> ns_chain x = bc) seen"
    and "bc = env_chain ref_env \<or> bc = env_chain ref_env_1"
  shows "list_all buildable seen" and "list_all (\<lambda>x. list_all (readable ref_trex_libs x) seen) seen"
proof -
  have each: "ns_metadata x = Some (56, replicate 32 0)" "ns_chain x = bc" if "x \<in> set seen" for x
    using assms(1) that by (simp_all add: list_all_iff)
  show "list_all buildable seen"
    by (simp add: list_all_iff ref_buildable each(1))
  show "list_all (\<lambda>x. list_all (readable ref_trex_libs x) seen) seen"
    unfolding list_all_iff using ref_chain_readable each(2) assms(2) by simp
qed

lemma ref_seen:
  assumes "quiet es" and "ns_metadata sh = Some (56, replicate 32 0)"
    and "ns_chain sh = env_chain ref_env \<or> ns_chain sh = env_chain ref_env_1"
  shows "list_all buildable (node_seen ref_trex_libs None es (sh, th))"
    and "list_all (\<lambda>x. list_all (readable ref_trex_libs x) (node_seen ref_trex_libs None es (sh, th)))
      (node_seen ref_trex_libs None es (sh, th))"
  using ref_constant_ok [OF quiet_seen [OF assms(1), of sh ref_trex_libs None th, unfolded assms(2)] assms(3)] by blast+

lemma ref_shared_simps: "ns_metadata ref_shared = Some (56, replicate 32 0)" "ns_chain ref_shared = env_chain ref_env"
  by (simp_all add: ref_shared_def)

lemmas ref_alone_seen = ref_seen [OF quiet_replicate ref_shared_simps(1) disjI1 [OF ref_shared_simps(2)]]

lemma ref_runs_on:
  assumes "node_run ref_trex_libs None es (sh, thread_start st) \<noteq> None" and "quiet es"
    and "ns_metadata sh = Some (56, replicate 32 0)" and "ns_chain sh = env_chain ref_env \<or> ns_chain sh = env_chain ref_env_1"
  shows "node_run ref_trex_libs None (es @ replicate m Thread_Acts) (sh, thread_start st) \<noteq> None"
proof (induction m)
  case 0
  then show ?case using assms(1) by simp
next
  case (Suc m)
  let ?es = "es @ replicate m Thread_Acts"
  obtain sh1 th1 where run: "node_run ref_trex_libs None ?es (sh, thread_start st) = Some (sh1, th1)"
    using Suc by auto
  have "quiet ?es"
    by (simp add: quiet_append assms(2) quiet_replicate)
  then have "thread_action ref_trex_libs None sh1 th1 \<noteq> None"
    using single_thread_acts(2) [OF ref_trex.trex_node_axioms run _ _ several_None] ref_seen [OF _ assms(3,4)] by blast
  moreover have "es @ replicate (Suc m) Thread_Acts = ?es @ [Thread_Acts]"
    by (simp add: replicate_append_same)
  ultimately show ?case
    using run by (simp only: node_run_append) auto
qed

lemma acts_replicate: "acts (replicate m Thread_Acts) = m"
  by (induction m) simp_all

lemma no_workers_replicate: "no_workers (replicate m Thread_Acts)"
  by (induction m) simp_all

definition ref_solver :: "compute dist_pc" where
  "ref_solver = Apart (search_len ref_trex_libs (ref_key 56)) (ref_state 56 1 2 1 10) (ref_state 56 1 2 1 10)
     (ref_header 56 1) (ref_header 56 1) 0"

lemma ref_solver_not_won [simp]: "\<not> won ref_solver"
  by (simp add: ref_solver_def)

lemma ref_begin_attempt:
  "\<exists>a. begin_attempt ref_trex_libs None 56 (replicate 32 0) (genesis_seal 56) 1 = Some a \<and> at_solver a = Dist_Run ref_solver"
  using ref_trex.keychain_seeds_total [OF genesis_seal_seeds [of 56]]
  by (auto simp: begin_attempt_def start_solver_def ref_puzzle [OF genesis_seal_seeds] dist_start_def ref_from_pub_key
      ref_trex.u256_bigint_uint ref_header_def ref_solver_def Let_def)

text \<open>The same at height 1, where the thread rests after a failure.\<close>

definition ref_shared_1 :: "nat node_shared" where
  "ref_shared_1 = \<lparr>ns_found = False, ns_metadata = Some (56, replicate 32 0), ns_chain = env_chain ref_env_1\<rparr>"

lemma ref_search_at_1:
  "\<exists>th a. node_run ref_trex_libs None [Thread_Acts, Thread_Acts, Thread_Acts, Thread_Acts, Import_Begins]
       (ref_shared_1, thread_start ref_mining) = Some (ref_shared_1\<lparr>ns_found := True\<rparr>, th)
     \<and> mt_pc th = Solving a \<and> at_solver a = Dist_Run ref_solver \<and> mn_number (mt_state th) = 1 \<and> mt_log th = []"
proof -
  obtain a where a: "begin_attempt ref_trex_libs None 56 (replicate 32 0) (genesis_seal 56) 1 = Some a"
      "at_solver a = Dist_Run ref_solver"
    using ref_begin_attempt by blast
  have header: "do { header \<leftarrow> bc_header (env_chain ref_env_1) 0;
      (case header of Some digest \<Rightarrow> pop_seal ref_trex_libs (rev digest) | None \<Rightarrow> Some None) } = Some (Some (genesis_seal 56))"
    using ref_find_seal_1 by (auto simp: find_seal_def ref_env_1_def split: Option.bind_splits option.splits)
  let ?th = "\<lparr>mt_pc = Solving a, mt_state = \<lparr>mn_seed = 1, mn_number = 1\<rparr>, mt_log = []\<rparr> :: nat mining_thread"
  have num: "bc_best_hash (env_chain ref_env_1) = 0" "bc_best_number (env_chain ref_env_1) = 1"
    by (simp_all add: ref_env_1_def)
  have "node_run ref_trex_libs None [Thread_Acts, Thread_Acts, Thread_Acts, Thread_Acts, Import_Begins]
       (ref_shared_1, thread_start ref_mining) = Some (ref_shared_1\<lparr>ns_found := True\<rparr>, ?th)"
    by (simp add: thread_action_def thread_start_def decide_def ref_shared_1_def ref_mining_def num header a(1))
  then show ?thesis
    using a(2) by fastforce
qed

end
