(* ===== verification/Thread_Properties.thy ===== *)
theory Thread_Properties
  imports Thread_Runs
begin

text \<open>
  The properties of the mining thread among imports and rebuilt blocks: it refines the loop, it goes on, what it
  submits verifies, an import stops a search soon and silences the height, and an import that is over
  before the search begins stops nothing.
\<close>

text \<open>
  C3. In every interleaving of the mining thread and its workers with imports and rebuilt blocks, the
  outcomes of the finished iterations are those of the sequential loop on what was read, in the same
  order: iteration by iteration the metadata, the best block and its header as they were when the
  thread came to read them (\<open>reads_at\<close>), the flag as it was at each load, and, for several workers, the
  very interleaving of their actions with the imports. The thread panics only where the loop panics on
  what it read, however its workers might go on.
\<close>

theorem thread_refines_loop:
  assumes "node_run L cpus es (sh0, thread_start st0) = Some (sh, th)"
    and "readings L cpus es (sh0, thread_start st0) ([], reading_start sh0) = (rs, r)"
  shows "\<exists>st. mining_run L cpus (map env_of rs) st0 = Some (st, mt_log th)
    \<and> (mt_pc th = Read_Metadata \<longrightarrow> st = mt_state th)
    \<and> (mt_pc th = Panicked \<longrightarrow>
        (\<forall>later. mining_step L cpus (env_of (r\<lparr>rd_sched := rd_sched r @ later\<rparr>)) st = None))"
  using node_run_refines [OF assms(1)] unfolding assms(2) refines_def panics_on_def [symmetric] by fastforce

theorem thread_refines_loop_witness:
  "\<exists>(rs :: nat reading list) r st coded. mining_run ref_trex_libs None (map env_of (rs @ [r])) ref_mining = Some (st, [Submitted coded])
     \<and> rd_metadata r = Some (56, replicate 32 0) \<and> bc_best_number (rd_chain r) = 0"
proof -
  obtain m sh th coded where run: "node_run ref_trex_libs None (replicate m Thread_Acts) (ref_shared, thread_start ref_mining) = Some (sh, th)"
      and log: "mt_log th = [Submitted coded]"
    using ref_thread_run by blast
  obtain rs r' where rs: "readings ref_trex_libs None (replicate m Thread_Acts) (ref_shared, thread_start ref_mining) ([], reading_start ref_shared) = (rs, r')"
    by fastforce
  obtain st where st: "mining_run ref_trex_libs None (map env_of rs) ref_mining = Some (st, mt_log th)"
    using thread_refines_loop [OF run rs] by blast
  then obtain qs r where r: "rs = qs @ [r]"
    using log by (cases rs rule: rev_cases) auto
  have taken: "list_all (taken (node_seen ref_trex_libs None (replicate m Thread_Acts) (ref_shared, thread_start ref_mining))) rs"
    using run_readings_taken [OF run] rs by simp
  have "ns_metadata x = Some (56, replicate 32 0) \<and> bc_best_number (ns_chain x) = 0"
    if "x \<in> set (node_seen ref_trex_libs None (replicate m Thread_Acts) (ref_shared, thread_start ref_mining))" for x
    using that quiet_seen [OF quiet_replicate, of ref_shared ref_trex_libs None m "thread_start ref_mining"]
    unfolding list_all_iff by (simp add: ref_shared_def ref_env_def)
  then have "rd_metadata r = Some (56, replicate 32 0)" "bc_best_number (rd_chain r) = 0"
    using taken by (auto simp: r taken_def)
  then show ?thesis
    using st [unfolded log r] by blast
qed

text \<open>
  C22. The single-threaded thread never panics and is never stuck while every block that was best at some time
  of the run can be read at any time of it and carries a seal that decodes, and the difficulties of the blocks
  being built stay below the maximum.
\<close>

theorem thread_never_panics:
  assumes "trex_node L" and "node_run L cpus es (sh0, thread_start st0) = Some (sh, th)"
    and "list_all (\<lambda>x. list_all (readable L x) (node_seen L cpus es (sh0, thread_start st0))) (node_seen L cpus es (sh0, thread_start st0))"
    and "list_all buildable (node_seen L cpus es (sh0, thread_start st0))" and "\<not> several cpus"
  shows "mt_pc th \<noteq> Panicked \<and> thread_action L cpus sh th \<noteq> None"
  using single_thread_acts [OF assms] by blast

theorem thread_never_panics_witness:
  "\<exists>m sh th coded. node_run ref_trex_libs None (replicate m Thread_Acts) (ref_shared, thread_start ref_mining) = Some (sh, th)
     \<and> mt_log th = [Submitted coded] \<and> mt_pc th \<noteq> Panicked"
proof -
  obtain m sh th coded where run: "node_run ref_trex_libs None (replicate m Thread_Acts) (ref_shared, thread_start ref_mining) = Some (sh, th)"
      and log: "mt_log th = [Submitted coded]"
    using ref_thread_run by blast
  show ?thesis
    using thread_never_panics [OF ref_trex.trex_node_axioms run ref_alone_seen(2,1) several_None] run log by auto
qed

text \<open>
  C11. However the single-threaded thread is interleaved, every seal it submits is accepted by \<open>TREXAlgo::verify\<close> for a block
  that the node was building at some time of the run.
\<close>

theorem interleaved_seals_verify:
  assumes "trex_node L" and "node_run L cpus es (sh0, thread_start st0) = Some (sh, th)"
    and "list_all buildable (node_seen L cpus es (sh0, thread_start st0))"
    and "Submitted coded \<in> set (mt_log th)" and "\<not> several cpus"
  shows "\<exists>d h. Some (d, h) \<in> ns_metadata ` set (node_seen L cpus es (sh0, thread_start st0))
    \<and> trex_verify L h coded d = Some True"
proof -
  let ?seen = "node_seen L cpus es (sh0, thread_start st0)" and ?rs = "fst (run_readings L cpus es sh0 st0)"
  obtain st where run: "mining_run L cpus (map env_of ?rs) st0 = Some (st, mt_log th)"
    using node_run_refines [OF assms(2)] by (auto simp: refines_def)
  obtain e st1 st2 where "e \<in> set (map env_of ?rs)" and step: "mining_step L cpus e st1 = Some (st2, Submitted coded)"
    using submitted_in_run [OF run assms(4)] by blast
  then obtain r where r: "r \<in> set ?rs" "e = env_of r"
    by auto
  have taken: "taken ?seen r"
    using run_readings_taken [OF assms(2)] r(1) by (simp add: list_all_iff)
  obtain d h where md: "env_metadata e = Some (d, h)"
    using step by (cases "env_metadata e") (auto simp: mining_step_def bind_eq_Some_conv split: option.splits)
  have "trex_verify L h coded d = Some True"
    using trex_node.submitted_verifies(1) [OF assms(1) step md taken_buildable [OF taken assms(3)]
      not_several [OF assms(5)]] md r(2) by simp
  then show ?thesis
    using taken md r(2) by (auto simp: taken_def)
qed

theorem interleaved_seals_verify_witness:
  "\<exists>m sh th coded d h. node_run ref_trex_libs None (replicate m Thread_Acts) (ref_shared, thread_start ref_mining) = Some (sh, th)
     \<and> mt_log th = [Submitted coded] \<and> trex_verify ref_trex_libs h coded d = Some True"
proof -
  obtain m sh th coded where run: "node_run ref_trex_libs None (replicate m Thread_Acts) (ref_shared, thread_start ref_mining) = Some (sh, th)"
      and log: "mt_log th = [Submitted coded]"
    using ref_thread_run by blast
  obtain d h where "trex_verify ref_trex_libs h coded d = Some True"
    using interleaved_seals_verify [OF ref_trex.trex_node_axioms run ref_alone_seen(1) _ several_None, of coded] log by auto
  then show ?thesis
    using run log by blast
qed

text \<open>
  C10. An import that begins while the thread searches stops it: unless the solver has already won, it
  returns nothing after at most 20004 actions of its own, an action being at most one iteration of a loop, and the
  attempt has failed, whatever else is imported and built meanwhile.
\<close>

theorem import_stops_search:
  assumes "trex_node L" and "node_run L cpus es (sh0, thread_start st0) = Some (sh, th)"
    and "list_all buildable (node_seen L cpus es (sh0, thread_start st0))"
    and "mt_pc th = Solving a" and "at_solver a = Dist_Run pc" and "\<not> won pc" and "ns_found sh"
    and "20004 \<le> acts fs" and "no_workers fs"
  shows "reaches_within L cpus 20004 fs sh th (gives_up th)"
  by (rule reached_search_stops [OF assms])

theorem import_stops_search_witness:
  "\<exists>sh th a. node_run ref_trex_libs None [Thread_Acts, Thread_Acts, Thread_Acts, Import_Begins] (ref_shared, thread_start ref_mining)
       = Some (sh, th)
     \<and> mt_pc th = Solving a \<and> reaches_within ref_trex_libs None 20004 (replicate 20004 Thread_Acts) sh th (gives_up th)"
proof -
  let ?es = "[Thread_Acts, Thread_Acts, Thread_Acts, Import_Begins]"
  obtain a where a: "begin_attempt ref_trex_libs None 56 (replicate 32 0) (genesis_seal 56) 1 = Some a"
      "at_solver a = Dist_Run ref_solver"
    using ref_begin_attempt by blast
  let ?th = "(thread_start ref_mining :: nat mining_thread)\<lparr>mt_pc := Solving a\<rparr>"
  have run: "node_run ref_trex_libs None ?es (ref_shared, thread_start ref_mining) = Some (ref_shared\<lparr>ns_found := True\<rparr>, ?th)"
    using a(1) by (simp add: thread_action_def thread_start_def decide_def ref_shared_def ref_env_def ref_mining_def INIT_DIFFICULTY_def)
  have seen: "list_all buildable (node_seen ref_trex_libs None ?es (ref_shared, thread_start ref_mining))"
    using a(1) ref_difficulty_ok
    by (simp add: thread_action_def thread_start_def decide_def ref_shared_def ref_env_def ref_mining_def INIT_DIFFICULTY_def buildable_def)
  have "reaches_within ref_trex_libs None 20004 (replicate 20004 Thread_Acts) (ref_shared\<lparr>ns_found := True\<rparr>) ?th (gives_up ?th)"
    by (rule import_stops_search [OF ref_trex.trex_node_axioms run seen, where a = a and pc = ref_solver]) (simp_all add: a(2) acts_replicate no_workers_replicate)
  moreover have "mt_pc ?th = Solving a"
    by simp
  ultimately show ?thesis
    using run by blast
qed

text \<open>
  C4. An import silences the miner for its height: when one begins while the single-threaded solver searches
  above height 0, and the number of the best block stays what it was, because the block was refused or lies on another
  branch, the attempt fails and the thread does nothing but sleep, for as long as the number stays.
\<close>

theorem import_silences_height:
  assumes "trex_node L" and "node_run L cpus es (sh0, thread_start st0) = Some (sh, th)"
    and "list_all buildable (node_seen L cpus es (sh0, thread_start st0))"
    and "mt_pc th = Solving a" and "at_solver a = Dist_Run pc" and "\<not> won pc" and "ns_found sh"
    and "20004 \<le> acts fs" and "no_workers fs" and "node_run L cpus fs (sh, th) = Some (sh', th')"
    and "mn_number (mt_state th) \<noteq> 0"
    and "list_all (\<lambda>x. bc_best_number (ns_chain x) = mn_number (mt_state th)) (node_seen L cpus fs (sh, th))"
  shows "\<exists>n. mt_log th' = mt_log th @ Failed # replicate n Slept"
proof -
  let ?st = "mt_state (gives_up th)"
  obtain gs hs sh1 where fs: "fs = gs @ hs" and run1: "node_run L cpus gs (sh, th) = Some (sh1, gives_up th)"
    using reached_search_stops [OF assms(1-9)] by (auto simp: reaches_within_def)
  have run2: "node_run L cpus hs (sh1, gives_up th) = Some (sh', th')"
    using assms(10) run1 by (simp add: fs node_run_append)
  have st: "mn_number ?st = mn_number (mt_state th)"
    by (simp add: gives_up_def next_iteration_def)
  have "list_all (\<lambda>x. bc_best_number (ns_chain x) = mn_number ?st) (node_seen L cpus hs (sh1, gives_up th))"
    using assms(12) node_seen_suffix [OF run1, of hs] by (auto simp: fs st list_all_iff)
  moreover have "resting ?st (mt_log th @ [Failed]) (gives_up th)"
    by (auto simp: resting_def gives_up_def next_iteration_def intro: exI [of _ 0])
  ultimately have "resting ?st (mt_log th @ [Failed]) th'"
    using resting_run [OF _ _ run2] assms(11) st by simp
  then show ?thesis
    by (auto simp: resting_def)
qed

theorem import_silences_height_witness:
  "\<exists>n es sh th. node_run ref_trex_libs None es (ref_shared_1, thread_start ref_mining) = Some (sh, th)
     \<and> mt_log th = Failed # replicate n Slept"
proof -
  let ?es = "[Thread_Acts, Thread_Acts, Thread_Acts, Thread_Acts, Import_Begins] :: nat node_action list"
  let ?fs = "replicate 20004 Thread_Acts :: nat node_action list" and ?sh = "ref_shared_1\<lparr>ns_found := True\<rparr>"
  obtain th a where run: "node_run ref_trex_libs None ?es (ref_shared_1, thread_start ref_mining) = Some (?sh, th)"
      and th: "mt_pc th = Solving a" "at_solver a = Dist_Run ref_solver" "mn_number (mt_state th) = 1" "mt_log th = []"
    using ref_search_at_1 by blast
  have shared: "ns_metadata ref_shared_1 = Some (56, replicate 32 0)" "ns_chain ref_shared_1 = env_chain ref_env_1"
    by (simp_all add: ref_shared_1_def)
  have quiet: "quiet ?es"
    by simp
  obtain sh' th' where run': "node_run ref_trex_libs None ?fs (?sh, th) = Some (sh', th')"
    using ref_runs_on [OF _ quiet shared(1) disjI2 [OF shared(2)], of ref_mining 20004] run
    unfolding node_run_append run Option.bind.simps by auto
  have built: "list_all buildable (node_seen ref_trex_libs None ?es (ref_shared_1, thread_start ref_mining))"
    by (rule ref_seen(1) [OF quiet shared(1) disjI2 [OF shared(2)]])
  have "bc_best_number (ns_chain ?sh) = 1"
    by (simp add: shared(2) ref_env_1_def)
  then have same: "list_all (\<lambda>x. bc_best_number (ns_chain x) = mn_number (mt_state th)) (node_seen ref_trex_libs None ?fs (?sh, th))"
    using quiet_seen [OF quiet_replicate, of ?sh ref_trex_libs None 20004 th] by (auto simp: list_all_iff th(3))
  obtain n where "mt_log th' = mt_log th @ Failed # replicate n Slept"
    using import_silences_height [OF ref_trex.trex_node_axioms run built th(1,2) ref_solver_not_won _ _ no_workers_replicate run' _ same]
    by (auto simp: acts_replicate th(3))
  moreover have "node_run ref_trex_libs None (?es @ ?fs) (ref_shared_1, thread_start ref_mining) = Some (sh', th')"
    using run run' by (simp only: node_run_append Option.bind.simps)
  ultimately show ?thesis
    unfolding th(4) append_Nil by blast
qed

text \<open>
  C21. An import that begins and ends between the reading of the metadata and the reset of the flag stops
  nothing: the thread still searches, undisturbed, for the block the node no longer builds, with the
  seeds of the new best block, and submits what it finds. The seal even verifies, for the old block.
\<close>

theorem import_before_search_ignored:
  assumes "trex_node L" and "mt_pc th = Read_Metadata" and "ns_metadata sh = Some (d, h)" and "difficulty_ok d"
    and "find_seal L bc = Some (Some s, num)" and "bc_best_number bc \<noteq> 0" and "\<not> rests (mt_state th) num"
    and "try_cpu_mining L s \<lparr>cmp_difficulty = d, cmp_pre_hash = h, cmp_nonce = 1\<rparr> (mn_seed (mt_state th)) cpus
      (\<lambda>i. False) False [] = Some (Some new, c')" and "\<not> several cpus"
  shows "(\<exists>m found. node_run L cpus ([Thread_Acts, Import_Begins, Import_Ends bc, Rebuilt md] @ replicate m Thread_Acts) (sh, th) =
      Some (\<lparr>ns_found = found, ns_metadata = md, ns_chain = bc\<rparr>,
        next_iteration \<lparr>mn_seed = 1, mn_number = num\<rparr> (Submitted (encode_seal L new)) th))
    \<and> trex_verify L h (encode_seal L new) d = Some True"
proof
  show "\<exists>m found. node_run L cpus ([Thread_Acts, Import_Begins, Import_Ends bc, Rebuilt md] @ replicate m Thread_Acts) (sh, th) =
      Some (\<lparr>ns_found = found, ns_metadata = md, ns_chain = bc\<rparr>,
        next_iteration \<lparr>mn_seed = 1, mn_number = num\<rparr> (Submitted (encode_seal L new)) th)"
    by (rule late_import_run [OF assms(2,3,5-9)])
  have "length (seal_seeds s) = SEEDS_LEN"
    by (rule trex_node.find_seal_seeds [OF assms(1,5)])
  moreover have "publishes_alone L (blake3_compute L) k c seed cpus False []" for k c seed
    using assms(9) by (auto simp: publishes_alone_def several_def split: option.splits)
  ultimately show "trex_verify L h (encode_seal L new) d = Some True"
    using trex_node.mined_seal_verifies(1) [OF assms(1) _ _ assms(8)] assms(4) by simp
qed

theorem import_before_search_ignored_witness:
  "\<exists>m sh th coded. node_run ref_trex_libs None
       ([Thread_Acts, Import_Begins, Import_Ends (env_chain ref_env_1), Rebuilt None] @ replicate m Thread_Acts)
       (ref_shared, thread_start ref_mining) = Some (sh, th)
     \<and> ns_metadata sh = None \<and> mt_log th = [Submitted coded]
     \<and> trex_verify ref_trex_libs (replicate 32 0) coded 56 = Some True"
proof -
  obtain new where new: "try_cpu_mining ref_trex_libs (genesis_seal 56)
      \<lparr>cmp_difficulty = 56, cmp_pre_hash = replicate 32 0, cmp_nonce = 1\<rparr> 1 None (\<lambda>i. False) False []
      = Some (Some new, ref_header 56 3)"
    using ref_mines_alone by blast
  have "mt_pc (thread_start ref_mining :: nat mining_thread) = Read_Metadata" "ns_metadata ref_shared = Some (56, replicate 32 0)"
      "bc_best_number (env_chain ref_env_1) \<noteq> 0" "\<not> rests (mt_state (thread_start ref_mining)) 1"
      "mn_seed (mt_state (thread_start ref_mining)) = 1"
    by (simp_all add: thread_start_def ref_shared_def ref_env_1_def ref_mining_def rests_def)
  then show ?thesis
    using import_before_search_ignored [OF ref_trex.trex_node_axioms, of "thread_start ref_mining" ref_shared 56 "replicate 32 0"
        "env_chain ref_env_1" "genesis_seal 56" 1 None new "ref_header 56 3" None] new several_None ref_find_seal_1 ref_difficulty_ok
    by (fastforce simp: next_iteration_def thread_start_def)
qed

end
