(* ===== verification/Spec2Isabelle.thy ===== *)
theory Spec2Isabelle
  imports Puzzle_Properties Walk_Properties Chain_Properties Runtime_Properties Node_Properties Solver_Tests
    Forgery Chain Rewards_Tests Rpc Entry Thread_Properties
begin

text \<open>
  A model of TREX, a proof-of-work chain built on Substrate whose puzzle is a discrete logarithm. A block
  of difficulty \<open>d\<close> is mined by finding a collision of Pollard's rho walk in the group of a \<open>d\<close>-bit
  ElGamal key; the walk hashes the block header, so that a collision is bound to a block, and it gives
  the private key away, which is what opens time-release messages.

  \<^bold>\<open>The program and the theories.\<close>

  \<^item> \<open>Constants\<close>: \<open>primitives/constants\<close>. \<open>Prelude\<close>, \<open>Externals\<close>: words, bytes, and the crates \<open>rug\<close> and
    \<open>blake3\<close> as records of functions with their documented laws in the locales \<open>rug_spec\<close>, \<open>rand_spec\<close>
    and \<open>blake_spec\<close>.
  \<^item> \<open>Generic\<close>, \<open>Utils\<close>, \<open>Header\<close>: \<open>generic.rs\<close>, \<open>utils.rs\<close>, \<open>hash.rs\<close> of \<open>consensus/trex-pow/src\<close>. The trait
    \<open>Hash\<close> is a record of its methods, the locale \<open>header_hash\<close> its contract, and \<open>blake3_compute\<close> the
    implementation.
  \<^item> \<open>Walk\<close>, \<open>Walk_Props\<close>, \<open>Solver\<close>: \<open>func_f\<close>, \<open>func_g\<close>, \<open>func_h\<close>, \<open>transit\<close>, \<open>hash_diff\<close>, \<open>solve\<close> and
    \<open>solve_dist\<close> of \<open>algorithm.rs\<close>, with \<open>from_pub_key\<close> of \<open>lib.rs\<close>. A panic is \<open>None\<close>. The loops
    count to \<open>n = 8 * sqrt p\<close>, so they are recursions on the iterations left, and no fuel is needed.
  \<^item> \<open>Parallel\<close>, \<open>Parallel_Props\<close>: \<open>solve_parallel\<close>. A thread is a program counter over its atomic actions on
    the shared map, flag, nonce and result; \<open>par_step\<close> is the step relation of all threads with the block
    import, and \<open>solve_parallel\<close> runs them under a given schedule. The invariant \<open>par_ok\<close> holds in every
    reachable state, \<open>publish_inv\<close> in those reached without two threads publishing at a time, and
    \<open>par_measure\<close> decreases with every action.
  \<^item> \<open>Verifier\<close>, \<open>Key_Recovery\<close>: \<open>SolutionVerifier\<close> of \<open>lib.rs\<close> and \<open>eqs_solvers\<close> of \<open>utils.rs\<close>.
  \<^item> \<open>Keychain\<close>, \<open>Seal\<close>, \<open>Seal_Codec\<close>: \<open>keychain.rs\<close>, \<open>genesis.rs\<close>, \<open>Seal::try_cpu_mining\<close> and both
    implementations of \<open>PowAlgorithm\<close>. Key generation (\<open>elgamal_trex\<close>) and the derived SCALE codec are
    fields of \<open>trex_libs\<close>, with their laws in the locale \<open>trex_node\<close>.
  \<^item> \<open>Mining\<close>: the mining thread and \<open>decode_author\<close> of \<open>node/src/service.rs\<close>, \<open>node/src/mining.rs\<close>, and
    \<open>distributed.rs\<close>, the block import that sets the flag the solvers poll. An iteration of the loop is a
    function of what it finds outside (\<open>mining_step\<close>).
  \<^item> \<open>Solver_Steps\<close>, \<open>Mining_Thread\<close>, \<open>Thread_Refinement\<close>, \<open>Thread_Runs\<close>: the same thread action by action, among
    imports, rebuilt blocks and the workers of the parallel solver. \<open>Solver_Steps\<close> has \<open>solve_dist\<close> as actions
    with at most one access to the flag each, \<open>Mining_Thread\<close> the thread and its environment, and
    \<open>Thread_Refinement\<close> what a run reads and when (\<open>readings\<close>) and the simulation by \<open>mining_run\<close> on that;
    \<open>Thread_Runs\<close> has what the properties need of single runs.
  \<^item> \<open>Clamp\<close>, \<open>Pallet_Difficulty\<close>: \<open>pallets/difficulty\<close>. The \<open>f32\<close> operations are a record whose errors the
    locale \<open>f32_spec\<close> bounds.
  \<^item> \<open>Frame\<close>, \<open>Pallet_Rewards\<close>, \<open>Pallet_Storage\<close>, \<open>Pallet_Trex\<close>: what the pallets use of Substrate (origins,
    the locale \<open>currency\<close>, digests, \<open>BTreeMap\<close>, weights), and \<open>pallets/rewards\<close>, \<open>pallets/storage\<close>,
    \<open>pallets/trex\<close> with their RPC handlers and weights.
  \<^item> \<open>Runtime\<close>, \<open>Node\<close>: the runtime as the composition of these pallets, its genesis and APIs; the chain
    specifications, the RPC methods (\<open>node/src/rpc.rs\<close>), and the inherent data provider.
  \<^item> \<open>Executive\<close>: the list of pallets of \<open>construct_runtime!\<close> and their limits, the methods of
    \<open>impl_runtime_apis!\<close>, the signed extensions and the benchmark lists of \<open>runtime/src/lib.rs\<close>. \<open>Rpc\<close>: a request
    from its method name through the runtime API to the storage of a pallet. \<open>Entry\<close>: \<open>main\<close>.
  \<^item> \<open>Chain\<close>: the chains that verified and executed blocks can form, as an inductive relation over the
    runtime's state, the digest and the number of the best block, for either algorithm (feature \<open>min-algo\<close>).
  \<^item> \<open>Forgery\<close>: seals over a key of the attacker's choice.
  \<^item> \<open>Rewards_Tests\<close>: the mock runtime, the driver and the reward curve of the tests of \<open>pallets/rewards\<close>.
  \<^item> \<open>Cli\<close>, \<open>Service\<close>, \<open>Command\<close>: the command line, \<open>new_partial\<close> and \<open>new_full\<close> of \<open>service.rs\<close> as sequences
    of steps that may fail, with the store of the flag \<open>found\<close>, and \<open>run\<close> of \<open>command.rs\<close>. The specification
    of a start-up is a list of steps, \<open>full_plan\<close>, that runs up to the first error.
  \<^item> \<open>Extrinsic\<close>: the version of the runtime and the signed extrinsic of \<open>command_helper.rs\<close>; what a runtime
    accepts is the locale \<open>signed_extrinsics\<close>.
  \<^item> \<open>Solver_Tests\<close>: the unit tests of \<open>consensus/trex-pow/src/lib.rs\<close> as functions.
  \<^item> \<open>Reference_Run\<close>: runs of a small instance, the group modulo 11, on which the witnesses rest.

  \<^bold>\<open>How the parts interact.\<close> The runtime's difficulty selects the key of the chain in the last seal
  (\<open>puzzle_of\<close>); a solver finds a pair for it (\<open>mined\<close> is the contract of a solver, \<open>accepts\<close> that of the
  verifier, and \<open>mined_verifies\<close> connects them); the seal goes into the digest of a block, where
  \<open>find_seal\<close> picks it up for the next one; the author item of the same digest is what the rewards pallet
  pays. The flag \<open>found\<close> is set by a solver that succeeds and by every imported block.

  \<^bold>\<open>What the properties show.\<close> \<open>Walk_Properties\<close>: the walk keeps exponents and group element in step, the
  first loop is Floyd's algorithm and finds a collision whenever the walk revisits an element in time,
  what the distinguished points are, and what a collision is worth. \<open>Puzzle_Properties\<close>: what the
  verifier accepts, that every result of the single-threaded solvers verifies, that the flag can only make
  the distributed one give up, and under which interleavings the result of the parallel one verifies. \<open>Chain_Properties\<close>: seals, seeds and the mining
  loop. \<open>Runtime_Properties\<close>: the pallets and blocks. \<open>Node_Properties\<close>: start-up, who mines and for whom, and the
  flag between block import and mining. \<open>Thread_Properties\<close>: every interleaving of the mining thread does what
  the loop does on what it read at the time, an import stops a search at most 20004 actions later, what that does
  to the height, and when it is lost. \<open>Chain\<close>: a miner at the tip of any reachable chain works on, up to
  the top of the difficulty scale, and what it submits extends the chain. \<open>Rewards_Tests\<close>: over a run of blocks
  the reward follows the schedule and every author is paid once. \<open>Rpc\<close>: a request is answered from the
  state. This theory: the properties
  that span them. Some are defects: a verifier that takes the key from the seal, a difficulty without a key, a seal that crashes the verifier, a pair that is no
  collision, a race between workers, a lost key, a schedule that is never pruned, an import that silences the miner although it
  was refused, and one that goes unnoticed.

  \<^bold>\<open>Assumptions and bounds.\<close> \<open>key_ok\<close> is what the theorems need of a key: a modulus of at most 256 bits
  whose predecessor is a multiple of the orders of \<open>g\<close> and \<open>h\<close>, as for a prime. Arithmetic is that of a
  release build: words wrap. \<open>solve_dist\<close> ends within \<open>4 n + 5\<close> actions, \<open>n\<close> being the length of its loops, and
  within \<open>2 * grain + 3\<close> once the flag is set, the loads being \<open>grain\<close> iterations apart, 10000 in a miner
  (\<open>dist_action_measure\<close>, \<open>stop_measure_bound\<close>). The relaxed atomics are interleaved, which is their behaviour on a single
  location; the two mutexes and the read-write lock order the rest.

  \<^bold>\<open>Not modelled.\<close> What a service, network, transaction pool or command of Substrate does once it is started
  is Substrate's: such a call is a step of the start-up. What Substrate's own pallets and its \<open>Executive\<close> do
  is a parameter of the runtime APIs; of a block there is what happens to the state of this repository's pallets
  (\<open>execute_block\<close>). Associated types of pallet configurations that only name a type have no model. Blocks carry
  the calls of this repository's pallets, without fees or transfers. The mocks, tests and benchmarks of
  \<open>pallets/storage\<close> and \<open>pallets/trex\<close>, which are copies made for another pallet, and the build scripts are left
  out.
\<close>

section \<open>From mining to verification and on to the next block\<close>

text \<open>
  C1. What a single-threaded node submits is a valid block and can be mined on: the verifier accepts the
  seal for the parent and the difficulty it was mined for, and once a block carries it as its last
  digest item the node finds it again as the seal, with a full chain of seeds, for the next puzzle.
\<close>

theorem submitted_seal_verifies:
  assumes "trex_node L" and "mining_step L cpus env st = Some (st', Submitted coded)"
    and "env_metadata env = Some (difficulty, pre_hash)" and "difficulty_ok difficulty"
    and "cpus = None \<or> cpus = Some v \<and> v \<le> 1"
    and "bc_best_number bc \<noteq> 0"
    and "bc_header bc (bc_best_hash bc) = Some (Some (logs @ [Seal_Item engine coded]))"
  shows "trex_verify L pre_hash coded difficulty = Some True
    \<and> (\<exists>new. find_seal L bc = Some (Some new, bc_best_number bc)
        \<and> (\<forall>d. difficulty_ok d \<longrightarrow> (\<exists>k. puzzle_of L new d = Some k \<and> key_ok k \<and> uint (key_bits k) = uint d)))"
proof -
  note verified = trex_node.submitted_verifies [OF assms(1-5)]
  obtain new where new: "decode_seal L coded = Some new" "length (seal_seeds new) = SEEDS_LEN"
    using verified(2) by blast
  show ?thesis
    using verified(1) pop_seal_last [OF assms(6,7) new(1)] trex_node.puzzle_of_ok [OF assms(1) new(2)]
    by blast
qed

lemma ref_mining_submits:
  "\<exists>st' coded. mining_step ref_trex_libs None ref_env ref_mining = Some (st', Submitted coded)"
proof -
  obtain new where "try_cpu_mining ref_trex_libs (genesis_seal 56) (ref_header 56 1) 1 None (\<lambda>i. False) False []
      = Some (Some new, ref_header 56 3)"
    using ref_try_cpu_mining [OF genesis_seal_seeds] by blast
  then show ?thesis
    using mining_step_mines [OF ref_find_seal, of ref_mining 56 "replicate 32 0" None]
    by (simp add: rests_def ref_mining_def ref_env_metadata ref_header_def) (simp add: ref_env_def)
qed

theorem submitted_seal_verifies_witness:
  "\<exists>coded new. trex_verify ref_trex_libs (replicate 32 0) coded 56 = Some True
    \<and> find_seal ref_trex_libs \<lparr>bc_best_hash = 0 :: nat, bc_best_number = 1,
        bc_header = (\<lambda>h. Some (Some ([] @ [Seal_Item POW_ENGINE_ID coded])))\<rparr> = Some (Some new, 1)"
proof -
  obtain st' coded where step: "mining_step ref_trex_libs None ref_env ref_mining = Some (st', Submitted coded)"
    using ref_mining_submits by blast
  show ?thesis
    using submitted_seal_verifies [OF ref_trex.trex_node_axioms step ref_env_metadata ref_difficulty_ok,
        where bc = "\<lparr>bc_best_hash = 0 :: nat, bc_best_number = 1,
        bc_header = (\<lambda>h. Some (Some ([] @ [Seal_Item POW_ENGINE_ID coded])))\<rparr>" and logs = "[]" and v = 0]
    by auto
qed

section \<open>The top of the difficulty scale\<close>

text \<open>
  Blocks every three seconds, the least the timestamp pallet allows, measure 177 seconds per window and
  raise the difficulty at each.
\<close>

definition fast_blocks :: "nat \<Rightarrow> u64 list" where
  "fast_blocks n = map (\<lambda>i. of_nat (3000 * i)) [0..<60 * n]"

lemma fast_blocks_Suc:
  "fast_blocks (Suc n) = fast_blocks n @ map (\<lambda>i. of_nat (3000 * (60 * n + i))) [0..<60]"
proof -
  have "[0..<60 * Suc n] = [0..<60 * n] @ map (\<lambda>i. 60 * n + i) [0..<60]"
    using upt_add_eq_append [of 0 "60 * n" 60] by (simp add: map_add_upt add.commute)
  then show ?thesis
    by (simp only: fast_blocks_def map_append map_map o_def)
qed

lemma fast_window:
  assumes "n \<le> 1000"
  shows "elapsed_seconds (map (\<lambda>i. of_nat (3000 * (60 * n + i))) [0..<60]) = 177"
proof -
  define f :: "nat \<Rightarrow> u64" where "f i = of_nat (3000 * (60 * n + i))" for i
  have f: "uint (f i) = 3000 * (60 * int n + int i)" if "i < 60" for i
    unfolding f_def using that assms by (subst uint_of_nat_small) simp_all
  let ?ms = "map f [0..<60]"
  have "max 0 (uint (?ms ! i) - uint (?ms ! (i - 1))) div 1000 = 3" if "i \<in> set [1..<60]" for i
  proof -
    from that have i: "1 \<le> i" "i < 60" "i - 1 < 60" by auto
    then show ?thesis
      using f [OF i(2)] f [OF i(3)] by (simp add: of_nat_diff)
  qed
  then have "elapsed_seconds ?ms = (\<Sum>i\<leftarrow>[1..<60]. 3)"
    unfolding elapsed_seconds_def by (intro arg_cong [where f = sum_list] map_cong) simp_all
  then have "elapsed_seconds ?ms = 177"
    by (simp add: sum_list_triv)
  then show ?thesis
    by (simp only: f_def [abs_def])
qed

lemma fast_windows:
  assumes "f32_spec F val" and "n \<le> 1000"
  shows "\<exists>s. set_timestamps F TargetBlockTime (fast_blocks n)
      (difficulty_genesis_build INIT_DIFFICULTY difficulty_storage_empty) = Some s
    \<and> difficulty_inv s \<and> height_of s = 0 \<and> uint (difficulty_or_default s) = min 224 (56 + int n)"
  using assms(2)
proof (induction n)
  case 0
  show ?case
    using ref_difficulty_inv
    by (simp add: fast_blocks_def INIT_DIFFICULTY_def height_of_def difficulty_or_default_def
        difficulty_genesis_build_def difficulty_storage_empty_def)
next
  case (Suc n)
  let ?w = "map (\<lambda>i. of_nat (3000 * (60 * n + i))) [0..<60] :: u64 list"
  obtain s where s: "set_timestamps F TargetBlockTime (fast_blocks n)
      (difficulty_genesis_build INIT_DIFFICULTY difficulty_storage_empty) = Some s"
    "difficulty_inv s" "height_of s = 0" "uint (difficulty_or_default s) = min 224 (56 + int n)"
    using Suc by auto
  obtain s' where s': "set_timestamps F TargetBlockTime ?w s = Some s'" "difficulty_inv s'" "height_of s' = 0"
    using set_timestamps_window [OF s(2,3), of ?w F TargetBlockTime] by auto
  have target: "uint TargetBlockTime = 60"
    by (simp add: TargetBlockTime_def BLOCK_TIME_SEC_def)
  have "uint (difficulty_or_default s') = min 224 (uint (difficulty_or_default s) + 1)"
    using f32_spec.window_adjusts(1) [OF assms(1) s(2,3) _ _ _ s'(1)] fast_window [of n] Suc.prems
    by (simp add: target)
  then show ?case
    using s s' by (simp add: fast_blocks_Suc set_timestamps_append)
qed

text \<open>
  C15. The difficulty pallet reaches its maximum, 224, from the genesis of a test network within 168 hours
  of fast blocks, and no seal holds a key for it: mining then panics on every seal and every header.
\<close>

theorem top_difficulty_halts_mining:
  assumes "f32_spec F val"
  shows "\<exists>s d. set_timestamps F TargetBlockTime (fast_blocks 168)
      (difficulty_genesis_build INIT_DIFFICULTY difficulty_storage_empty) = Some s
    \<and> current_difficulty s = Some d \<and> d = MAX_DIFFICULTY
    \<and> (\<forall>L sl c mining_seed cpus obs flag sched.
        length (seal_seeds sl) = SEEDS_LEN \<and> cmp_difficulty c = d \<longrightarrow>
        try_cpu_mining (L :: ('r, 'z) trex_libs_scheme) sl c mining_seed cpus obs flag sched = None)"
proof -
  obtain s where s: "set_timestamps F TargetBlockTime (fast_blocks 168)
      (difficulty_genesis_build INIT_DIFFICULTY difficulty_storage_empty) = Some s"
    "uint (difficulty_or_default s) = 224"
    using fast_windows [OF assms, of 168] by auto
  then have "difficulty_or_default s = MAX_DIFFICULTY"
    by (intro word_uint_eqI) (simp add: difficulty_consts)
  then have d: "current_difficulty s = Some MAX_DIFFICULTY"
    by (auto simp: difficulty_or_default_def difficulty_consts split: option.splits)
  have "try_cpu_mining L sl c mining_seed cpus obs flag sched = None"
    if "length (seal_seeds sl) = SEEDS_LEN" "cmp_difficulty c = MAX_DIFFICULTY"
    for L :: "('r, 'z) trex_libs_scheme" and sl c mining_seed cpus obs flag sched
    using puzzle_of_max [OF that(1), of L] that(2) by (simp add: try_cpu_mining_def)
  then show ?thesis
    using s(1) d by blast
qed

theorem top_difficulty_halts_mining_witness:
  "try_cpu_mining ref_trex_libs (genesis_seal 224) (ref_header 224 1) 1 None (\<lambda>i. False) False [] = None"
proof -
  have "\<forall>(L :: int trex_libs) sl c mining_seed cpus obs flag sched.
      length (seal_seeds sl) = SEEDS_LEN \<and> cmp_difficulty c = MAX_DIFFICULTY \<longrightarrow>
      try_cpu_mining L sl c mining_seed cpus obs flag sched = None"
    using top_difficulty_halts_mining [OF exact.f32_spec_axioms, where ?'r = int and ?'z = unit]
    by (elim exE conjE) simp
  then show ?thesis
    by (elim allE impE)
      (use genesis_seal_seeds [of 224] in \<open>auto simp: ref_header_def difficulty_consts\<close>)
qed

section \<open>From the command line to the chain\<close>

text \<open>
  C14. Every network the node builds itself, \<open>dev\<close>, \<open>local\<close> or the default, runs: from its genesis no
  sequence of blocks panics, and the difficulty the algorithm then gets from the runtime is one of
  the scale.
\<close>

theorem built_in_network_runs:
  assumes "load_spec K (Some wasm) cloud from_json name = Some (Inr spec)"
    and "name \<in> {''dev'', '''', ''local''}" and "cs_genesis spec = Some config"
    and "minimum_balance (ro_currency Q) \<le> 60000000000000"
  shows "\<exists>rt d. execute_blocks Q blocks (runtime_genesis balances config) = Some rt
    \<and> api_difficulty rt = Some d
    \<and> trex_difficulty debug (\<lambda>parent. Inr (the (api_difficulty rt))) parent = Inr d
    \<and> 48 \<le> uint d \<and> uint d \<le> 224"
proof -
  have config: "runtime_genesis balances config =
      runtime_genesis balances (testnet_genesis wasm (the (gc_sudo_key config)) (map fst (gc_balances config)))"
    using load_spec_genesis [OF assms(1-3)] by (rule arg_cong)
  then show ?thesis
    unfolding config
    using chain_from_genesis_safe [OF assms(4), of blocks balances wasm "the (gc_sudo_key config)"
        "map fst (gc_balances config)"]
    by (auto simp: trex_difficulty_def)
qed

definition ref_accounts :: "(string, nat) account_ops" where
  "ref_accounts = \<lparr>pair_from_string = Some, pair_account = length\<rparr>"

theorem built_in_network_runs_witness:
  "\<exists>rt d. execute_blocks ref_runtime_ops [ref_block, ref_block]
      (runtime_genesis (\<lambda>entries a. 0) (the (dev_genesis ref_accounts []))) = Some rt
    \<and> api_difficulty rt = Some d \<and> uint d \<le> 224"
proof -
  obtain config where config: "dev_genesis ref_accounts [] = Some config"
    by (simp add: dev_genesis_def account_id_from_seed_def ref_accounts_def)
  obtain spec where spec: "load_spec ref_accounts (Some []) None (\<lambda>path. Inl path) ''dev'' = Some (Inr spec)"
      "cs_genesis spec = Some config"
    by (simp add: load_spec_def dev_config_def config)
  have "minimum_balance (ro_currency ref_runtime_ops) \<le> 60000000000000"
    unfolding ref_minimum_balance by (simp add: word_le_def)
  from built_in_network_runs [OF spec(1) _ spec(2) this, of "[ref_block, ref_block]" "\<lambda>entries a. 0" "\<lambda>e. e" "0 :: nat"]
  show ?thesis
    by (auto simp: config)
qed

end
